(* ===== verification/Prelude.thy ===== *)
theory Prelude
  imports Main "HOL-Library.Word" "HOL-Library.List_Lexorder" "HOL-Library.Char_ord"
begin

text \<open>
  What every component of the GIMMM development shares: the failures C++ code can end in, the
  state monad the handlers are written in and a small Hoare logic for it.
\<close>

section \<open>Failures\<close>

text \<open>
  \<^verbatim>\<open>THROW_INVALID_ARGUMENT_EXCEPTION\<close> (\<^verbatim>\<open>src/macros.h\<close>) is the only throw of the program; the
  constructors of \<open>exn\<close> name its call sites.  A fault is a thrown exception, which a
  \<^verbatim>\<open>catch\<close> stops, an undefined behaviour, which nothing stops, a call of \<^verbatim>\<open>exit\<close>, or, for the
  loops over an input reader, the end of the fuel the model gives the loop.
\<close>

datatype exn =
    BlankGroupId
  | NoSuchMessage int
  | NoSuchGroup string
  | NoSuchFcmMessageId string
  | InsertFailed int
  | UpdateFailed int
  | OpenDbFailed
  | SqlFailed string
  | WriteFailed string
  | InvalidSessionState string
  | UnknownBalSession string
  | NoMessageManager string
  | UnknownMessageType string
  | UnknownStanza string

datatype ub = NullDeref | EndDeref | SignedOverflow | DoubleToInt | IteratorInvalidated | UseAfterFree | UninitRead

datatype fault = Throw exn | Undefined ub | Exit | OutOfFuel

section \<open>The state monad of the handlers\<close>

text \<open>
  A call changes the state and either returns or fails; what it had changed before it failed
  stays changed, as in C++.
\<close>

type_synonym ('s, 'a) M = "'s \<Rightarrow> (fault + 'a) \<times> 's"

definition ret :: "'a \<Rightarrow> ('s, 'a) M" where
  "ret x s = (Inr x, s)"

definition raise :: "fault \<Rightarrow> ('s, 'a) M" where
  "raise f s = (Inl f, s)"

definition liftM :: "fault + 'a \<Rightarrow> ('s, 'a) M" where
  "liftM r s = (r, s)"

definition bindM :: "('s, 'a) M \<Rightarrow> ('a \<Rightarrow> ('s, 'b) M) \<Rightarrow> ('s, 'b) M" where
  "bindM m f s = (case m s of (Inl e, t) \<Rightarrow> (Inl e, t) | (Inr x, t) \<Rightarrow> f x t)"

definition thenM :: "('s, 'a) M \<Rightarrow> ('s, 'b) M \<Rightarrow> ('s, 'b) M" where
  "thenM m n = bindM m (\<lambda>_. n)"

definition gets :: "('s \<Rightarrow> 'a) \<Rightarrow> ('s, 'a) M" where
  "gets f s = (Inr (f s), s)"

definition getsE :: "('s \<Rightarrow> fault + 'a) \<Rightarrow> ('s, 'a) M" where
  "getsE f s = (f s, s)"

definition modify :: "('s \<Rightarrow> 's) \<Rightarrow> ('s, unit) M" where
  "modify f s = (Inr (), f s)"

definition whenM :: "bool \<Rightarrow> ('s, unit) M \<Rightarrow> ('s, unit) M" where
  "whenM b m = (if b then m else ret ())"

text \<open>\<^verbatim>\<open>try { m } catch (std::exception&) { print }\<close>: a thrown exception ends the block, an
  undefined behaviour and an exit do not.\<close>

definition tryM :: "('s, unit) M \<Rightarrow> ('s, unit) M" where
  "tryM m s = (case m s of (Inl (Throw e), t) \<Rightarrow> (Inr (), t) | r \<Rightarrow> r)"

text \<open>\<^verbatim>\<open>try { m } catch (std::exception& e) { h(e) }\<close>.\<close>

definition catchM :: "('s, unit) M \<Rightarrow> (exn \<Rightarrow> ('s, unit) M) \<Rightarrow> ('s, unit) M" where
  "catchM m h s = (case m s of (Inl (Throw e), t) \<Rightarrow> h e t | r \<Rightarrow> r)"

text \<open>A call on a part of the state: \<open>get\<close> reads the part, \<open>put\<close> stores it back.\<close>

definition zoom :: "('s \<Rightarrow> 't) \<Rightarrow> ('t \<Rightarrow> 's \<Rightarrow> 's) \<Rightarrow> ('t, 'a) M \<Rightarrow> ('s, 'a) M" where
  "zoom get put m s = (case m (get s) of (r, t) \<Rightarrow> (r, put t s))"

primrec forM :: "'b list \<Rightarrow> ('b \<Rightarrow> ('s, unit) M) \<Rightarrow> ('s, unit) M" where
  "forM [] f = ret ()"
| "forM (x # xs) f = thenM (f x) (forM xs f)"

lemmas monad_defs = ret_def raise_def liftM_def bindM_def thenM_def gets_def getsE_def
  modify_def whenM_def tryM_def catchM_def zoom_def

section \<open>A Hoare logic for the monad\<close>

text \<open>\<open>hoare P m Q R\<close>: from a state with \<open>P\<close>, \<open>m\<close> returns \<open>x\<close> in a state with \<open>Q x\<close> or fails
  with \<open>f\<close> in a state with \<open>R f\<close>.\<close>

definition hoare :: "('s \<Rightarrow> bool) \<Rightarrow> ('s, 'a) M \<Rightarrow> ('a \<Rightarrow> 's \<Rightarrow> bool) \<Rightarrow> (fault \<Rightarrow> 's \<Rightarrow> bool) \<Rightarrow> bool" where
  "hoare P m Q R \<longleftrightarrow>
     (\<forall>s. P s \<longrightarrow> (case m s of (Inl f, t) \<Rightarrow> R f t | (Inr x, t) \<Rightarrow> Q x t))"

named_theorems hoare_intros

lemma hoareI:
  assumes "\<And>s f t. P s \<Longrightarrow> m s = (Inl f, t) \<Longrightarrow> R f t"
    and "\<And>s x t. P s \<Longrightarrow> m s = (Inr x, t) \<Longrightarrow> Q x t"
  shows "hoare P m Q R"
  using assms by (auto simp: hoare_def split: prod.splits sum.splits)

lemma hoareD_ok: "hoare P m Q R \<Longrightarrow> P s \<Longrightarrow> m s = (Inr x, t) \<Longrightarrow> Q x t"
  by (fastforce simp: hoare_def)

lemma hoareD_fail: "hoare P m Q R \<Longrightarrow> P s \<Longrightarrow> m s = (Inl f, t) \<Longrightarrow> R f t"
  by (fastforce simp: hoare_def)

lemma hoare_weaken:
  assumes "hoare P' m Q' R'" and "\<And>s. P s \<Longrightarrow> P' s"
    and "\<And>x s. Q' x s \<Longrightarrow> Q x s" and "\<And>f s. R' f s \<Longrightarrow> R f s"
  shows "hoare P m Q R"
  using assms by (fastforce simp: hoare_def split: prod.splits sum.splits)

lemma hoare_pre: "hoare P' m Q R \<Longrightarrow> (\<And>s. P s \<Longrightarrow> P' s) \<Longrightarrow> hoare P m Q R"
  by (rule hoare_weaken)

lemma hoare_snd:
  assumes "hoare P m (\<lambda>_. Q) (\<lambda>_. Q)" and "P s"
  shows "Q (snd (m s))"
proof (cases "m s")
  case (Pair r t)
  with assms show ?thesis by (cases r) (auto dest: hoareD_ok hoareD_fail)
qed

lemma hoare_ret [hoare_intros]: "hoare (Q x) (ret x) Q R"
  by (simp add: hoare_def ret_def)

lemma hoare_raise [hoare_intros]: "hoare (R f) (raise f) Q R"
  by (simp add: hoare_def raise_def)

lemma hoare_liftM [hoare_intros]:
  "hoare (\<lambda>s. case r of Inl f \<Rightarrow> R f s | Inr x \<Rightarrow> Q x s) (liftM r) Q R"
  by (simp add: hoare_def liftM_def split: sum.splits)

lemma hoare_gets [hoare_intros]: "hoare (\<lambda>s. Q (f s) s) (gets f) Q R"
  by (simp add: hoare_def gets_def)

lemma hoare_getsE [hoare_intros]:
  "hoare (\<lambda>s. case f s of Inl e \<Rightarrow> R e s | Inr x \<Rightarrow> Q x s) (getsE f) Q R"
  by (simp add: hoare_def getsE_def split: sum.splits)

lemma hoare_modify [hoare_intros]: "hoare (\<lambda>s. Q () (f s)) (modify f) Q R"
  by (simp add: hoare_def modify_def)

lemma hoare_bindM [hoare_intros]:
  assumes "\<And>x. hoare (P' x) (f x) Q R" and "hoare P m P' R"
  shows "hoare P (bindM m f) Q R"
  using assms unfolding hoare_def bindM_def
  by (fastforce split: prod.splits sum.splits)

lemma hoare_thenM [hoare_intros]:
  assumes "hoare P' n Q R" and "hoare P m (\<lambda>_. P') R"
  shows "hoare P (thenM m n) Q R"
  unfolding thenM_def using assms by (rule hoare_bindM)

lemma hoare_if [hoare_intros]:
  assumes "b \<Longrightarrow> hoare P m Q R" and "\<not> b \<Longrightarrow> hoare P' n Q R"
  shows "hoare (\<lambda>s. (b \<longrightarrow> P s) \<and> (\<not> b \<longrightarrow> P' s)) (if b then m else n) Q R"
  using assms by (auto simp: hoare_def)

lemma hoare_whenM [hoare_intros]:
  assumes "b \<Longrightarrow> hoare P m Q R"
  shows "hoare (\<lambda>s. (b \<longrightarrow> P s) \<and> (\<not> b \<longrightarrow> Q () s)) (whenM b m) Q R"
  using assms by (auto simp: hoare_def whenM_def ret_def)

lemma hoare_tryM [hoare_intros]:
  assumes "hoare P m Q (\<lambda>f s. case f of Throw e \<Rightarrow> Q () s | _ \<Rightarrow> R f s)"
  shows "hoare P (tryM m) Q R"
  unfolding hoare_def
proof (intro allI impI)
  fix s
  assume "P s"
  with assms have *: "case m s of (Inl f, t) \<Rightarrow> (case f of Throw e \<Rightarrow> Q () t | _ \<Rightarrow> R f t)
      | (Inr x, t) \<Rightarrow> Q x t"
    by (simp add: hoare_def)
  show "case tryM m s of (Inl f, t) \<Rightarrow> R f t | (Inr x, t) \<Rightarrow> Q x t"
  proof (cases "m s")
    case (Pair r t)
    then show ?thesis
      using * by (cases r) (auto simp: tryM_def split: fault.splits)
  qed
qed

lemma hoare_zoom:
  assumes "\<And>s0. P s0 \<Longrightarrow> hoare (\<lambda>t. t = get s0) m (\<lambda>x t. Q x (put t s0)) (\<lambda>f t. R f (put t s0))"
  shows "hoare P (zoom get put m) Q R"
  unfolding hoare_def
proof (intro allI impI)
  fix s
  assume "P s"
  then have "hoare (\<lambda>t. t = get s) m (\<lambda>x t. Q x (put t s)) (\<lambda>f t. R f (put t s))"
    by (rule assms)
  then show "case zoom get put m s of (Inl f, t) \<Rightarrow> R f t | (Inr x, t) \<Rightarrow> Q x t"
    by (auto simp: hoare_def zoom_def split: prod.splits sum.splits)
qed

lemma hoare_forM:
  assumes "\<And>x. x \<in> set xs \<Longrightarrow> hoare P (f x) (\<lambda>_. P) R"
  shows "hoare P (forM xs f) (\<lambda>_. P) R"
  using assms
proof (induction xs)
  case Nil
  show ?case by (simp add: hoare_def ret_def)
next
  case (Cons x xs)
  have "hoare P (forM xs f) (\<lambda>_. P) R" using Cons by simp
  moreover have "hoare P (f x) (\<lambda>_. P) R" using Cons.prems by simp
  ultimately show ?case by (simp add: hoare_thenM)
qed

text \<open>Invariance of a call: what holds before holds after, however the call ends.\<close>

definition keeps :: "('s \<Rightarrow> bool) \<Rightarrow> ('s, 'a) M \<Rightarrow> bool" where
  "keeps I m \<longleftrightarrow> (\<forall>s. I s \<longrightarrow> I (snd (m s)))"

named_theorems keeps_intros

lemma keepsD: "keeps I m \<Longrightarrow> I s \<Longrightarrow> m s = (r, t) \<Longrightarrow> I t"
  by (metis keeps_def snd_conv)

lemma keeps_hoare: "keeps I m \<longleftrightarrow> hoare I m (\<lambda>_. I) (\<lambda>_. I)"
  unfolding keeps_def hoare_def
  by (intro iff_allI imp_cong refl) (auto split: prod.splits sum.splits)

lemma keeps_ret [keeps_intros]: "keeps I (ret x)"
  by (simp add: keeps_def ret_def)

lemma keeps_raise [keeps_intros]: "keeps I (raise f)"
  by (simp add: keeps_def raise_def)

lemma keeps_liftM [keeps_intros]: "keeps I (liftM r)"
  by (simp add: keeps_def liftM_def)

lemma keeps_gets [keeps_intros]: "keeps I (gets f)"
  by (simp add: keeps_def gets_def)

lemma keeps_getsE [keeps_intros]: "keeps I (getsE f)"
  by (simp add: keeps_def getsE_def)

lemma keeps_bindM [keeps_intros]:
  "keeps I m \<Longrightarrow> (\<And>x. keeps I (f x)) \<Longrightarrow> keeps I (bindM m f)"
  by (fastforce simp: keeps_def bindM_def split: prod.splits sum.splits)

lemma keeps_thenM [keeps_intros]: "keeps I m \<Longrightarrow> keeps I n \<Longrightarrow> keeps I (thenM m n)"
  by (simp add: thenM_def keeps_bindM)

lemma keeps_if [keeps_intros]: "keeps I m \<Longrightarrow> keeps I n \<Longrightarrow> keeps I (if b then m else n)"
  by simp

lemma keeps_whenM [keeps_intros]: "keeps I m \<Longrightarrow> keeps I (whenM b m)"
  by (simp add: whenM_def keeps_ret)

lemma keeps_tryM [keeps_intros]: "keeps I m \<Longrightarrow> keeps I (tryM m)"
  by (fastforce simp: keeps_def tryM_def split: prod.splits sum.splits fault.splits)

lemma keeps_catchM [keeps_intros]: "keeps I m \<Longrightarrow> (\<And>e. keeps I (h e)) \<Longrightarrow> keeps I (catchM m h)"
  by (fastforce simp: keeps_def catchM_def split: prod.splits sum.splits fault.splits)

lemma keeps_modify: "(\<And>s. I s \<Longrightarrow> I (f s)) \<Longrightarrow> keeps I (modify f)"
  by (simp add: keeps_def modify_def)

lemma keeps_forM: "(\<And>x. keeps I (f x)) \<Longrightarrow> keeps I (forM xs f)"
  by (induction xs) (simp_all add: keeps_intros)

lemma keeps_zoom:
  assumes "\<And>s r t. I s \<Longrightarrow> m (get s) = (r, t) \<Longrightarrow> I (put t s)"
  shows "keeps I (zoom get put m)"
  using assms by (fastforce simp: keeps_def zoom_def split: prod.splits)

end
