(* ===== verification/Ordered_Map.thy ===== *)
theory Ordered_Map
  imports Prelude
begin

text \<open>
  \<^verbatim>\<open>std::map\<close>: the entries in increasing key order.  The containers of the program
  (\<^verbatim>\<open>MessageQueue_t\<close>, \<^verbatim>\<open>SequenceIdMap_t\<close>, \<^verbatim>\<open>GroupMap_t\<close>, \<^verbatim>\<open>BalSessionMap_t\<close>, \<^verbatim>\<open>SessionMapU\<close>,
  \<^verbatim>\<open>FcmConnectionsMap\<close>) and the \<^verbatim>\<open>messages\<close> table of the database are such maps; iteration order
  matters to the program, so the model is the sorted list of the entries.  The locale
  \<open>std_map\<close> is the contract the components rely on.
\<close>

type_synonym ('k, 'v) omap = "('k \<times> 'v) list"

text \<open>\<open>emplace\<close> inserts only when the key is absent; \<open>store\<close> is \<^verbatim>\<open>m[k] = v\<close>.\<close>

fun om_emplace :: "'k::linorder \<Rightarrow> 'v \<Rightarrow> ('k, 'v) omap \<Rightarrow> ('k, 'v) omap" where
  "om_emplace k v [] = [(k, v)]"
| "om_emplace k v ((a, b) # m) =
     (if k < a then (k, v) # (a, b) # m
      else if k = a then (a, b) # m
      else (a, b) # om_emplace k v m)"

fun om_store :: "'k::linorder \<Rightarrow> 'v \<Rightarrow> ('k, 'v) omap \<Rightarrow> ('k, 'v) omap" where
  "om_store k v [] = [(k, v)]"
| "om_store k v ((a, b) # m) =
     (if k < a then (k, v) # (a, b) # m
      else if k = a then (k, v) # m
      else (a, b) # om_store k v m)"

fun om_erase :: "'k \<Rightarrow> ('k, 'v) omap \<Rightarrow> ('k, 'v) omap" where
  "om_erase k [] = []"
| "om_erase k ((a, b) # m) = (if k = a then m else (a, b) # om_erase k m)"

fun om_find :: "('k, 'v) omap \<Rightarrow> 'k \<Rightarrow> 'v option" where
  "om_find [] k = None"
| "om_find ((a, b) # m) k = (if k = a then Some b else om_find m k)"

definition om_wf :: "('k::linorder, 'v) omap \<Rightarrow> bool" where
  "om_wf m \<longleftrightarrow> sorted_wrt (<) (map fst m)"

section \<open>The contract of the container\<close>

locale std_map =
  fixes empty :: 'm
    and emplace :: "'k::linorder \<Rightarrow> 'v \<Rightarrow> 'm \<Rightarrow> 'm"
    and store :: "'k \<Rightarrow> 'v \<Rightarrow> 'm \<Rightarrow> 'm"
    and erase :: "'k \<Rightarrow> 'm \<Rightarrow> 'm"
    and find :: "'m \<Rightarrow> 'k \<Rightarrow> 'v option"
    and keys :: "'m \<Rightarrow> 'k list"
    and wf :: "'m \<Rightarrow> bool"
  assumes find_empty: "find empty = Map.empty"
    and find_emplace: "wf m \<Longrightarrow> find (emplace k v m) =
      (case find m k of None \<Rightarrow> (find m)(k \<mapsto> v) | Some _ \<Rightarrow> find m)"
    and find_store: "wf m \<Longrightarrow> find (store k v m) = (find m)(k \<mapsto> v)"
    and find_erase: "wf m \<Longrightarrow> find (erase k m) = (find m)(k := None)"
    and keys_sorted: "wf m \<Longrightarrow> sorted_wrt (<) (keys m)"
    and keys_dom: "wf m \<Longrightarrow> set (keys m) = dom (find m)"
    and wf_empty: "wf empty"
    and wf_emplace: "wf m \<Longrightarrow> wf (emplace k v m)"
    and wf_store: "wf m \<Longrightarrow> wf (store k v m)"
    and wf_erase: "wf m \<Longrightarrow> wf (erase k m)"
begin

lemma emplace_fresh: "wf m \<Longrightarrow> find m k = None \<Longrightarrow> find (emplace k v m) k = Some v"
  by (simp add: find_emplace)

lemma emplace_present: "wf m \<Longrightarrow> find m k = Some w \<Longrightarrow> find (emplace k v m) = find m"
  by (simp add: find_emplace)

lemma erase_emplace_other:
  "wf m \<Longrightarrow> k \<noteq> j \<Longrightarrow> find (erase k (emplace j v m)) = find (emplace j v (erase k m))"
  by (auto simp: find_erase find_emplace wf_emplace wf_erase split: option.splits)

lemma erase_emplace_same: "wf m \<Longrightarrow> find m k = None \<Longrightarrow> find (erase k (emplace k v m)) = find m"
  by (auto simp: find_erase find_emplace wf_emplace)

lemma find_finite: "wf m \<Longrightarrow> finite (dom (find m))"
  by (simp flip: keys_dom)

lemma keys_distinct: "wf m \<Longrightarrow> distinct (keys m)"
  using keys_sorted [of m] by (simp add: strict_sorted_iff)

text \<open>\<^verbatim>\<open>begin()\<close> is the entry with the least key.\<close>

lemma keys_hd_least:
  assumes "wf m" and "find m k = Some v"
  shows "hd (keys m) \<le> k"
proof -
  from assms have "k \<in> set (keys m)" by (auto simp: keys_dom)
  with keys_sorted [OF assms(1)] show ?thesis
    by (cases "keys m") auto
qed

end

section \<open>The sorted list meets the contract\<close>

lemma om_wf_Nil [simp]: "om_wf []"
  by (simp add: om_wf_def)

lemma om_wf_Cons: "om_wf ((a, b) # m) \<longleftrightarrow> (\<forall>x\<in>fst ` set m. a < x) \<and> om_wf m"
  by (auto simp: om_wf_def)

lemma om_find_map_of: "om_find m = map_of m"
proof
  fix k
  show "om_find m k = map_of m k"
    by (induction m k rule: om_find.induct) auto
qed

lemma om_find_dom: "dom (om_find m) = fst ` set m"
  by (simp add: om_find_map_of dom_map_of_conv_image_fst)

lemma om_find_None_iff: "om_find m k = None \<longleftrightarrow> k \<notin> fst ` set m"
  by (simp add: om_find_map_of map_of_eq_None_iff)

lemma om_find_in_set: "om_find m k = Some v \<Longrightarrow> (k, v) \<in> set m"
  by (simp add: om_find_map_of map_of_SomeD)

lemma om_find_key: "om_find m k = Some v \<Longrightarrow> k \<in> fst ` set m"
  by (metis om_find_None_iff option.distinct(1))

lemma om_wf_distinct: "om_wf m \<Longrightarrow> distinct (map fst m)"
  by (simp add: om_wf_def strict_sorted_iff)

lemma om_find_iff: "om_wf m \<Longrightarrow> om_find m k = Some v \<longleftrightarrow> (k, v) \<in> set m"
  by (simp add: om_find_map_of om_wf_distinct)

lemma set_keys_emplace: "fst ` set (om_emplace k v m) = insert k (fst ` set m)"
  by (induction k v m rule: om_emplace.induct) auto

lemma set_keys_store: "fst ` set (om_store k v m) = insert k (fst ` set m)"
  by (induction k v m rule: om_store.induct) auto

lemma om_erase_filter: "om_wf m \<Longrightarrow> om_erase k m = filter (\<lambda>e. fst e \<noteq> k) m"
proof (induction k m rule: om_erase.induct)
  case (2 k a b m)
  then have "k = a \<Longrightarrow> filter (\<lambda>e. fst e \<noteq> a) m = m"
    by (auto simp: om_wf_Cons intro!: filter_True)
  with 2 show ?case by (auto simp: om_wf_Cons)
qed simp

lemma set_erase: "om_wf m \<Longrightarrow> set (om_erase k m) = {e \<in> set m. fst e \<noteq> k}"
  by (simp add: om_erase_filter)

lemma om_wf_emplace: "om_wf m \<Longrightarrow> om_wf (om_emplace k v m)"
  by (induction k v m rule: om_emplace.induct) (fastforce simp: om_wf_Cons set_keys_emplace)+

lemma om_wf_store: "om_wf m \<Longrightarrow> om_wf (om_store k v m)"
  by (induction k v m rule: om_store.induct) (fastforce simp: om_wf_Cons set_keys_store)+

lemma om_wf_filter: "om_wf m \<Longrightarrow> om_wf (filter P m)"
  by (induction m) (auto simp: om_wf_def)

lemma om_wf_take: "om_wf m \<Longrightarrow> om_wf (take n m)"
  by (simp add: om_wf_def take_map [symmetric] sorted_wrt_take)

lemma om_wf_erase: "om_wf m \<Longrightarrow> om_wf (om_erase k m)"
  by (simp add: om_erase_filter om_wf_filter)

lemma om_find_store: "om_find (om_store k v m) = (om_find m)(k \<mapsto> v)"
  by (rule ext) (induction k v m rule: om_store.induct, auto)

lemma om_find_erase: "om_wf m \<Longrightarrow> om_find (om_erase k m) = (om_find m)(k := None)"
proof (induction k m rule: om_erase.induct)
  case (2 k a b m)
  then show ?case
    by (auto simp: om_wf_Cons fun_eq_iff om_find_None_iff)
qed auto

lemma om_find_emplace:
  "om_wf m \<Longrightarrow> om_find (om_emplace k v m) =
     (case om_find m k of None \<Rightarrow> (om_find m)(k \<mapsto> v) | Some _ \<Rightarrow> om_find m)"
proof (induction k v m rule: om_emplace.induct)
  case (2 k v a b m)
  then have "k < a \<Longrightarrow> om_find m k = None"
    by (auto simp: om_wf_Cons om_find_None_iff)
  with 2 show ?case
    by (auto simp: om_wf_Cons fun_eq_iff split: option.splits)
qed auto

interpretation om: std_map "[]" om_emplace om_store om_erase om_find "map fst" om_wf
  by unfold_locales
    (simp_all add: om_find_emplace om_find_store om_find_erase om_wf_emplace om_wf_store
      om_wf_erase om_find_dom om_wf_def [symmetric] fun_eq_iff)

section \<open>Order of the entries\<close>

lemma om_emplace_filter:
  assumes "om_wf m" and "om_find m k = None"
  shows "filter P (om_emplace k v m) =
    (if P (k, v) then om_emplace k v (filter P m) else filter P m)"
  using assms
proof (induction k v m rule: om_emplace.induct)
  case (2 k v a b m)
  have "om_emplace k v (filter P m) = (k, v) # filter P m"
    if "k < a"
  proof (cases "filter P m")
    case (Cons e es)
    then have "e \<in> set (filter P m)" by simp
    then have "e \<in> set m" by simp
    with 2 that have "k < fst e" by (auto simp: om_wf_Cons)
    with Cons show ?thesis by (cases e) simp
  qed simp
  with 2 show ?case
    by (auto simp: om_wf_Cons split: if_splits)
qed simp

lemma om_emplace_set:
  "om_find m k = None \<Longrightarrow> set (om_emplace k v m) = insert (k, v) (set m)"
  by (induction k v m rule: om_emplace.induct) (auto split: if_splits)

lemma om_emplace_present: "om_wf m \<Longrightarrow> om_find m k \<noteq> None \<Longrightarrow> om_emplace k v m = m"
proof (induction k v m rule: om_emplace.induct)
  case (2 k v a b m)
  have "\<not> k < a" if "k \<noteq> a"
  proof
    assume "k < a"
    from 2 that obtain y where "om_find m k = Some y" by auto
    then have "k \<in> fst ` set m" by (force dest: om_find_in_set)
    with 2 \<open>k < a\<close> show False by (auto simp: om_wf_Cons)
  qed
  with 2 show ?case by (auto simp: om_wf_Cons)
qed simp

lemma om_emplace_last:
  "(\<And>x. x \<in> fst ` set m \<Longrightarrow> x < k) \<Longrightarrow> om_emplace k v m = m @ [(k, v)]"
  by (induction k v m rule: om_emplace.induct) (auto dest: order.strict_implies_not_eq order.asym)

lemma om_store_set:
  assumes "om_wf m"
  shows "set (om_store k v m) = insert (k, v) {e \<in> set m. fst e \<noteq> k}"
  using assms
  by (induction k v m rule: om_store.induct) (force simp: om_wf_Cons)+

lemma om_hd_least: "om_wf m \<Longrightarrow> (k, v) \<in> set m \<Longrightarrow> fst (hd m) \<le> k"
  by (cases m) (auto simp: om_wf_def)

end
