(* ===== verification/Environment.thy ===== *)
theory Environment
  imports Complex_Main Ordered_Map
begin

text \<open>
  What the program takes from outside the repository.  JSON values and the accessors of
  \<^verbatim>\<open>QJsonObject\<close> and \<^verbatim>\<open>QJsonValue\<close> the code calls are data; everything that is computed by Qt,
  by the C++ library's random numbers, by the operating system or by the database engine's
  input and output is a field of \<open>env\<close>, so every definition that uses it takes it as an argument.
\<close>

section \<open>Fixed-width integers and C strings\<close>

definition int32_max :: int where "int32_max = 2147483647"
definition int32_min :: int where "int32_min = - 2147483648"
definition int64_max :: int where "int64_max = 9223372036854775807"
definition int64_min :: int where "int64_min = - 9223372036854775808"

lemmas int_lims = int32_max_def int32_min_def int64_max_def int64_min_def

text \<open>\<^verbatim>\<open>n++\<close> on an \<^verbatim>\<open>int\<close>: overflow of a signed integer is undefined.\<close>

definition inc32 :: "int \<Rightarrow> fault + int" where
  "inc32 n = (if n = int32_max then Inl (Undefined SignedOverflow) else Inr (n + 1))"

definition fits32 :: "int \<Rightarrow> bool" where
  "fits32 n \<longleftrightarrow> int32_min \<le> n \<and> n \<le> int32_max"

text \<open>\<^verbatim>\<open>c_str()\<close> handed to an interface that reads up to the first NUL.\<close>

definition c_str :: "string \<Rightarrow> string" where
  "c_str s = takeWhile (\<lambda>c. c \<noteq> CHR 0x00) s"

lemma c_str_id: "CHR 0x00 \<notin> set s \<Longrightarrow> c_str s = s"
  unfolding c_str_def by (simp add: takeWhile_eq_all_conv) blast

lemma c_str_c_str [simp]: "c_str (c_str s) = c_str s"
  by (simp add: c_str_def)

section \<open>Integers as text\<close>

text \<open>\<^verbatim>\<open>stream << n\<close>, and the text the database engine gives for an integer column.\<close>

fun show_nat :: "nat \<Rightarrow> string" where
  "show_nat n =
     (if n < 10 then [char_of (48 + n)] else show_nat (n div 10) @ [char_of (48 + n mod 10)])"

declare show_nat.simps [simp del]

definition show_int :: "int \<Rightarrow> string" where
  "show_int n = (if n < 0 then CHR ''-'' # show_nat (nat (- n)) else show_nat (nat n))"

text \<open>\<^verbatim>\<open>stream >> n\<close>: leading space is skipped, a sign and the longest run of digits are read;
  with no digit the result is 0, out of range it is the nearest limit.\<close>

definition is_digit :: "char \<Rightarrow> bool" where
  "is_digit c \<longleftrightarrow> 48 \<le> (of_char c :: nat) \<and> (of_char c :: nat) \<le> 57"

definition is_space :: "char \<Rightarrow> bool" where
  "is_space c \<longleftrightarrow> (of_char c :: nat) = 32 \<or> 9 \<le> (of_char c :: nat) \<and> (of_char c :: nat) \<le> 13"

definition digits_val :: "string \<Rightarrow> nat" where
  "digits_val = foldl (\<lambda>a c. a * 10 + (of_char c - 48)) 0"

definition istream_int :: "int \<Rightarrow> int \<Rightarrow> string \<Rightarrow> int" where
  "istream_int lo hi s =
     (let t = dropWhile is_space s;
          neg = (t \<noteq> [] \<and> hd t = CHR ''-'');
          u = (if t \<noteq> [] \<and> (hd t = CHR ''-'' \<or> hd t = CHR ''+'') then tl t else t);
          ds = takeWhile is_digit u;
          v = (if neg then - int (digits_val ds) else int (digits_val ds))
      in if ds = [] then 0 else max lo (min hi v))"

lemma of_char_digit: "d < 10 \<Longrightarrow> (of_char (char_of (48 + d) :: char) :: nat) = 48 + d"
  by simp

lemma show_nat_digits: "\<forall>c\<in>set (show_nat n). is_digit c"
proof (induction n rule: show_nat.induct)
  case (1 n)
  then show ?case
    by (subst show_nat.simps) (auto simp: is_digit_def)
qed

lemma show_nat_not_Nil: "show_nat n \<noteq> []"
  by (subst show_nat.simps) simp

lemma digits_val_show_nat: "digits_val (show_nat n) = n"
proof (induction n rule: show_nat.induct)
  case (1 n)
  show ?case
  proof (cases "n < 10")
    case True
    then show ?thesis by (subst show_nat.simps) (simp add: digits_val_def)
  next
    case False
    with 1 have "digits_val (show_nat (n div 10)) = n div 10" by simp
    with False show ?thesis
      by (subst show_nat.simps) (simp add: digits_val_def)
  qed
qed

lemma istream_show_int:
  assumes "lo \<le> n" and "n \<le> hi"
  shows "istream_int lo hi (show_int n) = n"
proof -
  have hd: "is_digit (hd (show_nat m))" for m
    using show_nat_digits [of m] show_nat_not_Nil [of m] hd_in_set by blast
  have sp: "\<not> is_space c" "c \<noteq> CHR ''-''" "c \<noteq> CHR ''+''" if "is_digit c" for c
    using that by (auto simp: is_digit_def is_space_def)
  have drop: "dropWhile is_space (show_nat m) = show_nat m" for m
    using hd [of m] sp(1) by (cases "show_nat m") auto
  have take: "takeWhile is_digit (show_nat m) = show_nat m" for m
    using show_nat_digits by (simp add: takeWhile_eq_all_conv)
  show ?thesis
  proof (cases "n < 0")
    case True
    then show ?thesis
      using assms
      by (simp add: istream_int_def show_int_def is_space_def take show_nat_not_Nil digits_val_show_nat Let_def)
  next
    case False
    then show ?thesis
      using assms sp(2,3) [OF hd [of "nat n"]]
      by (simp add: istream_int_def show_int_def drop take show_nat_not_Nil digits_val_show_nat Let_def)
  qed
qed

lemma show_int_no_nul: "CHR 0x00 \<notin> set (show_int n)"
  using show_nat_digits [of "nat n"] show_nat_digits [of "nat (- n)"]
  by (auto simp: show_int_def is_digit_def)

section \<open>JSON\<close>

text \<open>A \<^verbatim>\<open>QJsonObject\<close> keeps its members sorted by key; a number is a double.\<close>

datatype json =
    JNull
  | JBool bool
  | JDouble rat
  | JString string
  | JArray "json list"
  | JObject "(string \<times> json) list"

type_synonym jobject = "(string, json) omap"

text \<open>\<^verbatim>\<open>doc.object()\<close>: the empty object for a document that is not one.\<close>

fun doc_object :: "json \<Rightarrow> jobject" where
  "doc_object (JObject m) = m"
| "doc_object _ = []"

text \<open>\<^verbatim>\<open>value(k).toString()\<close> and \<^verbatim>\<open>value(k).toObject()\<close>: the default of the type when the member is missing or of
  another type.\<close>

definition j_string :: "jobject \<Rightarrow> string \<Rightarrow> string" where
  "j_string m k = (case om_find m k of Some (JString s) \<Rightarrow> s | _ \<Rightarrow> [])"

definition j_object :: "jobject \<Rightarrow> string \<Rightarrow> jobject" where
  "j_object m k = (case om_find m k of Some (JObject ob) \<Rightarrow> ob | _ \<Rightarrow> [])"

definition j_contains :: "jobject \<Rightarrow> string \<Rightarrow> bool" where
  "j_contains m k \<longleftrightarrow> om_find m k \<noteq> None"

text \<open>\<^verbatim>\<open>QJsonValue(qint64)\<close>: the nearest double, exact up to \<open>2 ^ 53\<close>.\<close>

fun bit_len :: "nat \<Rightarrow> nat" where
  "bit_len n = (if n = 0 then 0 else Suc (bit_len (n div 2)))"

declare bit_len.simps [simp del]

definition double_of_int :: "int \<Rightarrow> int" where
  "double_of_int n =
     (if \<bar>n\<bar> \<le> 2 ^ 53 then n
      else (let k = bit_len (nat \<bar>n\<bar>) - 53; q = \<bar>n\<bar> div 2 ^ k; r = \<bar>n\<bar> mod 2 ^ k; h = 2 ^ (k - 1);
                q' = (if r > h \<or> (r = h \<and> odd q) then q + 1 else q)
            in sgn n * (q' * 2 ^ k)))"

definition j_of_int64 :: "int \<Rightarrow> json" where
  "j_of_int64 n = JDouble (of_int (double_of_int n))"

section \<open>The outside world\<close>

text \<open>
  Fields: Qt's JSON text and binary codecs (\<^verbatim>\<open>toJson\<close> compact and indented, \<^verbatim>\<open>fromJson\<close> with the
  null document for unparsable text, \<^verbatim>\<open>toBinaryData\<close>, \<^verbatim>\<open>fromBinaryData\<close>) and its base-64 text; Qt's
  \<^verbatim>\<open>QDataStream\<close> framing of a byte array, with \<open>None\<close> for an incomplete frame; the \<^verbatim>\<open>int\<close> that \<^verbatim>\<open>toInt\<close>
  makes of a whole double no \<^verbatim>\<open>int\<close> equals, which is not documented; the draw of
  \<^verbatim>\<open>std::uniform_int_distribution\<close> from an engine state; the seed \<^verbatim>\<open>std::random_device\<close> gives to
  the object at an address; whether the \<open>n\<close>-th \<^verbatim>\<open>sqlite3_step\<close> fails for a reason outside the
  table's contents (disk, lock), how many rows a query gives before it fails, the rows a statement text gives that is none of the
  program's own statements, the text of \<^verbatim>\<open>datetime('now')\<close> at that step; and whether the
  \<open>n\<close>-th socket write fails.
\<close>

record env =
  qt_toJson :: "json \<Rightarrow> string"
  qt_toJsonIndented :: "json \<Rightarrow> string"
  qt_fromJson :: "string \<Rightarrow> json"
  qt_toBase64 :: "string \<Rightarrow> string"
  qt_toBinaryData :: "json \<Rightarrow> string"
  qt_fromBinaryData :: "string \<Rightarrow> json"
  qt_frame :: "string \<Rightarrow> string"
  qt_bigToInt :: "int \<Rightarrow> 32 word"
  qt_unframe :: "string \<Rightarrow> (string \<times> string) option"
  std_draw :: "int \<Rightarrow> int \<Rightarrow> nat \<Rightarrow> int \<times> nat"
  std_seed :: "nat \<Rightarrow> nat"
  sq_fails :: "nat \<Rightarrow> bool"
  sq_rowsBefore :: "nat \<Rightarrow> nat"
  sq_now :: "nat \<Rightarrow> string"
  sq_otherRows :: "string \<Rightarrow> string option list list"
  qt_writeFails :: "nat \<Rightarrow> bool"

text \<open>\<^verbatim>\<open>value(k).toInt()\<close>: 0 when the member is missing, of another type or no whole number.\<close>

definition j_int :: "env \<Rightarrow> jobject \<Rightarrow> string \<Rightarrow> int" where
  "j_int E m k =
     (case om_find m k of
        Some (JDouble r) \<Rightarrow>
          (if of_int \<lfloor>r\<rfloor> = r then (if fits32 \<lfloor>r\<rfloor> then \<lfloor>r\<rfloor> else sint (qt_bigToInt E \<lfloor>r\<rfloor>)) else 0)
      | _ \<Rightarrow> 0)"

text \<open>The documented behaviour of these parts that the properties name as hypotheses.\<close>

definition draws_in_range :: "env \<Rightarrow> bool" where
  "draws_in_range E \<longleftrightarrow>
     (\<forall>lo hi e. lo \<le> hi \<longrightarrow> lo \<le> fst (std_draw E lo hi e) \<and> fst (std_draw E lo hi e) \<le> hi)"

text \<open>The codecs give the document \<open>j\<close> back, and its text has no NUL.\<close>

definition json_text_ok :: "env \<Rightarrow> json \<Rightarrow> bool" where
  "json_text_ok E j \<longleftrightarrow> qt_fromJson E (qt_toJson E j) = j \<and> CHR 0x00 \<notin> set (qt_toJson E j)"

definition json_binary_ok :: "env \<Rightarrow> json \<Rightarrow> bool" where
  "json_binary_ok E j \<longleftrightarrow> qt_fromBinaryData E (qt_toBinaryData E j) = j"

text \<open>Reading a frame gives its bytes and leaves what follows it.\<close>

definition frames_ok :: "env \<Rightarrow> bool" where
  "frames_ok E \<longleftrightarrow> (\<forall>b rest. qt_unframe E (qt_frame E b @ rest) = Some (b, rest))"

text \<open>A concrete outside world for the witnesses: the smallest draws, no failures, a unary length
  before each frame, and one document \<open>j\<close> that the codecs know.\<close>

definition unary_unframe :: "string \<Rightarrow> (string \<times> string) option" where
  "unary_unframe s =
     (let n = length (takeWhile (\<lambda>c. c = CHR ''1'') s); r = drop (Suc n) s
      in if length s \<le> n \<or> length r < n then None else Some (take n r, drop n r))"

definition env0 :: "json \<Rightarrow> env" where
  "env0 j =
     \<lparr> qt_toJson = (\<lambda>_. ''{}''), qt_toJsonIndented = (\<lambda>_. ''{}''), qt_fromJson = (\<lambda>_. j),
       qt_toBase64 = id, qt_toBinaryData = (\<lambda>_. ''{}''),
       qt_fromBinaryData = (\<lambda>_. j),
       qt_frame = (\<lambda>b. replicate (length b) (CHR ''1'') @ ''0'' @ b), qt_bigToInt = (\<lambda>_. 0), qt_unframe = unary_unframe,
       std_draw = (\<lambda>lo hi e. (lo, Suc e)), std_seed = (\<lambda>p. p),
       sq_fails = (\<lambda>_. False), sq_rowsBefore = (\<lambda>_. 0), sq_now = (\<lambda>_. ''now''),
       sq_otherRows = (\<lambda>_. []), qt_writeFails = (\<lambda>_. False) \<rparr>"

lemma env0_draws: "draws_in_range (env0 j)"
  by (simp add: draws_in_range_def env0_def)

lemma env0_text: "json_text_ok (env0 j) j"
  by (simp add: json_text_ok_def env0_def)

lemma env0_binary: "json_binary_ok (env0 j) j"
  by (simp add: json_binary_ok_def env0_def)

lemma env0_frames: "frames_ok (env0 j)"
proof -
  have "takeWhile (\<lambda>c. c = CHR ''1'') (replicate n (CHR ''1'') @ CHR ''0'' # r) = replicate n (CHR ''1'')"
    for n r by (induction n) auto
  then show ?thesis
    by (simp add: frames_ok_def env0_def unary_unframe_def Let_def)
qed

section \<open>Facts about JSON\<close>

lemma j_string_store [simp]:
  "j_string (om_store k (JString v) m) k = v"
  "k \<noteq> k' \<Longrightarrow> j_string (om_store k w m) k' = j_string m k'"
  by (simp_all add: j_string_def om_find_store)

lemma j_object_store [simp]:
  "j_object (om_store k (JObject v) m) k = v"
  "k \<noteq> k' \<Longrightarrow> j_object (om_store k w m) k' = j_object m k'"
  by (simp_all add: j_object_def om_find_store)

lemma double_of_int_exact: "\<bar>n\<bar> \<le> 2 ^ 53 \<Longrightarrow> double_of_int n = n"
  by (simp add: double_of_int_def)

text \<open>A greater integer becomes a double that is still too large for an \<^verbatim>\<open>int\<close>.\<close>

lemma bit_len_bound: "0 < n \<Longrightarrow> 2 ^ bit_len n \<le> 2 * n"
proof (induction n rule: bit_len.induct)
  case (1 n)
  show ?case
  proof (cases "n div 2 = 0")
    case True
    with 1(2) show ?thesis by (simp add: bit_len.simps [of n] bit_len.simps [of 0])
  next
    case False
    with 1 have "2 ^ bit_len (n div 2) \<le> 2 * (n div 2)" by simp
    with 1(2) show ?thesis by (simp add: bit_len.simps [of n])
  qed
qed

lemma double_of_int_large:
  assumes "2 ^ 53 < n"
  shows "2 ^ 52 \<le> double_of_int n"
proof -
  define k where "k = bit_len (nat n) - 53"
  define q where "q = n div 2 ^ k"
  have "(2::nat) ^ (52 + k) \<le> nat n \<or> k = 0"
  proof (cases "k = 0")
    case False
    then have "bit_len (nat n) = 53 + k" by (simp add: k_def)
    then show ?thesis using bit_len_bound [of "nat n"] assms by (simp add: power_add)
  qed simp
  then have "2 ^ 52 * 2 ^ k \<le> n" using assms by (auto simp: power_add le_nat_iff)
  then have "2 ^ 52 \<le> q" unfolding q_def using zdiv_mono1 [of "2 ^ 52 * 2 ^ k" n "2 ^ k"] by simp
  moreover have "q' \<le> q' * 2 ^ k" if "2 ^ 52 \<le> q'" for q' :: int
    using that mult_left_mono [of 1 "2 ^ k" q'] by simp
  moreover have "double_of_int n = (if n mod 2 ^ k > 2 ^ (k - 1) \<or> (n mod 2 ^ k = 2 ^ (k - 1) \<and> odd q) then q + 1 else q) * 2 ^ k"
    using assms by (simp add: double_of_int_def Let_def k_def q_def)
  ultimately show ?thesis by (smt (verit))
qed

end
