(* ===== verification/Backoff.thy ===== *)
theory Backoff
  imports Environment
begin

text \<open>
  \<^verbatim>\<open>src/exponentialbackoff.h\<close> and \<^verbatim>\<open>src/exponentialbackoff.cpp\<close>: the retry delays.  The state
  of the \<^verbatim>\<open>mt19937\<close> engine is a number that only \<^verbatim>\<open>std_draw\<close> reads.
\<close>

section \<open>The class ExponentialBackoff\<close>

definition NO_MAX_RETRY :: int where "NO_MAX_RETRY = - 1"

record backoff =
  bo_engine :: nat
  bo_distribution :: "int \<times> int"
  bo_retry :: int
  bo_seedVal :: int
  bo_maxRetry :: int

text \<open>The constructor; \<open>seed\<close> is what \<^verbatim>\<open>std::random_device\<close> returns.\<close>

definition ExponentialBackoff :: "nat \<Rightarrow> int \<Rightarrow> backoff" where
  "ExponentialBackoff seed max_retry =
     \<lparr> bo_engine = seed, bo_distribution = (100, 1000), bo_retry = 0, bo_seedVal = 2,
       bo_maxRetry = max_retry \<rparr>"

text \<open>The assignment operator, with its self-assignment test; the copy constructor assigns the
  same fields.\<close>

definition backoff_assign :: "backoff \<Rightarrow> backoff \<Rightarrow> backoff" where
  "backoff_assign this rhs =
     this \<lparr> bo_engine := bo_engine rhs, bo_distribution := bo_distribution rhs,
            bo_retry := bo_retry rhs, bo_seedVal := bo_seedVal rhs,
            bo_maxRetry := bo_maxRetry rhs \<rparr>"

definition backoff_copy :: "backoff \<Rightarrow> backoff" where
  "backoff_copy rhs =
     \<lparr> bo_engine = bo_engine rhs, bo_distribution = bo_distribution rhs,
       bo_retry = bo_retry rhs, bo_seedVal = bo_seedVal rhs, bo_maxRetry = bo_maxRetry rhs \<rparr>"

definition backoff_reset :: "backoff \<Rightarrow> backoff" where
  "backoff_reset b = b \<lparr> bo_retry := 1, bo_seedVal := 2 \<rparr>"

text \<open>
  \<^verbatim>\<open>int r = 0.5 * (pow(2, __seedVal) - 1)\<close>: the double is exact wherever the truncated value fits
  an \<^verbatim>\<open>int\<close>; where it does not fit, the conversion is undefined.  A negative exponent gives
  a value between \<open>-1/2\<close> and 0, truncated to 0.
\<close>

definition half_power :: "int \<Rightarrow> int" where
  "half_power sv = (2 ^ nat sv - 1) div 2"

text \<open>\<^verbatim>\<open>ExponentialBackoff::next\<close>.\<close>

definition backoff_next :: "env \<Rightarrow> (backoff, int) M" where
  "backoff_next E b0 =
     (case inc32 (bo_retry b0) of
        Inl f \<Rightarrow> (Inl f, b0)
      | Inr n \<Rightarrow>
          (let b1 = b0 \<lparr> bo_retry := n \<rparr>;
               b2 = (if bo_maxRetry b1 \<noteq> NO_MAX_RETRY \<and> bo_retry b1 > bo_maxRetry b1
                     then b1 \<lparr> bo_retry := 0, bo_seedVal := 2 \<rparr> else b1);
               (random_delta, eng) =
                 std_draw E (fst (bo_distribution b2)) (snd (bo_distribution b2)) (bo_engine b2);
               b3 = b2 \<lparr> bo_engine := eng \<rparr>;
               r = half_power (bo_seedVal b3)
           in if r > int32_max then (Inl (Undefined DoubleToInt), b3)
              else if \<not> fits32 (r * 1000) \<or> \<not> fits32 (r * 1000 + random_delta)
                   then (Inl (Undefined SignedOverflow), b3)
              else (case inc32 (bo_seedVal b3) of
                      Inl f \<Rightarrow> (Inl f, b3)
                    | Inr sv \<Rightarrow> (Inr (r * 1000 + random_delta), b3 \<lparr> bo_seedVal := sv \<rparr>))))"

text \<open>A series of calls on one object: the results in order; a failed call ends the series.\<close>

primrec backoff_series :: "env \<Rightarrow> nat \<Rightarrow> backoff \<Rightarrow> (fault + int) list" where
  "backoff_series E 0 b = []"
| "backoff_series E (Suc n) b =
     (case backoff_next E b of
        (Inl f, b') \<Rightarrow> [Inl f]
      | (Inr d, b') \<Rightarrow> Inr d # backoff_series E n b')"

section \<open>One call\<close>

lemma half_power_Suc: "half_power (int (Suc n)) = 2 ^ n - 1"
proof -
  have "half_power (int (Suc n)) = (2 * 2 ^ n - 1) div (2::int)"
    by (simp only: half_power_def nat_int power_Suc)
  also have "\<dots> = 2 ^ n - 1" by presburger
  finally show ?thesis .
qed

text \<open>The delay a call returns when the exponent is \<open>Suc n\<close>: a power of two of seconds and
  the random part.\<close>

lemma backoff_next_ok:
  assumes "draws_in_range E" and "bo_distribution b = (100, 1000)"
    and "bo_seedVal b = int (Suc n)" and "n \<le> 21"
    and "int32_min \<le> bo_retry b" "bo_retry b < int32_max"
    and "bo_maxRetry b = NO_MAX_RETRY \<or> bo_retry b < bo_maxRetry b"
  shows "\<exists>d e. backoff_next E b =
      (Inr ((2 ^ n - 1) * 1000 + d), b \<lparr> bo_retry := bo_retry b + 1, bo_engine := e, bo_seedVal := int (Suc (Suc n)) \<rparr>)
      \<and> 100 \<le> d \<and> d \<le> 1000"
proof -
  obtain d e where de: "std_draw E 100 1000 (bo_engine b) = (d, e)" by fastforce
  have "100 \<le> fst (std_draw E 100 1000 (bo_engine b)) \<and> fst (std_draw E 100 1000 (bo_engine b)) \<le> 1000"
    using assms(1) by (simp add: draws_in_range_def)
  with de have d: "100 \<le> d" "d \<le> 1000" by simp_all
  have "(2::int) ^ n \<le> 2 ^ 21" using assms(4) by (intro power_increasing) auto
  moreover have "(1::int) \<le> 2 ^ n" by simp
  ultimately have n: "0 \<le> (2::int) ^ n - 1" "(2::int) ^ n - 1 \<le> 2097151" by simp_all
  show ?thesis
    using assms d n de half_power_Suc [of n]
    by (auto simp: backoff_next_def inc32_def Let_def fits32_def int_lims)
qed

lemma backoff_next_ge:
  assumes "draws_in_range E" and "bo_distribution b = (100, 1000)" and "backoff_next E b = (Inr t, b')"
  shows "100 \<le> t"
proof -
  obtain d e where de: "std_draw E 100 1000 (bo_engine b) = (d, e)" by fastforce
  have "100 \<le> fst (std_draw E 100 1000 (bo_engine b))"
    using assms(1) by (simp add: draws_in_range_def)
  with de have "100 \<le> d" by simp
  moreover have "0 \<le> half_power n" for n by (simp add: half_power_def)
  ultimately have "100 \<le> half_power n * 1000 + d" for n by (simp add: add_increasing)
  with assms(2,3) de show ?thesis
    by (auto simp: backoff_next_def Let_def inc32_def split: if_splits)
qed

text \<open>The call that passes the cap starts again from the smallest delay.\<close>

lemma backoff_next_wrap:
  assumes "draws_in_range E" and "bo_distribution b = (100, 1000)"
    and "bo_retry b = bo_maxRetry b" and "0 \<le> bo_maxRetry b" "bo_maxRetry b < int32_max"
  shows "\<exists>d e. backoff_next E b =
      (Inr (1000 + d), b \<lparr> bo_retry := 0, bo_engine := e, bo_seedVal := 3 \<rparr>)
      \<and> 100 \<le> d \<and> d \<le> 1000"
proof -
  obtain d e where de: "std_draw E 100 1000 (bo_engine b) = (d, e)" by fastforce
  have "100 \<le> fst (std_draw E 100 1000 (bo_engine b)) \<and> fst (std_draw E 100 1000 (bo_engine b)) \<le> 1000"
    using assms(1) by (simp add: draws_in_range_def)
  with de have d: "100 \<le> d" "d \<le> 1000" by simp_all
  with assms de show ?thesis
    by (auto simp: backoff_next_def inc32_def Let_def fits32_def int_lims half_power_def NO_MAX_RETRY_def)
qed

section \<open>Series of calls\<close>

lemma delay_gap:
  "x + 2 \<le> y \<Longrightarrow> d \<le> (x - 1) * 1000 + 1000 \<Longrightarrow> (y - 1) * 1000 + 100 \<le> e \<Longrightarrow> d < e" for x y d e :: int
  by simp

lemma delay_bounds:
  "2 \<le> x \<Longrightarrow> 100 \<le> d \<Longrightarrow> d \<le> 1000 \<Longrightarrow> (x - 1) * 1000 + 1000 \<le> h \<Longrightarrow>
   1100 \<le> (x - 1) * 1000 + d \<and> (x - 1) * 1000 + d \<le> h" for x d h :: int
  by simp

lemma backoff_series_uncapped:
  assumes "draws_in_range E" and "bo_distribution b = (100, 1000)" and "bo_maxRetry b = NO_MAX_RETRY"
    and "bo_seedVal b = int (Suc m)" and "m + n \<le> 22"
    and "0 \<le> bo_retry b" and "bo_retry b \<le> int m"
  shows "\<exists>ds. backoff_series E n b = map Inr ds \<and> length ds = n \<and>
     (\<forall>i<n. (2 ^ (m + i) - 1) * 1000 + 100 \<le> ds ! i \<and> ds ! i \<le> (2 ^ (m + i) - 1) * 1000 + 1000)"
  using assms
proof (induction n arbitrary: b m)
  case (Suc n)
  obtain d e where step: "backoff_next E b = (Inr ((2 ^ m - 1) * 1000 + d),
      b \<lparr> bo_retry := bo_retry b + 1, bo_engine := e, bo_seedVal := int (Suc (Suc m)) \<rparr>)"
    and d: "100 \<le> d" "d \<le> 1000"
    using backoff_next_ok [of E b m] Suc.prems by (auto simp: int_lims)
  let ?b = "b \<lparr> bo_retry := bo_retry b + 1, bo_engine := e, bo_seedVal := int (Suc (Suc m)) \<rparr>"
  obtain ds where ds: "backoff_series E n ?b = map Inr ds" "length ds = n"
    "\<forall>i<n. (2 ^ (Suc m + i) - 1) * 1000 + 100 \<le> ds ! i \<and> ds ! i \<le> (2 ^ (Suc m + i) - 1) * 1000 + 1000"
    using Suc.IH [of ?b "Suc m"] Suc.prems by auto
  let ?ds = "((2 ^ m - 1) * 1000 + d) # ds"
  have "\<forall>i<Suc n. (2 ^ (m + i) - 1) * 1000 + 100 \<le> ?ds ! i \<and> ?ds ! i \<le> (2 ^ (m + i) - 1) * 1000 + 1000"
    using ds(3) d by (auto simp: less_Suc_eq_0_disj)
  with ds(1,2) step show ?case
    by (intro exI [of _ ?ds]) (simp add: ds(1))
qed simp

lemma backoff_series_append:
  assumes "backoff_series E n b = map Inr ds" and "length ds = n"
  shows "\<exists>b'. backoff_series E (n + k) b = map Inr ds @ backoff_series E k b' \<and>
    bo_distribution b' = bo_distribution b \<and> bo_maxRetry b' = bo_maxRetry b \<and>
    (bo_maxRetry b = NO_MAX_RETRY \<longrightarrow>
       bo_seedVal b' = bo_seedVal b + int n \<and> bo_retry b' = bo_retry b + int n)"
  using assms
proof (induction n arbitrary: b ds)
  case (Suc n)
  obtain r b1 where step: "backoff_next E b = (r, b1)" by fastforce
  with Suc.prems obtain d where r: "r = Inr d" by (cases r) (cases ds; auto)+
  with Suc.prems step obtain ds1 where ds1: "ds = d # ds1" "backoff_series E n b1 = map Inr ds1" "length ds1 = n"
    by (cases ds) auto
  have b1: "bo_distribution b1 = bo_distribution b" "bo_maxRetry b1 = bo_maxRetry b"
    "bo_maxRetry b = NO_MAX_RETRY \<Longrightarrow> bo_seedVal b1 = bo_seedVal b + 1 \<and> bo_retry b1 = bo_retry b + 1"
    using step r
    by (auto simp: backoff_next_def inc32_def Let_def split: if_splits prod.splits)
  from Suc.IH [OF ds1(2,3)] b1 ds1 step r show ?case by auto
qed auto

text \<open>The 22nd call on an uncapped backoff overflows the \<^verbatim>\<open>int\<close> it returns.\<close>

theorem uncapped_call_22_overflows:
  assumes "draws_in_range E"
  shows "backoff_series E 22 (ExponentialBackoff seed NO_MAX_RETRY) ! 21 = Inl (Undefined SignedOverflow)"
proof -
  let ?b = "ExponentialBackoff seed NO_MAX_RETRY"
  obtain ds where ds: "backoff_series E 21 ?b = map Inr ds" "length ds = 21"
    using backoff_series_uncapped [of E ?b 1 21] assms by (auto simp: ExponentialBackoff_def)
  from backoff_series_append [OF this, of 1] obtain b' where
    b': "backoff_series E (21 + 1) ?b = map Inr ds @ backoff_series E 1 b'"
      "bo_seedVal b' = 23" "bo_retry b' = 21" "bo_maxRetry b' = NO_MAX_RETRY"
    by (auto simp: ExponentialBackoff_def)
  then have "fst (backoff_next E b') = Inl (Undefined SignedOverflow)"
    by (auto simp: backoff_next_def inc32_def Let_def int_lims fits32_def half_power_def split: prod.splits)
  then have "backoff_series E 1 b' = [Inl (Undefined SignedOverflow)]"
    by (cases "backoff_next E b'") simp
  with b' ds show ?thesis by (simp add: nth_append)
qed

theorem uncapped_call_22_overflows_witness:
  "backoff_series (env0 JNull) 22 (ExponentialBackoff 5 NO_MAX_RETRY) ! 21 = Inl (Undefined SignedOverflow)"
  by (rule uncapped_call_22_overflows [OF env0_draws])

text \<open>C40. The delays of an uncapped backoff grow strictly for 21 calls, the \<open>i\<close>-th being
  between \<open>(2 ^ (i + 1) - 1) * 1000 + 100\<close> and \<open>(2 ^ (i + 1) - 1) * 1000 + 1000\<close> milliseconds; the next call
  overflows the \<^verbatim>\<open>int\<close> it returns.\<close>

theorem uncapped_delays_grow:
  assumes "draws_in_range E" and "n \<le> 21"
  shows "\<exists>ds. backoff_series E n (ExponentialBackoff seed NO_MAX_RETRY) = map Inr ds \<and> length ds = n \<and>
     sorted_wrt (<) ds \<and>
     (\<forall>i<n. (2 ^ (i + 1) - 1) * 1000 + 100 \<le> ds ! i \<and> ds ! i \<le> (2 ^ (i + 1) - 1) * 1000 + 1000) \<and>
     backoff_series E 22 (ExponentialBackoff seed NO_MAX_RETRY) ! 21 = Inl (Undefined SignedOverflow)"
proof -
  obtain ds where ds: "backoff_series E n (ExponentialBackoff seed NO_MAX_RETRY) = map Inr ds" "length ds = n"
    "\<forall>i<n. (2 ^ (1 + i) - 1) * 1000 + 100 \<le> ds ! i \<and> ds ! i \<le> (2 ^ (1 + i) - 1) * 1000 + 1000"
    using backoff_series_uncapped [of E "ExponentialBackoff seed NO_MAX_RETRY" 1 n] assms
    by (auto simp: ExponentialBackoff_def)
  have "ds ! i < ds ! j" if "i < j" "j < n" for i j
  proof -
    have "(2::int) ^ (1 + i) \<le> 2 ^ j" using that by (intro power_increasing) auto
    moreover have "(2::int) \<le> 2 ^ (1 + i)" by simp
    moreover have "(2::int) ^ (1 + j) = 2 * 2 ^ j" by simp
    ultimately have "(2::int) ^ (1 + j) \<ge> 2 ^ (1 + i) + 2" by linarith
    moreover have "ds ! i \<le> (2 ^ (1 + i) - 1) * 1000 + 1000" "(2 ^ (1 + j) - 1) * 1000 + 100 \<le> ds ! j"
      using ds(3) that by auto
    ultimately show ?thesis by (rule delay_gap)
  qed
  with ds uncapped_call_22_overflows [OF assms(1), of seed] show ?thesis
    by (intro exI [of _ ds]) (simp add: sorted_wrt_iff_nth_less add.commute)
qed

theorem uncapped_delays_grow_witness:
  "\<exists>ds. backoff_series (env0 JNull) 3 (ExponentialBackoff 5 NO_MAX_RETRY) = map Inr ds \<and> sorted_wrt (<) ds \<and> length ds = 3"
  using uncapped_delays_grow [OF env0_draws, of 3 JNull 5] by auto

text \<open>With a cap, the exponent stays within two of the retry count.\<close>

definition capped_ok :: "nat \<Rightarrow> backoff \<Rightarrow> bool" where
  "capped_ok k b \<longleftrightarrow> bo_distribution b = (100, 1000) \<and> bo_maxRetry b = int k \<and>
     0 \<le> bo_retry b \<and> bo_retry b \<le> int k \<and> 2 \<le> bo_seedVal b \<and> bo_seedVal b \<le> bo_retry b + 3"

definition capped_max :: "nat \<Rightarrow> int" where
  "capped_max k = (2 ^ (k + 1) - 1) * 1000 + 1000"

lemma capped_max_ge: "m \<le> k + 1 \<Longrightarrow> (2 ^ m - 1) * 1000 + 1000 \<le> capped_max k"
  using power_increasing [of m "k + 1" "2::int"] by (simp add: capped_max_def)

lemma capped_step:
  assumes "draws_in_range E" and "k \<le> 20" and "capped_ok k b"
  shows "\<exists>d b'. backoff_next E b = (Inr d, b') \<and> 1100 \<le> d \<and> d \<le> capped_max k \<and> capped_ok k b'"
proof (cases "bo_retry b = int k")
  case True
  then obtain d e where "backoff_next E b =
      (Inr (1000 + d), b \<lparr> bo_retry := 0, bo_engine := e, bo_seedVal := 3 \<rparr>)" "100 \<le> d" "d \<le> 1000"
    using backoff_next_wrap [of E b] assms by (auto simp: capped_ok_def int_lims)
  moreover have "2000 \<le> capped_max k" using capped_max_ge [of 1 k] by simp
  ultimately show ?thesis using assms by (auto simp: capped_ok_def)
next
  case False
  define m where "m = nat (bo_seedVal b - 1)"
  have m: "bo_seedVal b = int (Suc m)" "1 \<le> m" "m \<le> k + 1"
    using assms(3) False by (auto simp: m_def capped_ok_def)
  then obtain d e where step: "backoff_next E b = (Inr ((2 ^ m - 1) * 1000 + d),
      b \<lparr> bo_retry := bo_retry b + 1, bo_engine := e, bo_seedVal := int (Suc (Suc m)) \<rparr>)"
    "100 \<le> d" "d \<le> 1000"
    using backoff_next_ok [of E b m] assms False by (auto simp: capped_ok_def int_lims)
  have "(2::int) \<le> 2 ^ m" using power_increasing [OF m(2), of "2::int"] by simp
  with step(2,3) capped_max_ge [OF m(3)]
  have "1100 \<le> (2 ^ m - 1) * 1000 + d \<and> (2 ^ m - 1) * 1000 + d \<le> capped_max k"
    by (intro delay_bounds)
  with step(1) m assms False show ?thesis by (auto simp: capped_ok_def)
qed

text \<open>With a cap of at most 20 retries no call ever fails, however many calls are made, and
  every delay is between 1.1 seconds and the delay of the exponent one past the cap.\<close>

theorem capped_delays_bounded:
  assumes "draws_in_range E" and "k \<le> 20"
  shows "\<exists>ds. backoff_series E n (ExponentialBackoff seed (int k)) = map Inr ds \<and> length ds = n \<and>
     (\<forall>d\<in>set ds. 1100 \<le> d \<and> d \<le> (2 ^ (k + 1) - 1) * 1000 + 1000)"
proof -
  have "\<exists>ds. backoff_series E n b = map Inr ds \<and> length ds = n \<and> (\<forall>d\<in>set ds. 1100 \<le> d \<and> d \<le> capped_max k)"
    if "capped_ok k b" for b
    using that
  proof (induction n arbitrary: b)
    case (Suc n)
    from capped_step [OF assms Suc.prems] obtain d b' where
      step: "backoff_next E b = (Inr d, b')" "1100 \<le> d" "d \<le> capped_max k" and "capped_ok k b'"
      by blast
    from Suc.IH [OF this(4)] obtain ds where "backoff_series E n b' = map Inr ds" "length ds = n"
      "\<forall>d\<in>set ds. 1100 \<le> d \<and> d \<le> capped_max k" by auto
    with step show ?case by (intro exI [of _ "d # ds"]) auto
  qed simp
  moreover have "capped_ok k (ExponentialBackoff seed (int k))"
    by (simp add: capped_ok_def ExponentialBackoff_def)
  ultimately show ?thesis by (simp add: capped_max_def)
qed

theorem capped_delays_bounded_witness:
  "\<exists>ds. backoff_series (env0 JNull) 50 (ExponentialBackoff 5 10) = map Inr ds \<and> (\<forall>d\<in>set ds. 1100 \<le> d \<and> d \<le> 2048000)"
  using capped_delays_bounded [OF env0_draws, of 10 JNull 50 5] by auto

end
