(* ===== verification/Message.thy ===== *)
theory Message
  imports Backoff
begin

text \<open>
  \<^verbatim>\<open>src/message.h\<close> and \<^verbatim>\<open>src/message.cpp\<close>: the enumerations, the field names of the two JSON
  protocols and the class \<^verbatim>\<open>Message\<close>.  A getter is the field of the record, a setter its update.
\<close>

section \<open>Constants and field names\<close>

definition MAX_TTL :: int where "MAX_TTL = 2419200"
definition MIN_TTL :: int where "MIN_TTL = 0"
definition MAX_PENDING_MESSAGES :: nat where "MAX_PENDING_MESSAGES = 100"
definition MAX_DOWNSTREAM_UPLOAD_RETRY :: int where "MAX_DOWNSTREAM_UPLOAD_RETRY = 10"
definition MAX_UPSTREAM_UPLOAD_RETRY :: int where "MAX_UPSTREAM_UPLOAD_RETRY = 10"
definition MAX_LOGON_MSG_WAIT_TIME :: int where "MAX_LOGON_MSG_WAIT_TIME = 10000"

text \<open>Namespaces \<^verbatim>\<open>fcmfieldnames\<close> and \<^verbatim>\<open>gimmmfieldnames\<close>.\<close>

definition F_MESSAGE_TYPE :: string where "F_MESSAGE_TYPE = ''message_type''"
definition F_MESSAGE_ID :: string where "F_MESSAGE_ID = ''message_id''"
definition F_ERROR :: string where "F_ERROR = ''error''"
definition F_ERROR_DESC :: string where "F_ERROR_DESC = ''error_description''"
definition F_DATA :: string where "F_DATA = ''data''"
definition F_FROM :: string where "F_FROM = ''from''"
definition F_CATEGORY :: string where "F_CATEGORY = ''category''"
definition F_CONTROL_TYPE :: string where "F_CONTROL_TYPE = ''control_type''"
definition F_TO :: string where "F_TO = ''to''"
definition G_MESSAGE_TYPE :: string where "G_MESSAGE_TYPE = ''message_type''"
definition G_SEQUENCE_ID :: string where "G_SEQUENCE_ID = ''sequence_id''"
definition G_GROUP_ID :: string where "G_GROUP_ID = ''group_id''"
definition G_SESSION_ID :: string where "G_SESSION_ID = ''session_id''"
definition G_ERROR_DESC :: string where "G_ERROR_DESC = ''error_description''"
definition G_FCM_DATA :: string where "G_FCM_DATA = ''fcm_data''"

lemmas field_names = F_MESSAGE_TYPE_def F_MESSAGE_ID_def F_ERROR_def F_ERROR_DESC_def F_DATA_def
  F_FROM_def F_CATEGORY_def F_CONTROL_TYPE_def F_TO_def G_MESSAGE_TYPE_def G_SEQUENCE_ID_def
  G_GROUP_ID_def G_SESSION_ID_def G_ERROR_DESC_def G_FCM_DATA_def

section \<open>The enumerations\<close>

text \<open>
  An enumerator without a value is one more than the enumerator before it, so
  \<^verbatim>\<open>LOGON_RESPONSE\<close>, which follows \<^verbatim>\<open>LOGON = 1\<close>, is the value 2 that \<^verbatim>\<open>ACK = 2\<close> names too.  The last
  constructor is any other value of the underlying type \<^verbatim>\<open>char\<close>, which a cast from the integer
  of a database column can produce.
\<close>

datatype MessageType =
    MT_UNKNOWN | LOGON | ACK | UPSTREAM | DOWNSTREAM | DOWNSTREAM_ACK
  | DOWNSTREAM_RECEIPT | DOWNSTREAM_REJECT | MT_OTHER int

definition LOGON_RESPONSE :: MessageType where "LOGON_RESPONSE = ACK"

fun MessageType_code :: "MessageType \<Rightarrow> int" where
  "MessageType_code MT_UNKNOWN = 0"
| "MessageType_code LOGON = 1"
| "MessageType_code ACK = 2"
| "MessageType_code UPSTREAM = 3"
| "MessageType_code DOWNSTREAM = 4"
| "MessageType_code DOWNSTREAM_ACK = 5"
| "MessageType_code DOWNSTREAM_RECEIPT = 6"
| "MessageType_code DOWNSTREAM_REJECT = 7"
| "MessageType_code (MT_OTHER n) = n"

definition to_char :: "int \<Rightarrow> int" where
  "to_char n = (n + 128) mod 256 - 128"

definition MessageType_of_int :: "int \<Rightarrow> MessageType" where
  "MessageType_of_int n =
     (let c = to_char n in
      if c = 0 then MT_UNKNOWN else if c = 1 then LOGON else if c = 2 then ACK
      else if c = 3 then UPSTREAM else if c = 4 then DOWNSTREAM else if c = 5 then DOWNSTREAM_ACK
      else if c = 6 then DOWNSTREAM_RECEIPT else if c = 7 then DOWNSTREAM_REJECT else MT_OTHER c)"

datatype MessageContentType = MC_UNKNOWN | MC_DATA | MC_NOTIFICATION

datatype MessageState =
    MS_UNKNOWN | NEW | PENDING_ACK | DELIVERED | DELIVERY_FAILED | MS_OTHER int

fun MessageState_code :: "MessageState \<Rightarrow> int" where
  "MessageState_code MS_UNKNOWN = 0"
| "MessageState_code NEW = 1"
| "MessageState_code PENDING_ACK = 2"
| "MessageState_code DELIVERED = 3"
| "MessageState_code DELIVERY_FAILED = 4"
| "MessageState_code (MS_OTHER n) = n"

definition MessageState_of_int :: "int \<Rightarrow> MessageState" where
  "MessageState_of_int n =
     (let c = to_char n in
      if c = 0 then MS_UNKNOWN else if c = 1 then NEW else if c = 2 then PENDING_ACK
      else if c = 3 then DELIVERED else if c = 4 then DELIVERY_FAILED else MS_OTHER c)"

text \<open>The values the enumerations declare, as opposed to other values of \<^verbatim>\<open>char\<close>.\<close>

fun declared_type :: "MessageType \<Rightarrow> bool" where
  "declared_type (MT_OTHER _) = False"
| "declared_type _ = True"

fun declared_state :: "MessageState \<Rightarrow> bool" where
  "declared_state (MS_OTHER _) = False"
| "declared_state _ = True"

section \<open>The class Message\<close>

text \<open>A payload is a \<^verbatim>\<open>shared_ptr\<close>, null until it is set; no code changes the document it points
  to.  The two retry counters are none while they are uninitialised.\<close>

record message =
  msg_enteredDatetime :: string
  msg_sequenceId :: int
  msg_sourceSessionId :: string
  msg_targetSessionId :: string
  msg_type :: MessageType
  msg_fcmMessageId :: string
  msg_groupId :: string
  msg_state :: MessageState
  msg_lastUpdateDatetime :: string
  msg_payload :: "json option"
  msg_exboff :: backoff
  msg_nRetry :: "int option"
  msg_maxRetry :: "int option"
  msg_retryInProgress :: bool

text \<open>A message lives at an address; two pointers to it see each other's updates.\<close>

type_synonym ptr = nat
type_synonym heap = "ptr \<Rightarrow> message"

text \<open>\<^verbatim>\<open>Message::Message()\<close>: the retry counters are not initialised.\<close>

definition Message_default :: "env \<Rightarrow> ptr \<Rightarrow> message" where
  "Message_default E p =
     \<lparr> msg_enteredDatetime = [], msg_sequenceId = 0, msg_sourceSessionId = [],
       msg_targetSessionId = [], msg_type = MT_UNKNOWN, msg_fcmMessageId = [], msg_groupId = [],
       msg_state = MS_UNKNOWN, msg_lastUpdateDatetime = [], msg_payload = None,
       msg_exboff = ExponentialBackoff (std_seed E p) NO_MAX_RETRY,
       msg_nRetry = None, msg_maxRetry = None,
       msg_retryInProgress = False \<rparr>"

definition Message_new ::
  "env \<Rightarrow> ptr \<Rightarrow> int \<Rightarrow> MessageType \<Rightarrow> string \<Rightarrow> string \<Rightarrow> string \<Rightarrow> string \<Rightarrow> json option \<Rightarrow> MessageState \<Rightarrow> message" where
  "Message_new E p seqid type msgid gid source_sess_id target_sess_id payload state =
     \<lparr> msg_enteredDatetime = [], msg_sequenceId = seqid, msg_sourceSessionId = source_sess_id,
       msg_targetSessionId = target_sess_id, msg_type = type, msg_fcmMessageId = msgid,
       msg_groupId = gid, msg_state = state, msg_lastUpdateDatetime = [], msg_payload = payload,
       msg_exboff = ExponentialBackoff (std_seed E p) NO_MAX_RETRY,
       msg_nRetry = Some 0, msg_maxRetry = Some (- 1), msg_retryInProgress = False \<rparr>"

text \<open>The assignment operator on two distinct objects; it dereferences the payload of \<open>rhs\<close> and
  copies the document.  The two dates, the retry counters and the retry flag are not assigned.\<close>

definition Message_assign :: "message \<Rightarrow> message \<Rightarrow> fault + message" where
  "Message_assign this rhs =
     (case msg_payload rhs of
        None \<Rightarrow> Inl (Undefined NullDeref)
      | Some p \<Rightarrow>
          Inr (this \<lparr> msg_sequenceId := msg_sequenceId rhs, msg_type := msg_type rhs,
                      msg_fcmMessageId := msg_fcmMessageId rhs, msg_groupId := msg_groupId rhs,
                      msg_sourceSessionId := msg_sourceSessionId rhs,
                      msg_targetSessionId := msg_targetSessionId rhs,
                      msg_state := msg_state rhs,
                      msg_exboff := backoff_assign (msg_exboff this) (msg_exboff rhs),
                      msg_payload := Some p \<rparr>))"

text \<open>The copy constructor default-initialises its members and assigns: the retry flag too is
  indeterminate, here \<open>flag\<close>.\<close>

definition Message_copy :: "env \<Rightarrow> ptr \<Rightarrow> bool \<Rightarrow> message \<Rightarrow> fault + message" where
  "Message_copy E p flag rhs = Message_assign ((Message_default E p) \<lparr> msg_retryInProgress := flag \<rparr>) rhs"

definition getRetryInProgress :: "message \<Rightarrow> bool" where
  "getRetryInProgress m = True"

definition getMessageIdentifier :: "message \<Rightarrow> string" where
  "getMessageIdentifier m =
     ''fcmmsgid: '' @ msg_fcmMessageId m @ '', sequenceid: '' @ show_int (msg_sequenceId m)"

text \<open>\<^verbatim>\<open>Message::getNextRetryTimeout\<close>: \<open>-1\<close> past the limit of retries, else the next delay.  It increments the
  one counter and reads the other; to read a member that was never initialised is undefined.\<close>

definition getNextRetryTimeout :: "env \<Rightarrow> (message, int) M" where
  "getNextRetryTimeout E m =
     (case msg_nRetry m of
        None \<Rightarrow> (Inl (Undefined UninitRead), m)
      | Some retries \<Rightarrow>
          (case inc32 retries of
             Inl f \<Rightarrow> (Inl f, m)
           | Inr n \<Rightarrow>
               (let m1 = m \<lparr> msg_nRetry := Some n \<rparr> in
                case msg_maxRetry m1 of
                  None \<Rightarrow> (Inl (Undefined UninitRead), m1)
                | Some limit \<Rightarrow>
                    if limit \<noteq> - 1 \<and> n > limit then (Inr (- 1), m1)
                    else zoom msg_exboff (\<lambda>b x. x \<lparr> msg_exboff := b \<rparr>) (backoff_next E) m1)))"

text \<open>\<^verbatim>\<open>operator<<\<close>: the text of a message, which dereferences its payload.\<close>

definition message_print :: "env \<Rightarrow> message \<Rightarrow> fault + string" where
  "message_print E m =
     (case msg_payload m of
        None \<Rightarrow> Inl (Undefined NullDeref)
      | Some j \<Rightarrow>
          Inr (''Sequence ID:'' @ show_int (msg_sequenceId m) @ ''\<newline>'' @
               ''Source Session ID:'' @ msg_sourceSessionId m @ ''\<newline>'' @
               ''Target Session ID:'' @ msg_targetSessionId m @ ''\<newline>'' @
               ''Type:'' @ show_int (MessageType_code (msg_type m)) @ ''\<newline>'' @
               ''FCM Message ID:'' @ msg_fcmMessageId m @ ''\<newline>'' @
               ''Group ID:'' @ msg_groupId m @ ''\<newline>'' @
               ''State:'' @ show_int (MessageState_code (msg_state m)) @ ''\<newline>'' @
               ''Payload:'' @ qt_toJson E j @ ''\<newline>''))"

section \<open>Facts\<close>

lemma MessageType_roundtrip: "declared_type t \<Longrightarrow> MessageType_of_int (MessageType_code t) = t"
  by (cases t) (simp_all add: MessageType_of_int_def to_char_def)

lemma MessageState_roundtrip: "declared_state t \<Longrightarrow> MessageState_of_int (MessageState_code t) = t"
  by (cases t) (simp_all add: MessageState_of_int_def to_char_def)

lemma getNextRetryTimeout_frame:
  "getNextRetryTimeout E m = (r, m') \<Longrightarrow>
     m' = m \<lparr> msg_nRetry := msg_nRetry m', msg_exboff := msg_exboff m' \<rparr>"
  by (auto simp: getNextRetryTimeout_def zoom_def Let_def split: sum.splits if_splits prod.splits option.splits)

text \<open>A message made by the full constructor retries for ever: \<open>-1\<close>, the value that makes
  the callers give up, is never returned, whatever the limits in \<^verbatim>\<open>message.h\<close> say.\<close>

theorem retry_never_gives_up:
  assumes "draws_in_range E" and "msg_maxRetry m \<in> {None, Some (- 1)}"
    and "bo_distribution (msg_exboff m) = (100, 1000)"
  shows "fst (getNextRetryTimeout E m) \<noteq> Inr (- 1)"
  using assms backoff_next_ge [OF assms(1,3)]
  by (fastforce simp: getNextRetryTimeout_def zoom_def Let_def split: sum.splits prod.splits option.splits)

theorem retry_never_gives_up_witness:
  "fst (getNextRetryTimeout (env0 JNull) (Message_new (env0 JNull) 0 1 UPSTREAM [] [] [] [] None NEW)) \<noteq> Inr (- 1)"
  by (rule retry_never_gives_up [OF env0_draws]) (simp_all add: Message_new_def ExponentialBackoff_def)

text \<open>C99. The retry limit: the next timeout is \<open>-1\<close>, which makes the callers give up, exactly when there is a
  limit and the retries reached it.  The full constructor sets no limit, whatever \<^verbatim>\<open>message.h\<close> says.  The
  default constructor, which the load of the database and the receipts use, initialises neither the limit nor
  the count, and nothing sets them later: whatever its other members, the retry of such a message is undefined.\<close>

theorem retry_limit:
  assumes "draws_in_range E" and "bo_distribution (msg_exboff m) = (100, 1000)"
    and "msg_nRetry m = Some n" and "int32_min \<le> n" and "n < int32_max" and "msg_maxRetry m = Some limit"
  shows "(fst (getNextRetryTimeout E m) = Inr (- 1) \<longleftrightarrow> limit \<noteq> - 1 \<and> limit \<le> n) \<and>
    msg_maxRetry (Message_new E p s t f g a b j st) = Some (- 1) \<and>
    fst (getNextRetryTimeout E ((Message_default E p)
      \<lparr> msg_enteredDatetime := ed, msg_sequenceId := s, msg_sourceSessionId := a, msg_targetSessionId := b, msg_type := t,
        msg_fcmMessageId := f, msg_groupId := g, msg_state := st, msg_lastUpdateDatetime := lu, msg_payload := j,
        msg_retryInProgress := rip \<rparr>)) = Inl (Undefined UninitRead)"
proof -
  obtain r b' where step: "backoff_next E (msg_exboff m) = (r, b')" by fastforce
  have "r \<noteq> Inr (- 1)" using backoff_next_ge [OF assms(1,2)] step by (cases r) fastforce+
  with step show ?thesis
    using assms(3-6)
    by (auto simp: getNextRetryTimeout_def zoom_def Let_def inc32_def fits32_def int_lims Message_new_def Message_default_def)
qed

theorem retry_limit_witness:
  "fst (getNextRetryTimeout (env0 JNull) ((Message_new (env0 JNull) 0 1 UPSTREAM [] [] [] [] None NEW) \<lparr> msg_maxRetry := Some 0 \<rparr>)) = Inr (- 1)"
  using retry_limit [OF env0_draws, of "(Message_new (env0 JNull) 0 1 UPSTREAM [] [] [] [] None NEW) \<lparr> msg_maxRetry := Some 0 \<rparr>" 0 0 JNull]
  by (simp add: Message_new_def ExponentialBackoff_def int_lims)

end
