(* ===== verification/Manager.thy ===== *)
theory Manager
  imports Message
begin

text \<open>
  \<^verbatim>\<open>src/messagemanager.h\<close> and \<^verbatim>\<open>src/messagemanager.cpp\<close>: the classes \<^verbatim>\<open>Group\<close> and
  \<^verbatim>\<open>MessageManager\<close>.  The maps hold pointers, so the operations that look into a message take the
  heap.  A \<^verbatim>\<open>Group\<close> is owned by one map entry of one manager and is stored there by value.  The
  invariant says that the groups are an index of the queue; the locale \<open>message_store\<close> is what
  the application relies on.
\<close>

section \<open>The class Group\<close>

type_synonym msg_queue = "(int, ptr) omap"

record grp =
  grp_groupId :: string
  grp_msgQueue :: msg_queue

definition Group_new :: "string \<Rightarrow> fault + grp" where
  "Group_new gid = (if gid = [] then Inl (Throw BlankGroupId)
                    else Inr \<lparr> grp_groupId = gid, grp_msgQueue = [] \<rparr>)"

definition group_add :: "heap \<Rightarrow> ptr \<Rightarrow> grp \<Rightarrow> grp" where
  "group_add h p g =
     (if msg_groupId (h p) = grp_groupId g
      then g \<lparr> grp_msgQueue := om_emplace (msg_sequenceId (h p)) p (grp_msgQueue g) \<rparr> else g)"

definition group_remove :: "int \<Rightarrow> grp \<Rightarrow> grp" where
  "group_remove seqid g = g \<lparr> grp_msgQueue := om_erase seqid (grp_msgQueue g) \<rparr>"

text \<open>\<^verbatim>\<open>begin()\<close> of an empty queue is \<^verbatim>\<open>end()\<close>, which may not be dereferenced.\<close>

definition group_canSend :: "heap \<Rightarrow> grp \<Rightarrow> ptr \<Rightarrow> fault + bool" where
  "group_canSend h g p =
     (case grp_msgQueue g of
        [] \<Rightarrow> Inl (Undefined EndDeref)
      | (_, front) # _ \<Rightarrow> Inr (msg_sequenceId (h p) = msg_sequenceId (h front)))"

section \<open>The class MessageManager\<close>

record manager =
  mm_sessionId :: string
  mm_maxPendingAllowed :: "64 word"
  mm_pendingAckCount :: "64 word"
  mm_sequenceIdMap :: "(string, int) omap"
  mm_messages :: msg_queue
  mm_groups :: "(string, grp) omap"

definition MessageManager :: "string \<Rightarrow> int \<Rightarrow> manager" where
  "MessageManager sessionid max_pending_allowed =
     \<lparr> mm_sessionId = sessionid, mm_maxPendingAllowed = word_of_int max_pending_allowed,
       mm_pendingAckCount = 0, mm_sequenceIdMap = [], mm_messages = [], mm_groups = [] \<rparr>"

text \<open>The default argument of the constructor.\<close>

definition MessageManager_default :: "string \<Rightarrow> manager" where
  "MessageManager_default sessionid = MessageManager sessionid (int MAX_PENDING_MESSAGES)"

definition addToGroups :: "heap \<Rightarrow> ptr \<Rightarrow> (manager, unit) M" where
  "addToGroups h p m =
     (let grpid = msg_groupId (h p) in
      if grpid \<noteq> [] then
        (case om_find (mm_groups m) grpid of
           Some g \<Rightarrow> (Inr (), m \<lparr> mm_groups := om_store grpid (group_add h p g) (mm_groups m) \<rparr>)
         | None \<Rightarrow>
             (case Group_new grpid of
                Inl f \<Rightarrow> (Inl f, m)
              | Inr g \<Rightarrow> (Inr (), m \<lparr> mm_groups := om_emplace grpid (group_add h p g) (mm_groups m) \<rparr>)))
      else (Inr (), m))"

definition addMessage :: "heap \<Rightarrow> int \<Rightarrow> ptr \<Rightarrow> (manager, unit) M" where
  "addMessage h seqid p =
     thenM (modify (\<lambda>m. m \<lparr> mm_sequenceIdMap := om_emplace (msg_fcmMessageId (h p)) seqid (mm_sequenceIdMap m) \<rparr>))
    (thenM (modify (\<lambda>m. m \<lparr> mm_messages := om_emplace seqid p (mm_messages m) \<rparr>))
           (addToGroups h p))"

definition findMessage :: "manager \<Rightarrow> int \<Rightarrow> fault + ptr" where
  "findMessage m seqid =
     (case om_find (mm_messages m) seqid of Some p \<Rightarrow> Inr p | None \<Rightarrow> Inl (Throw (NoSuchMessage seqid)))"

definition findGroup :: "manager \<Rightarrow> string \<Rightarrow> fault + grp" where
  "findGroup m gid =
     (case om_find (mm_groups m) gid of Some g \<Rightarrow> Inr g | None \<Rightarrow> Inl (Throw (NoSuchGroup gid)))"

definition findSequenceId :: "manager \<Rightarrow> string \<Rightarrow> fault + int" where
  "findSequenceId m msgid =
     (case om_find (mm_sequenceIdMap m) msgid of
        Some s \<Rightarrow> Inr s | None \<Rightarrow> Inl (Throw (NoSuchFcmMessageId msgid)))"

definition incrementPendingAckCount :: "manager \<Rightarrow> manager" where
  "incrementPendingAckCount m = m \<lparr> mm_pendingAckCount := mm_pendingAckCount m + 1 \<rparr>"

definition decrementPendingAckCount :: "manager \<Rightarrow> manager" where
  "decrementPendingAckCount m =
     (if mm_pendingAckCount m \<noteq> 0 then m \<lparr> mm_pendingAckCount := mm_pendingAckCount m - 1 \<rparr> else m)"

definition isMessagePending :: "manager \<Rightarrow> bool" where
  "isMessagePending m \<longleftrightarrow> mm_pendingAckCount m > mm_maxPendingAllowed m"

definition removeFromGroups :: "string \<Rightarrow> int \<Rightarrow> (manager, unit) M" where
  "removeFromGroups gid seqid =
     (if gid = [] then ret ()
      else bindM (getsE (\<lambda>m. findGroup m gid)) (\<lambda>g.
        thenM (modify (\<lambda>m. m \<lparr> mm_groups := om_store gid (group_remove seqid g) (mm_groups m) \<rparr>))
              (whenM (grp_msgQueue (group_remove seqid g) = [])
                 (modify (\<lambda>m. m \<lparr> mm_groups := om_erase gid (mm_groups m) \<rparr>)))))"

definition removeMessage :: "heap \<Rightarrow> int \<Rightarrow> (manager, unit) M" where
  "removeMessage h seqid =
     bindM (getsE (\<lambda>m. findMessage m seqid)) (\<lambda>p.
       thenM (modify (\<lambda>m. m \<lparr> mm_messages := om_erase seqid (mm_messages m) \<rparr>))
      (thenM (removeFromGroups (msg_groupId (h p)) seqid)
      (thenM (modify (\<lambda>m. m \<lparr> mm_sequenceIdMap := om_erase (msg_fcmMessageId (h p)) (mm_sequenceIdMap m) \<rparr>))
             (whenM (msg_state (h p) = PENDING_ACK) (modify decrementPendingAckCount)))))"

text \<open>The group rule both send tests end with.\<close>

definition group_rule :: "heap \<Rightarrow> manager \<Rightarrow> ptr \<Rightarrow> fault + int" where
  "group_rule h m p =
     (if msg_groupId (h p) \<noteq> [] then
        (case findGroup m (msg_groupId (h p)) of
           Inl f \<Rightarrow> Inl f
         | Inr g \<Rightarrow> (case group_canSend h g p of
                        Inl f \<Rightarrow> Inl f
                      | Inr ok \<Rightarrow> Inr (if ok then 0 else 3)))
      else Inr 0)"

definition canSendMessage :: "heap \<Rightarrow> manager \<Rightarrow> ptr \<Rightarrow> fault + int" where
  "canSendMessage h m p =
     (if msg_state (h p) \<noteq> NEW then Inr 1
      else if mm_pendingAckCount m \<ge> of_nat MAX_PENDING_MESSAGES then Inr 2
      else group_rule h m p)"

definition canSendMessageOnReconnect :: "heap \<Rightarrow> manager \<Rightarrow> ptr \<Rightarrow> fault + int" where
  "canSendMessageOnReconnect h m p =
     (if msg_state (h p) \<noteq> NEW \<and> msg_state (h p) \<noteq> PENDING_ACK then Inr 1
      else if mm_pendingAckCount m \<ge> of_nat MAX_PENDING_MESSAGES then Inr 2
      else group_rule h m p)"

text \<open>\<^verbatim>\<open>getNext\<close>: the loop over the queue; \<open>None\<close> is the null pointer.\<close>

fun getNext_loop :: "heap \<Rightarrow> manager \<Rightarrow> msg_queue \<Rightarrow> fault + ptr option" where
  "getNext_loop h m [] = Inr None"
| "getNext_loop h m ((_, p) # q) =
     (case canSendMessage h m p of
        Inl f \<Rightarrow> Inl f
      | Inr rc \<Rightarrow> if rc = 0 then Inr (Some p) else getNext_loop h m q)"

definition getNext :: "heap \<Rightarrow> manager \<Rightarrow> fault + ptr option" where
  "getNext h m = getNext_loop h m (mm_messages m)"

definition findMessageWithFcmMsgId :: "manager \<Rightarrow> string \<Rightarrow> fault + ptr" where
  "findMessageWithFcmMsgId m fcm_msgid =
     (case findSequenceId m fcm_msgid of Inl f \<Rightarrow> Inl f | Inr s \<Rightarrow> findMessage m s)"

definition removeMessageWithFcmMsgId :: "heap \<Rightarrow> string \<Rightarrow> (manager, unit) M" where
  "removeMessageWithFcmMsgId h fcm_msgid =
     bindM (getsE (\<lambda>m. findSequenceId m fcm_msgid)) (removeMessage h)"

section \<open>The invariant: the groups index the queue\<close>

text \<open>The messages of a group, in queue order.\<close>

definition group_view :: "heap \<Rightarrow> msg_queue \<Rightarrow> string \<Rightarrow> msg_queue" where
  "group_view h q g = filter (\<lambda>e. msg_groupId (h (snd e)) = g) q"

definition group_index :: "heap \<Rightarrow> msg_queue \<Rightarrow> string \<Rightarrow> grp option" where
  "group_index h q g =
     (if g \<noteq> [] \<and> group_view h q g \<noteq> []
      then Some \<lparr> grp_groupId = g, grp_msgQueue = group_view h q g \<rparr> else None)"

text \<open>Entries carry their own sequence id; the groups are exactly the index of the queue; an FCM
  message id leads to a queued message with that id.\<close>

definition mm_ok :: "heap \<Rightarrow> manager \<Rightarrow> bool" where
  "mm_ok h m \<longleftrightarrow>
     om_wf (mm_messages m) \<and> om_wf (mm_sequenceIdMap m) \<and> om_wf (mm_groups m) \<and>
     (\<forall>e\<in>set (mm_messages m). msg_sequenceId (h (snd e)) = fst e) \<and>
     (\<forall>g. om_find (mm_groups m) g = group_index h (mm_messages m) g) \<and>
     (\<forall>f s. om_find (mm_sequenceIdMap m) f = Some s \<longrightarrow>
        (\<exists>p. om_find (mm_messages m) s = Some p \<and> msg_fcmMessageId (h p) = f))"

lemma mm_okD:
  assumes "mm_ok h m"
  shows "om_wf (mm_messages m)" "om_wf (mm_sequenceIdMap m)" "om_wf (mm_groups m)"
    "\<And>s p. (s, p) \<in> set (mm_messages m) \<Longrightarrow> msg_sequenceId (h p) = s"
    "\<And>s p. om_find (mm_messages m) s = Some p \<Longrightarrow> msg_sequenceId (h p) = s"
    "\<And>g. om_find (mm_groups m) g = group_index h (mm_messages m) g"
    "\<And>f s. om_find (mm_sequenceIdMap m) f = Some s \<Longrightarrow>
        \<exists>p. om_find (mm_messages m) s = Some p \<and> msg_fcmMessageId (h p) = f"
proof -
  show seq: "msg_sequenceId (h p) = s" if "(s, p) \<in> set (mm_messages m)" for s p
    using assms that by (fastforce simp: mm_ok_def)
  show "msg_sequenceId (h p) = s" if "om_find (mm_messages m) s = Some p" for s p
    using seq om_find_in_set [OF that] by blast
qed (use assms in \<open>auto simp: mm_ok_def\<close>)

lemma mm_ok_init: "mm_ok h (MessageManager s k)"
  by (simp add: mm_ok_def MessageManager_def group_index_def group_view_def)

text \<open>A change of the heap that keeps the three identifying fields of the queued messages keeps
  the invariant.\<close>

lemma mm_ok_heap:
  assumes "mm_ok h m"
    and "\<And>p. p \<in> snd ` set (mm_messages m) \<Longrightarrow> msg_sequenceId (h' p) = msg_sequenceId (h p) \<and>
      msg_groupId (h' p) = msg_groupId (h p) \<and> msg_fcmMessageId (h' p) = msg_fcmMessageId (h p)"
  shows "mm_ok h' m"
proof -
  have "group_view h' (mm_messages m) g = group_view h (mm_messages m) g" for g
    unfolding group_view_def using assms(2) by (intro filter_cong) auto
  then have "group_index h' (mm_messages m) = group_index h (mm_messages m)"
    by (simp add: group_index_def fun_eq_iff)
  moreover have "msg_fcmMessageId (h' p) = msg_fcmMessageId (h p)"
    if "om_find (mm_messages m) s = Some p" for s p
    using assms(2) [of p] om_find_in_set [OF that] by force
  moreover have "msg_sequenceId (h' (snd e)) = msg_sequenceId (h (snd e))" if "e \<in> set (mm_messages m)" for e
    using assms(2) [of "snd e"] that by blast
  ultimately show ?thesis
    using assms(1) unfolding mm_ok_def by metis
qed

lemma mm_ok_count [simp]:
  "mm_ok h (m \<lparr> mm_pendingAckCount := c \<rparr>) = mm_ok h m"
  "mm_ok h (incrementPendingAckCount m) = mm_ok h m"
  "mm_ok h (decrementPendingAckCount m) = mm_ok h m"
  by (simp_all add: mm_ok_def incrementPendingAckCount_def decrementPendingAckCount_def)

lemma count_frame [simp]:
  "mm_messages (incrementPendingAckCount m) = mm_messages m"
  "mm_messages (decrementPendingAckCount m) = mm_messages m"
  "mm_sequenceIdMap (incrementPendingAckCount m) = mm_sequenceIdMap m"
  "mm_sequenceIdMap (decrementPendingAckCount m) = mm_sequenceIdMap m"
  "mm_sessionId (incrementPendingAckCount m) = mm_sessionId m"
  "mm_sessionId (decrementPendingAckCount m) = mm_sessionId m"
  by (simp_all add: incrementPendingAckCount_def decrementPendingAckCount_def)

section \<open>Adding a message\<close>

lemma group_view_emplace:
  assumes "om_wf q" and "om_find q s = None"
  shows "group_view h (om_emplace s p q) g =
    (if msg_groupId (h p) = g then om_emplace s p (group_view h q g) else group_view h q g)"
  using om_emplace_filter [OF assms, of "\<lambda>e. msg_groupId (h (snd e)) = g" p] by (simp add: group_view_def)

lemma om_emplace_not_Nil [simp]: "om_emplace k v m \<noteq> []"
  by (induction k v m rule: om_emplace.induct) auto

lemma addToGroups_index:
  assumes "om_wf (mm_groups m)" and "om_wf q" and "om_find q s = None" and "msg_sequenceId (h p) = s"
    and "\<And>g. om_find (mm_groups m) g = group_index h q g"
  shows "\<exists>G. addToGroups h p m = (Inr (), m \<lparr> mm_groups := G \<rparr>) \<and> om_wf G \<and>
    (\<forall>g. om_find G g = group_index h (om_emplace s p q) g)"
proof (cases "msg_groupId (h p) = []")
  case True
  with assms show ?thesis
    by (intro exI [of _ "mm_groups m"]) (auto simp: addToGroups_def group_index_def group_view_emplace)
next
  case False
  let ?g = "msg_groupId (h p)"
  let ?new = "\<lparr> grp_groupId = ?g, grp_msgQueue = om_emplace s p (group_view h q ?g) \<rparr>"
  have idx: "group_index h (om_emplace s p q) = (group_index h q)(?g \<mapsto> ?new)"
    using assms(2,3) False by (auto simp: group_index_def group_view_emplace fun_eq_iff)
  show ?thesis
  proof (cases "group_view h q ?g = []")
    case True
    with assms False idx show ?thesis
      by (auto simp: addToGroups_def Let_def Group_new_def group_add_def group_index_def fun_eq_iff
          om_find_emplace om_wf_emplace)
  next
    case nonempty: False
    with assms False idx show ?thesis
      by (auto simp: addToGroups_def Let_def group_add_def group_index_def om_find_store om_wf_store fun_eq_iff)
  qed
qed

text \<open>A message with a fresh sequence id joins the queue, and the invariant stays.\<close>

lemma addMessage_spec:
  assumes "mm_ok h m" and "om_find (mm_messages m) s = None" and "msg_sequenceId (h p) = s"
  shows "\<exists>m'. addMessage h s p m = (Inr (), m') \<and> mm_ok h m' \<and>
    mm_messages m' = om_emplace s p (mm_messages m) \<and>
    mm_sequenceIdMap m' = om_emplace (msg_fcmMessageId (h p)) s (mm_sequenceIdMap m) \<and>
    mm_pendingAckCount m' = mm_pendingAckCount m \<and> mm_sessionId m' = mm_sessionId m \<and>
    mm_maxPendingAllowed m' = mm_maxPendingAllowed m"
proof -
  note ok = mm_okD [OF assms(1)]
  let ?q = "om_emplace s p (mm_messages m)"
  let ?f = "om_emplace (msg_fcmMessageId (h p)) s (mm_sequenceIdMap m)"
  let ?m = "m \<lparr> mm_sequenceIdMap := ?f, mm_messages := ?q \<rparr>"
  obtain G where G: "addToGroups h p ?m = (Inr (), ?m \<lparr> mm_groups := G \<rparr>)" "om_wf G"
    "\<And>g. om_find G g = group_index h ?q g"
    using addToGroups_index [of ?m "mm_messages m" s h p] ok assms by auto
  have q: "om_wf ?q" "om_wf ?f" using ok by (simp_all add: om_wf_emplace)
  have seq: "\<forall>e\<in>set ?q. msg_sequenceId (h (snd e)) = fst e"
    using ok(4) assms(2,3) by (auto simp: om_emplace_set)
  have fcm: "\<exists>p'. om_find ?q t = Some p' \<and> msg_fcmMessageId (h p') = f" if "om_find ?f f = Some t" for f t
    using that ok(1,2) ok(7) [of f t] ok(7) [of f s] assms(2)
    by (auto simp: om_find_emplace split: option.splits if_splits)
  have "mm_ok h (?m \<lparr> mm_groups := G \<rparr>)"
    using G(2,3) q seq fcm by (simp add: mm_ok_def)
  moreover have "addMessage h s p m = (Inr (), ?m \<lparr> mm_groups := G \<rparr>)"
    using G(1) by (simp add: addMessage_def thenM_def bindM_def modify_def)
  ultimately show ?thesis by simp
qed

section \<open>Removing a message\<close>

lemma group_view_erase: "om_wf q \<Longrightarrow> group_view h (om_erase s q) g = om_erase s (group_view h q g)"
  by (simp add: group_view_def om_erase_filter om_wf_filter conj_commute)

lemma removeFromGroups_index:
  assumes "om_wf (mm_groups m)" and "om_wf q" and "om_find q s = Some p"
    and "\<And>g. om_find (mm_groups m) g = group_index h q g"
  shows "\<exists>G. removeFromGroups (msg_groupId (h p)) s m = (Inr (), m \<lparr> mm_groups := G \<rparr>) \<and> om_wf G \<and>
    (\<forall>g. om_find G g = group_index h (om_erase s q) g)"
proof -
  let ?g = "msg_groupId (h p)"
  have other: "om_erase s (group_view h q g) = group_view h q g" if "g \<noteq> ?g" for g
  proof -
    have "fst e \<noteq> s" if "e \<in> set (group_view h q g)" for e
    proof
      assume "fst e = s"
      with that assms(2) have "om_find q s = Some (snd e)"
        by (simp add: group_view_def om_find_iff) (metis prod.collapse)
      with assms(3) \<open>g \<noteq> ?g\<close> that show False by (simp add: group_view_def)
    qed
    then show ?thesis
      using assms(2) by (auto simp: group_view_def om_erase_filter om_wf_filter intro!: filter_cong)
  qed
  show ?thesis
  proof (cases "?g = []")
    case True
    with assms other show ?thesis
      by (intro exI [of _ "mm_groups m"])
        (auto simp: removeFromGroups_def ret_def group_index_def group_view_erase)
  next
    case False
    have "(s, p) \<in> set (group_view h q ?g)"
      using om_find_in_set [OF assms(3)] by (simp add: group_view_def)
    then have ne: "group_view h q ?g \<noteq> []" by auto
    let ?G = "\<lparr> grp_groupId = ?g, grp_msgQueue = om_erase s (group_view h q ?g) \<rparr>"
    have found: "om_find (mm_groups m) ?g = Some \<lparr> grp_groupId = ?g, grp_msgQueue = group_view h q ?g \<rparr>"
      using assms(4) [of ?g] False ne by (simp add: group_index_def)
    show ?thesis
    proof (cases "om_erase s (group_view h q ?g) = []")
      case True
      with found assms False other show ?thesis
        by (intro exI [of _ "om_erase ?g (om_store ?g ?G (mm_groups m))"])
          (auto simp: removeFromGroups_def monad_defs findGroup_def group_remove_def om_wf_store om_wf_erase
            om_find_erase om_find_store group_index_def group_view_erase)
    next
      case nonempty: False
      with found assms False other show ?thesis
        by (intro exI [of _ "om_store ?g ?G (mm_groups m)"])
          (auto simp: removeFromGroups_def monad_defs findGroup_def group_remove_def om_wf_store
            om_find_store group_index_def group_view_erase)
    qed
  qed
qed

lemma removeMessage_spec:
  assumes "mm_ok h m" and "om_find (mm_messages m) s = Some p"
  shows "\<exists>m'. removeMessage h s m = (Inr (), m') \<and> mm_ok h m' \<and>
    mm_messages m' = om_erase s (mm_messages m) \<and>
    mm_sequenceIdMap m' = om_erase (msg_fcmMessageId (h p)) (mm_sequenceIdMap m) \<and>
    mm_pendingAckCount m' = (if msg_state (h p) = PENDING_ACK \<and> mm_pendingAckCount m \<noteq> 0
       then mm_pendingAckCount m - 1 else mm_pendingAckCount m) \<and>
    mm_sessionId m' = mm_sessionId m \<and> mm_maxPendingAllowed m' = mm_maxPendingAllowed m"
proof -
  note ok = mm_okD [OF assms(1)]
  let ?q = "om_erase s (mm_messages m)"
  let ?f = "om_erase (msg_fcmMessageId (h p)) (mm_sequenceIdMap m)"
  let ?m = "m \<lparr> mm_messages := ?q \<rparr>"
  obtain G where G: "removeFromGroups (msg_groupId (h p)) s ?m = (Inr (), ?m \<lparr> mm_groups := G \<rparr>)" "om_wf G"
    "\<And>g. om_find G g = group_index h ?q g"
    using removeFromGroups_index [of ?m "mm_messages m" s p h] ok assms by auto
  have fcm: "\<exists>p'. om_find ?q t = Some p' \<and> msg_fcmMessageId (h p') = f" if "om_find ?f f = Some t" for f t
    using that ok(1,2) ok(7) [of f t] assms(2)
    by (auto simp: om_find_erase split: if_splits)
  let ?m2 = "?m \<lparr> mm_groups := G, mm_sequenceIdMap := ?f \<rparr>"
  have "mm_ok h ?m2"
    using G(2,3) ok fcm by (auto simp: mm_ok_def om_wf_erase set_erase)
  moreover have "removeMessage h s m =
     (Inr (), if msg_state (h p) = PENDING_ACK then decrementPendingAckCount ?m2 else ?m2)"
    using G(1) assms(2)
    by (simp add: removeMessage_def findMessage_def monad_defs)
  ultimately show ?thesis
    by (auto simp: decrementPendingAckCount_def mm_ok_def)
qed

lemma removeMessage_absent:
  "om_find (mm_messages m) s = None \<Longrightarrow> removeMessage h s m = (Inl (Throw (NoSuchMessage s)), m)"
  by (simp add: removeMessage_def findMessage_def monad_defs)

section \<open>The send tests\<close>

text \<open>No queued message of the same group has a smaller sequence id.\<close>

definition head_of_group :: "heap \<Rightarrow> msg_queue \<Rightarrow> ptr \<Rightarrow> bool" where
  "head_of_group h q p \<longleftrightarrow>
     (\<forall>e\<in>set q. msg_groupId (h (snd e)) = msg_groupId (h p) \<longrightarrow> msg_sequenceId (h p) \<le> fst e)"

text \<open>The code of a send test over the plain queue: \<open>states\<close> are the states it admits, \<open>c\<close> the
  number of messages that wait for an acknowledgement.\<close>

definition send_code :: "MessageState set \<Rightarrow> heap \<Rightarrow> msg_queue \<Rightarrow> nat \<Rightarrow> ptr \<Rightarrow> int" where
  "send_code states h q c p =
     (if msg_state (h p) \<notin> states then 1
      else if c \<ge> 100 then 2
      else if msg_groupId (h p) \<noteq> [] \<and> \<not> head_of_group h q p then 3
      else 0)"

lemma head_of_group_hd:
  assumes "om_wf q" and "(s, p) \<in> set q" and "\<And>e. e \<in> set q \<Longrightarrow> msg_sequenceId (h (snd e)) = fst e"
  shows "head_of_group h q p \<longleftrightarrow>
    msg_sequenceId (h p) = msg_sequenceId (h (snd (hd (group_view h q (msg_groupId (h p))))))"
    (is "_ \<longleftrightarrow> _ = msg_sequenceId (h (snd (hd ?v)))")
proof -
  have v: "om_wf ?v" "set ?v = {e \<in> set q. msg_groupId (h (snd e)) = msg_groupId (h p)}"
    using assms(1) by (auto simp: group_view_def om_wf_filter)
  have sp: "(s, p) \<in> set ?v" "msg_sequenceId (h p) = s" using assms(2) assms(3) [of "(s, p)"] v by auto
  then have hd: "hd ?v \<in> set ?v" by (cases ?v) auto
  have least: "fst (hd ?v) \<le> fst e" if "e \<in> set ?v" for e
    using om_hd_least [OF v(1), of "fst e" "snd e"] that by simp
  have "msg_sequenceId (h (snd (hd ?v))) = fst (hd ?v)" using hd v(2) assms(3) by auto
  moreover have "head_of_group h q p \<longleftrightarrow> (\<forall>e\<in>set ?v. s \<le> fst e)"
    unfolding head_of_group_def v(2) sp(2) by blast
  moreover have "(\<forall>e\<in>set ?v. s \<le> fst e) \<longleftrightarrow> s = fst (hd ?v)"
    using hd least least [OF sp(1)] by (metis antisym fst_conv)
  ultimately show ?thesis using sp(2) by simp
qed

lemma group_rule_spec:
  assumes "mm_ok h m" and "(s, p) \<in> set (mm_messages m)"
  shows "group_rule h m p =
    Inr (if msg_groupId (h p) \<noteq> [] \<and> \<not> head_of_group h (mm_messages m) p then 3 else 0)"
proof (cases "msg_groupId (h p) = []")
  case False
  note ok = mm_okD [OF assms(1)]
  let ?v = "group_view h (mm_messages m) (msg_groupId (h p))"
  have "(s, p) \<in> set ?v" using assms(2) by (simp add: group_view_def)
  then obtain k f r where v: "?v = (k, f) # r" by (cases ?v) auto
  have "head_of_group h (mm_messages m) p \<longleftrightarrow> msg_sequenceId (h p) = msg_sequenceId (h f)"
    using head_of_group_hd [OF ok(1) assms(2), of h] ok(4) v by auto
  then show ?thesis
    using False v ok(6) by (simp add: group_rule_def findGroup_def group_index_def group_canSend_def)
qed (simp add: group_rule_def)

lemma max_pending_word: "mm_pendingAckCount m \<ge> of_nat MAX_PENDING_MESSAGES \<longleftrightarrow> 100 \<le> unat (mm_pendingAckCount m)"
  by (simp add: word_le_nat_alt MAX_PENDING_MESSAGES_def)

lemma canSendMessage_spec:
  assumes "mm_ok h m" and "(s, p) \<in> set (mm_messages m)"
  shows "canSendMessage h m p = Inr (send_code {NEW} h (mm_messages m) (unat (mm_pendingAckCount m)) p)"
  using group_rule_spec [OF assms]
  by (simp add: canSendMessage_def send_code_def max_pending_word)

lemma canSendMessageOnReconnect_spec:
  assumes "mm_ok h m" and "(s, p) \<in> set (mm_messages m)"
  shows "canSendMessageOnReconnect h m p =
    Inr (send_code {NEW, PENDING_ACK} h (mm_messages m) (unat (mm_pendingAckCount m)) p)"
  using group_rule_spec [OF assms]
  by (simp add: canSendMessageOnReconnect_def send_code_def max_pending_word)

lemma getNext_loop_find:
  assumes "mm_ok h m" and "set q \<subseteq> set (mm_messages m)"
  shows "getNext_loop h m q = Inr (map_option snd
    (List.find (\<lambda>e. send_code {NEW} h (mm_messages m) (unat (mm_pendingAckCount m)) (snd e) = 0) q))"
  using assms(2)
proof (induction q)
  case (Cons e q)
  obtain s p where e: "e = (s, p)" by fastforce
  with Cons canSendMessage_spec [OF assms(1), of s p] show ?case by simp
qed simp

lemma getNext_find:
  "mm_ok h m \<Longrightarrow> getNext h m = Inr (map_option snd
    (List.find (\<lambda>e. send_code {NEW} h (mm_messages m) (unat (mm_pendingAckCount m)) (snd e) = 0) (mm_messages m)))"
  by (simp add: getNext_def getNext_loop_find)

section \<open>What the application relies on\<close>

locale message_store =
  fixes ok :: "heap \<Rightarrow> 's \<Rightarrow> bool"
    and queue :: "'s \<Rightarrow> msg_queue"
    and pending :: "'s \<Rightarrow> nat"
    and add :: "heap \<Rightarrow> int \<Rightarrow> ptr \<Rightarrow> ('s, unit) M"
    and remove :: "heap \<Rightarrow> int \<Rightarrow> ('s, unit) M"
    and sendable :: "heap \<Rightarrow> 's \<Rightarrow> ptr \<Rightarrow> fault + int"
  assumes queue_wf: "ok h s \<Longrightarrow> om_wf (queue s)"
    and queue_seq: "ok h s \<Longrightarrow> (k, p) \<in> set (queue s) \<Longrightarrow> msg_sequenceId (h p) = k"
    and add_law: "ok h s \<Longrightarrow> om_find (queue s) k = None \<Longrightarrow> msg_sequenceId (h p) = k \<Longrightarrow>
      \<exists>s'. add h k p s = (Inr (), s') \<and> ok h s' \<and> queue s' = om_emplace k p (queue s) \<and> pending s' = pending s"
    and remove_law: "ok h s \<Longrightarrow> om_find (queue s) k = Some p \<Longrightarrow>
      \<exists>s'. remove h k s = (Inr (), s') \<and> ok h s' \<and> queue s' = om_erase k (queue s) \<and>
           pending s' = (if msg_state (h p) = PENDING_ACK then pending s - 1 else pending s)"
    and sendable_law: "ok h s \<Longrightarrow> (k, p) \<in> set (queue s) \<Longrightarrow>
      sendable h s p = Inr (send_code {NEW} h (queue s) (pending s) p)"
begin

text \<open>Adding and then removing a new message leaves the queue as it was.\<close>

lemma add_remove:
  assumes "ok h s" and "om_find (queue s) k = None" and "msg_sequenceId (h p) = k" and "msg_state (h p) = NEW"
  shows "\<exists>s' s''. add h k p s = (Inr (), s') \<and> remove h k s' = (Inr (), s'') \<and> ok h s'' \<and>
    queue s'' = queue s \<and> pending s'' = pending s"
proof -
  obtain s' where s': "add h k p s = (Inr (), s')" "ok h s'" "queue s' = om_emplace k p (queue s)" "pending s' = pending s"
    using add_law [OF assms(1-3)] by blast
  have "om_find (queue s') k = Some p"
    using s'(3) queue_wf [OF assms(1)] assms(2) by (simp add: om_find_emplace)
  from remove_law [OF s'(2) this] obtain s'' where
    s'': "remove h k s' = (Inr (), s'')" "ok h s''" "queue s'' = om_erase k (queue s')"
      "pending s'' = pending s'"
    using assms(4) by auto
  have "queue s'' = queue s"
    using s''(3) s'(3) queue_wf [OF assms(1)] assms(2)
    by (simp add: om_erase_filter om_wf_emplace om_emplace_filter filter_id_conv)
      (auto simp: om_find_None_iff)
  with s' s'' show ?thesis by auto
qed

text \<open>Two sendable messages of one group are the same message: a group sends one at a time.\<close>

lemma one_per_group:
  assumes "ok h s" and "(j, p) \<in> set (queue s)" and "(k, q) \<in> set (queue s)"
    and "sendable h s p = Inr 0" and "sendable h s q = Inr 0"
    and "msg_groupId (h p) = msg_groupId (h q)" and "msg_groupId (h p) \<noteq> []"
  shows "p = q"
proof -
  have "head_of_group h (queue s) p" "head_of_group h (queue s) q"
    using assms sendable_law [OF assms(1,2)] sendable_law [OF assms(1,3)]
    by (auto simp: send_code_def split: if_splits)
  then have "j \<le> k" "k \<le> j"
    using assms queue_seq by (force simp: head_of_group_def)+
  with assms(2,3) queue_wf [OF assms(1)] show ?thesis
    by (metis antisym om_find_iff option.inject)
qed

text \<open>A sendable message of a group has no earlier message of its group in the queue.\<close>

lemma no_overtaking:
  assumes "ok h s" and "(k, p) \<in> set (queue s)" and "sendable h s p = Inr 0"
    and "(j, q) \<in> set (queue s)" and "msg_groupId (h q) = msg_groupId (h p)" and "msg_groupId (h p) \<noteq> []"
  shows "k \<le> j"
  using assms sendable_law [OF assms(1,2)] queue_seq [OF assms(1,2)]
  by (force simp: send_code_def head_of_group_def split: if_splits)

end

interpretation mm: message_store mm_ok mm_messages "\<lambda>m. unat (mm_pendingAckCount m)"
  addMessage removeMessage canSendMessage
proof
  fix h m k p
  show "mm_ok h m \<Longrightarrow> om_wf (mm_messages m)" by (simp add: mm_okD)
  show "mm_ok h m \<Longrightarrow> (k, p) \<in> set (mm_messages m) \<Longrightarrow> msg_sequenceId (h p) = k" by (simp add: mm_okD)
  show "mm_ok h m \<Longrightarrow> (k, p) \<in> set (mm_messages m) \<Longrightarrow>
      canSendMessage h m p = Inr (send_code {NEW} h (mm_messages m) (unat (mm_pendingAckCount m)) p)"
    by (rule canSendMessage_spec)
  show "\<exists>m'. addMessage h k p m = (Inr (), m') \<and> mm_ok h m' \<and> mm_messages m' = om_emplace k p (mm_messages m) \<and>
      unat (mm_pendingAckCount m') = unat (mm_pendingAckCount m)"
    if "mm_ok h m" "om_find (mm_messages m) k = None" "msg_sequenceId (h p) = k"
    using addMessage_spec [OF that] by auto
  show "\<exists>m'. removeMessage h k m = (Inr (), m') \<and> mm_ok h m' \<and> mm_messages m' = om_erase k (mm_messages m) \<and>
      unat (mm_pendingAckCount m') = (if msg_state (h p) = PENDING_ACK then unat (mm_pendingAckCount m) - 1
        else unat (mm_pendingAckCount m))"
    if "mm_ok h m" "om_find (mm_messages m) k = Some p"
    using removeMessage_spec [OF that] by (auto simp: unat_minus_one)
qed

section \<open>Properties\<close>

text \<open>A heap for the witnesses: message \<open>p\<close> has sequence id \<open>p\<close> and FCM id \<open>m\<close>; messages 1 and 2
  are in group \<open>g\<close>, the others in none.\<close>

definition heap0 :: heap where
  "heap0 p = Message_new (env0 JNull) p (int p) DOWNSTREAM ''m'' (if p = 1 \<or> p = 2 then ''g'' else [])
     ''bal'' ''fcm'' (Some (JObject [])) NEW"

definition mgr0 :: manager where
  "mgr0 = snd (addMessage heap0 2 2 (snd (addMessage heap0 1 1 (MessageManager_default ''fcm''))))"

lemma heap0_fields [simp]:
  "msg_sequenceId (heap0 p) = int p" "msg_fcmMessageId (heap0 p) = ''m''" "msg_state (heap0 p) = NEW"
  "msg_groupId (heap0 p) = (if p = 1 \<or> p = 2 then ''g'' else [])"
  by (simp_all add: heap0_def Message_new_def)

lemma mgr0_facts:
  "mm_messages mgr0 = [(1, 1), (2, 2)]" "mm_pendingAckCount mgr0 = 0"
  "mm_sequenceIdMap mgr0 = [(''m'', 1)]" "canSendMessage heap0 mgr0 1 = Inr 0"
  by code_simp+

lemma mgr0_ok: "mm_ok heap0 mgr0"
proof -
  let ?m = "MessageManager_default ''fcm''"
  have "mm_ok heap0 ?m" "mm_messages ?m = []"
    by (simp_all add: MessageManager_default_def mm_ok_init, simp add: MessageManager_def)
  moreover from this obtain m where m: "addMessage heap0 1 1 ?m = (Inr (), m)" "mm_ok heap0 m" "mm_messages m = [(1, 1)]"
    using addMessage_spec [of heap0 ?m 1 1] by auto
  moreover from this obtain m' where "addMessage heap0 2 2 m = (Inr (), m')" "mm_ok heap0 m'"
    using addMessage_spec [of heap0 m 2 2] by auto
  ultimately show ?thesis by (simp add: mgr0_def)
qed

subsection \<open>The manager is a sorted queue\<close>

datatype mgr_op = OpAdd int ptr | OpRemove int

fun mgr_step :: "heap \<Rightarrow> mgr_op \<Rightarrow> manager \<Rightarrow> manager" where
  "mgr_step h (OpAdd k p) m = snd (addMessage h k p m)"
| "mgr_step h (OpRemove k) m = snd (removeMessage h k m)"

fun queue_step :: "mgr_op \<Rightarrow> msg_queue \<Rightarrow> msg_queue" where
  "queue_step (OpAdd k p) q = om_emplace k p q"
| "queue_step (OpRemove k) q = om_erase k q"

text \<open>The callers add a message under its own, fresh sequence id.\<close>

fun ops_ok :: "heap \<Rightarrow> msg_queue \<Rightarrow> mgr_op list \<Rightarrow> bool" where
  "ops_ok h q [] = True"
| "ops_ok h q (OpAdd k p # ops) =
     (om_find q k = None \<and> msg_sequenceId (h p) = k \<and> ops_ok h (queue_step (OpAdd k p) q) ops)"
| "ops_ok h q (OpRemove k # ops) = ops_ok h (queue_step (OpRemove k) q) ops"

lemma mgr_step_refines:
  assumes "mm_ok h m"
    and "case op of OpAdd k p \<Rightarrow> om_find (mm_messages m) k = None \<and> msg_sequenceId (h p) = k | OpRemove k \<Rightarrow> True"
  shows "mm_ok h (mgr_step h op m) \<and> mm_messages (mgr_step h op m) = queue_step op (mm_messages m)"
proof (cases op)
  case (OpAdd k p)
  with addMessage_spec [OF assms(1), of k p] assms(2) show ?thesis by auto
next
  case (OpRemove k)
  show ?thesis
  proof (cases "om_find (mm_messages m) k")
    case None
    moreover from this have "om_erase k (mm_messages m) = mm_messages m"
      using mm_okD(1) [OF assms(1)] by (auto simp: om_erase_filter om_find_None_iff intro!: filter_True)
    ultimately show ?thesis using OpRemove assms(1) by (simp add: removeMessage_absent)
  next
    case (Some p)
    with removeMessage_spec [OF assms(1), of k p] OpRemove show ?thesis by auto
  qed
qed

text \<open>C27. Refinement: over any series of additions under fresh sequence ids and removals, the
  manager with its three maps is a plain queue sorted by sequence id, and its group and FCM id
  indexes stay consistent with that queue.\<close>

theorem manager_refines_queue:
  assumes "ops_ok h [] ops"
  shows "let m = fold (mgr_step h) ops (MessageManager sid k) in
    mm_ok h m \<and> mm_messages m = fold queue_step ops []"
proof -
  have "mm_ok h (fold (mgr_step h) ops m) \<and> mm_messages (fold (mgr_step h) ops m) = fold queue_step ops (mm_messages m)"
    if "mm_ok h m" "ops_ok h (mm_messages m) ops" for m
    using that
  proof (induction ops arbitrary: m)
    case (Cons op ops)
    then have "mm_ok h (mgr_step h op m) \<and> mm_messages (mgr_step h op m) = queue_step op (mm_messages m)"
      by (intro mgr_step_refines) (auto split: mgr_op.split)
    with Cons show ?case by (cases op) auto
  qed simp
  from this [of "MessageManager sid k"] assms show ?thesis
    by (simp add: mm_ok_init) (simp add: MessageManager_def)
qed

theorem manager_refines_queue_witness:
  "let m = fold (mgr_step heap0) [OpAdd 2 2, OpAdd 1 1, OpRemove 2] (MessageManager ''fcm'' 100) in
    mm_ok heap0 m \<and> mm_messages m = [(1, 1)]"
proof -
  have "ops_ok heap0 [] [OpAdd 2 2, OpAdd 1 1, OpRemove 2]" by code_simp
  from manager_refines_queue [OF this, of "''fcm''" 100] show ?thesis by (simp add: Let_def)
qed

subsection \<open>What the send tests decide\<close>

text \<open>C28. For a queued message the send test returns 0 exactly when the message is new, fewer than
  100 messages wait for an acknowledgement and, if the message has a group, no message of its
  group is ahead of it; otherwise the code names the first of these rules that fails.  It
  neither throws nor dereferences the end of an empty group.\<close>

theorem canSendMessage_decides:
  assumes "mm_ok h m" and "(s, p) \<in> set (mm_messages m)"
  shows "canSendMessage h m p = Inr
    (if msg_state (h p) \<noteq> NEW then 1
     else if 100 \<le> unat (mm_pendingAckCount m) then 2
     else if msg_groupId (h p) \<noteq> [] \<and>
       (\<exists>e\<in>set (mm_messages m). msg_groupId (h (snd e)) = msg_groupId (h p) \<and> fst e < s) then 3
     else 0)"
  using canSendMessage_spec [OF assms] mm_okD(4) [OF assms]
  by (auto simp: send_code_def head_of_group_def not_le)

theorem canSendMessage_decides_witness: "canSendMessage heap0 mgr0 2 = Inr 3"
proof -
  have m: "(2, 2) \<in> set (mm_messages mgr0)" by (simp add: mgr0_facts)
  show ?thesis
    using canSendMessage_decides [OF mgr0_ok m] by (simp add: mgr0_facts)
qed

text \<open>Strict order in a group: two messages of one group that may both be sent are the same
  message, so a group never has two messages under way on account of this test.\<close>

theorem one_message_per_group:
  assumes "mm_ok h m" and "(j, p) \<in> set (mm_messages m)" and "(k, q) \<in> set (mm_messages m)"
    and "canSendMessage h m p = Inr 0" and "canSendMessage h m q = Inr 0"
    and "msg_groupId (h p) = msg_groupId (h q)" and "msg_groupId (h p) \<noteq> []"
  shows "p = q"
  using assms by (rule mm.one_per_group)

theorem one_message_per_group_witness:
  "{q. \<exists>k. (k, q) \<in> set (mm_messages mgr0) \<and> canSendMessage heap0 mgr0 q = Inr 0 \<and> msg_groupId (heap0 q) = ''g''} = {1}"
proof -
  have m: "(1, 1) \<in> set (mm_messages mgr0)" by (simp add: mgr0_facts)
  have "1 = q" if "(k, q) \<in> set (mm_messages mgr0)" "canSendMessage heap0 mgr0 q = Inr 0" "msg_groupId (heap0 q) = ''g''" for k q
    using one_message_per_group [OF mgr0_ok m that(1) mgr0_facts(4) that(2)] that(3) by simp
  with m mgr0_facts(4) show ?thesis by fastforce
qed

text \<open>\<^verbatim>\<open>getNext\<close> returns the sendable message with the least sequence id, and the null pointer
  exactly when no queued message may be sent.\<close>

theorem getNext_first_sendable:
  assumes "mm_ok h m"
  shows "(\<exists>s p. getNext h m = Inr (Some p) \<and> (s, p) \<in> set (mm_messages m) \<and> canSendMessage h m p = Inr 0 \<and>
            (\<forall>e\<in>set (mm_messages m). canSendMessage h m (snd e) = Inr 0 \<longrightarrow> s \<le> fst e))
       \<or> (getNext h m = Inr None \<and> (\<forall>e\<in>set (mm_messages m). canSendMessage h m (snd e) \<noteq> Inr 0))"
proof -
  let ?P = "\<lambda>e. send_code {NEW} h (mm_messages m) (unat (mm_pendingAckCount m)) (snd e) = 0"
  have code: "canSendMessage h m (snd e) = Inr 0 \<longleftrightarrow> ?P e" if "e \<in> set (mm_messages m)" for e
    using canSendMessage_spec [OF assms, of "fst e" "snd e"] that by simp
  have srt: "sorted_wrt (<) (map fst (mm_messages m))" using mm_okD(1) [OF assms] by (simp add: om_wf_def)
  show ?thesis
  proof (cases "List.find ?P (mm_messages m)")
    case None
    then have "\<forall>e\<in>set (mm_messages m). \<not> ?P e" unfolding find_None_iff by blast
    with None code getNext_find [OF assms] show ?thesis by (intro disjI2) simp
  next
    case (Some e)
    then obtain i where i: "i < length (mm_messages m)" "mm_messages m ! i = e" "?P e"
      "\<forall>j<i. \<not> ?P (mm_messages m ! j)" by (auto simp: find_Some_iff)
    have "fst e \<le> fst e'" if "e' \<in> set (mm_messages m)" "?P e'" for e'
    proof -
      from that(1) obtain j where j: "j < length (mm_messages m)" "mm_messages m ! j = e'"
        by (auto simp: in_set_conv_nth)
      with i that(2) have "i \<le> j" by (meson not_le)
      with srt i j show ?thesis
        by (cases "i = j") (auto simp: sorted_wrt_iff_nth_less order_less_imp_le)
    qed
    moreover have "e \<in> set (mm_messages m)" using i by auto
    ultimately show ?thesis
      using Some code getNext_find [OF assms] i(3)
      by (intro disjI1 exI [of _ "fst e"] exI [of _ "snd e"]) auto
  qed
qed

theorem getNext_first_sendable_witness: "getNext heap0 mgr0 = Inr (Some 1)"
proof -
  have "canSendMessage heap0 mgr0 2 \<noteq> Inr 0" by code_simp
  then show ?thesis
    using getNext_first_sendable [OF mgr0_ok] mgr0_facts(4) by (auto simp: mgr0_facts(1))
qed

subsection \<open>Finding and removing\<close>

text \<open>Removing a queued message takes exactly that message out of the queue, gives back its
  slot if it was waiting for an acknowledgement, and keeps the indexes consistent; removing an
  unknown sequence id throws and changes nothing.\<close>

theorem removeMessage_effect:
  assumes "mm_ok h m"
  shows "case om_find (mm_messages m) s of
     None \<Rightarrow> removeMessage h s m = (Inl (Throw (NoSuchMessage s)), m)
   | Some p \<Rightarrow> (\<exists>m'. removeMessage h s m = (Inr (), m') \<and> mm_ok h m' \<and>
       om_find (mm_messages m') = (om_find (mm_messages m))(s := None) \<and>
       unat (mm_pendingAckCount m') =
         (if msg_state (h p) = PENDING_ACK then unat (mm_pendingAckCount m) - 1 else unat (mm_pendingAckCount m)))"
  using mm.remove_law [OF assms, of s] mm_okD(1) [OF assms]
  by (fastforce simp: removeMessage_absent om_find_erase split: option.split)

theorem removeMessage_effect_witness:
  "\<exists>m'. removeMessage heap0 1 mgr0 = (Inr (), m') \<and> mm_ok heap0 m' \<and> om_find (mm_messages m') 1 = None"
  using removeMessage_effect [OF mgr0_ok, of 1] by (auto simp: mgr0_facts)

text \<open>A message added under fresh ids is found by its FCM id, and after its removal by FCM id
  it is not found.\<close>

theorem find_after_add_and_remove:
  assumes "mm_ok h m" and "om_find (mm_messages m) s = None" and "msg_sequenceId (h p) = s"
    and "om_find (mm_sequenceIdMap m) (msg_fcmMessageId (h p)) = None"
  shows "\<exists>m' m''. addMessage h s p m = (Inr (), m') \<and>
    findMessageWithFcmMsgId m' (msg_fcmMessageId (h p)) = Inr p \<and>
    removeMessageWithFcmMsgId h (msg_fcmMessageId (h p)) m' = (Inr (), m'') \<and>
    findMessageWithFcmMsgId m'' (msg_fcmMessageId (h p)) = Inl (Throw (NoSuchFcmMessageId (msg_fcmMessageId (h p))))"
proof -
  note ok = mm_okD [OF assms(1)]
  obtain m' where m': "addMessage h s p m = (Inr (), m')" "mm_ok h m'"
    "mm_messages m' = om_emplace s p (mm_messages m)"
    "mm_sequenceIdMap m' = om_emplace (msg_fcmMessageId (h p)) s (mm_sequenceIdMap m)"
    using addMessage_spec [OF assms(1-3)] by blast
  then have f: "findSequenceId m' (msg_fcmMessageId (h p)) = Inr s" "om_find (mm_messages m') s = Some p"
    using assms(2,4) ok(1,2) by (simp_all add: findSequenceId_def om_find_emplace)
  from removeMessage_spec [OF m'(2) f(2)] obtain m'' where
    "removeMessage h s m' = (Inr (), m'')"
    "mm_sequenceIdMap m'' = om_erase (msg_fcmMessageId (h p)) (mm_sequenceIdMap m')" by blast
  with m' f show ?thesis
    using mm_okD(2) [OF m'(2)]
    by (auto simp: findMessageWithFcmMsgId_def findMessage_def removeMessageWithFcmMsgId_def monad_defs
        findSequenceId_def om_find_erase)
qed

theorem find_after_add_and_remove_witness:
  "\<exists>m' m''. addMessage heap0 3 3 (MessageManager_default ''fcm'') = (Inr (), m') \<and>
    findMessageWithFcmMsgId m' ''m'' = Inr 3 \<and> removeMessageWithFcmMsgId heap0 ''m'' m' = (Inr (), m'')"
proof -
  let ?m = "MessageManager_default ''fcm''"
  have "mm_ok heap0 ?m" "om_find (mm_messages ?m) 3 = None" "msg_sequenceId (heap0 3) = 3"
    "om_find (mm_sequenceIdMap ?m) (msg_fcmMessageId (heap0 3)) = None"
    by (simp add: MessageManager_default_def mm_ok_init)
      (simp_all add: MessageManager_default_def MessageManager_def)
  from find_after_add_and_remove [OF this] show ?thesis by auto
qed

text \<open>C30. Two queued messages with one FCM id: once the first is removed by that id, the second
  stays queued and can no longer be removed by its id, so an acknowledgement of it is refused.\<close>

theorem duplicate_fcm_id_orphans:
  assumes "mm_ok h m" and "om_find (mm_sequenceIdMap m) f = Some s" and "om_find (mm_messages m) t = Some q"
    and "t \<noteq> s" and "msg_fcmMessageId (h q) = f"
  shows "\<exists>m'. removeMessageWithFcmMsgId h f m = (Inr (), m') \<and> om_find (mm_messages m') t = Some q \<and>
    removeMessageWithFcmMsgId h f m' = (Inl (Throw (NoSuchFcmMessageId f)), m')"
proof -
  note ok = mm_okD [OF assms(1)]
  from ok(7) [OF assms(2)] obtain p where p: "om_find (mm_messages m) s = Some p" "msg_fcmMessageId (h p) = f"
    by blast
  from removeMessage_spec [OF assms(1) p(1)] obtain m' where
    "removeMessage h s m = (Inr (), m')" "mm_messages m' = om_erase s (mm_messages m)"
    "mm_sequenceIdMap m' = om_erase f (mm_sequenceIdMap m)" using p(2) by blast
  with assms ok(1,2) show ?thesis
    by (auto simp: removeMessageWithFcmMsgId_def findSequenceId_def monad_defs om_find_erase)
qed

theorem duplicate_fcm_id_orphans_witness:
  "\<exists>m'. removeMessageWithFcmMsgId heap0 ''m'' mgr0 = (Inr (), m') \<and> om_find (mm_messages m') 2 = Some 2 \<and>
    removeMessageWithFcmMsgId heap0 ''m'' m' = (Inl (Throw (NoSuchFcmMessageId ''m'')), m')"
  by (rule duplicate_fcm_id_orphans [OF mgr0_ok, of "''m''" 1])
    (simp_all add: mgr0_facts)

end
