(* ===== verification/Db.thy ===== *)
theory Db
  imports Manager
begin

text \<open>
  \<^verbatim>\<open>src/dbconnection.h\<close> and \<^verbatim>\<open>src/dbconnection.cpp\<close>: the class \<^verbatim>\<open>DbConnection\<close> and the two callbacks
  it hands to \<^verbatim>\<open>sqlite3_exec\<close>.  The table \<^verbatim>\<open>messages\<close> is a map from the primary key to the rest of
  the row; the statements of the program act on it as their SQL says.  Any call of the engine can
  also fail for reasons of its own (\<^verbatim>\<open>sq_fails\<close>).
\<close>

section \<open>The table and the handle\<close>

text \<open>A column that the schema lets be NULL is an option.\<close>

record row =
  r_entered_datetime :: "string option"
  r_source_session :: string
  r_target_session :: string
  r_type :: int
  r_fcm_message_id :: "string option"
  r_group_id :: "string option"
  r_state :: int
  r_last_update :: "string option"
  r_payload :: string

text \<open>\<open>db_rows\<close> and \<open>db_schema\<close> (the names of the tables and indexes that exist) are the file;
  \<open>db_steps\<close> counts the calls of the engine.\<close>

record db =
  db_sequenceId :: int
  db_rows :: "(int, row) omap"
  db_schema :: "string list"
  db_steps :: nat

text \<open>One call of the engine: whether it fails for an outside reason.\<close>

definition sq_call :: "env \<Rightarrow> (db, bool) M" where
  "sq_call E d = (Inr (sq_fails E (db_steps d)), d \<lparr> db_steps := Suc (db_steps d) \<rparr>)"

text \<open>\<^verbatim>\<open>CREATE ... IF NOT EXISTS\<close>.\<close>

definition create_if_missing :: "string \<Rightarrow> db \<Rightarrow> db" where
  "create_if_missing n d = (if n \<in> set (db_schema d) then d else d \<lparr> db_schema := n # db_schema d \<rparr>)"

section \<open>Opening the database\<close>

definition createDb :: "env \<Rightarrow> (db, unit) M" where
  "createDb E = bindM (sq_call E) (\<lambda>bad. if bad then raise (Throw OpenDbFailed) else ret ())"

definition createTables :: "env \<Rightarrow> (db, unit) M" where
  "createTables E =
     bindM (sq_call E) (\<lambda>bad.
       if bad then raise (Throw (SqlFailed ''messages'')) else modify (create_if_missing ''messages''))"

definition createIndex :: "env \<Rightarrow> (db, unit) M" where
  "createIndex E =
     thenM
       (bindM (sq_call E) (\<lambda>bad.
          if bad then raise (Throw (SqlFailed ''idx_source_session''))
          else modify (create_if_missing ''idx_source_session'')))
       (bindM (sq_call E) (\<lambda>bad.
          if bad then raise (Throw (SqlFailed ''idx_state''))
          else modify (create_if_missing ''idx_state'')))"

text \<open>Preparing a statement fails too when the table it names does not exist.\<close>

definition prepareStatements :: "env \<Rightarrow> (db, unit) M" where
  "prepareStatements E =
     thenM
       (bindM (sq_call E) (\<lambda>bad. bindM (gets db_schema) (\<lambda>sch.
          if bad \<or> ''messages'' \<notin> set sch then raise (Throw (SqlFailed ''insert'')) else ret ())))
       (bindM (sq_call E) (\<lambda>bad. bindM (gets db_schema) (\<lambda>sch.
          if bad \<or> ''messages'' \<notin> set sch then raise (Throw (SqlFailed ''update'')) else ret ())))"

text \<open>The callback for \<^verbatim>\<open>SELECT MAX(sequence_id)\<close>; \<open>cur\<close> is the variable it is handed.\<close>

definition set_sequenceid_callback :: "string option list \<Rightarrow> int \<Rightarrow> int" where
  "set_sequenceid_callback argv cur =
     (if length argv = 1 then
        (case argv ! 0 of None \<Rightarrow> cur | Some t \<Rightarrow> istream_int int64_min int64_max (c_str t))
      else cur)"

definition sql_max_sequence_id :: "(int, row) omap \<Rightarrow> string option" where
  "sql_max_sequence_id rows = (if rows = [] then None else Some (show_int (Max (set (map fst rows)))))"

definition initSequenceId :: "env \<Rightarrow> (db, unit) M" where
  "initSequenceId E =
     thenM (modify (\<lambda>d. d \<lparr> db_sequenceId := 0 \<rparr>))
    (bindM (sq_call E) (\<lambda>bad.
       if bad then raise Exit
       else modify (\<lambda>d. d \<lparr> db_sequenceId :=
              set_sequenceid_callback [sql_max_sequence_id (db_rows d)] (db_sequenceId d) \<rparr>)))"

text \<open>The constructor; it ends the process when a step throws.\<close>

definition DbConnection :: "env \<Rightarrow> (db, unit) M" where
  "DbConnection E d =
     (case thenM (createDb E) (thenM (createTables E) (thenM (createIndex E)
             (thenM (prepareStatements E) (initSequenceId E)))) d of
        (Inl (Throw e), t) \<Rightarrow> (Inl Exit, t)
      | r \<Rightarrow> r)"

section \<open>Statements\<close>

definition getNextSequenceId :: "(db, int) M" where
  "getNextSequenceId d =
     (if db_sequenceId d = int64_max then (Inl (Undefined SignedOverflow), d)
      else (Inr (db_sequenceId d + 1), d \<lparr> db_sequenceId := db_sequenceId d + 1 \<rparr>))"

text \<open>The row \<^verbatim>\<open>saveMsg\<close> binds; the two dates are the column defaults.\<close>

definition bound_row :: "env \<Rightarrow> nat \<Rightarrow> message \<Rightarrow> json \<Rightarrow> row" where
  "bound_row E n msg payload =
     \<lparr> r_entered_datetime = Some (sq_now E n),
       r_source_session = c_str (msg_sourceSessionId msg),
       r_target_session = c_str (msg_targetSessionId msg),
       r_type = MessageType_code (msg_type msg),
       r_fcm_message_id = Some (c_str (msg_fcmMessageId msg)),
       r_group_id = Some (c_str (msg_groupId msg)),
       r_state = MessageState_code (msg_state msg),
       r_last_update = Some (sq_now E n),
       r_payload = c_str (qt_toJson E payload) \<rparr>"

definition saveMsg :: "env \<Rightarrow> message \<Rightarrow> (db, unit) M" where
  "saveMsg E msg =
     (case msg_payload msg of
        None \<Rightarrow> raise (Undefined NullDeref)
      | Some payload \<Rightarrow>
          bindM (gets db_steps) (\<lambda>n. bindM (sq_call E) (\<lambda>bad. bindM (gets db_rows) (\<lambda>rows.
            if bad \<or> om_find rows (msg_sequenceId msg) \<noteq> None
            then raise (Throw (InsertFailed (msg_sequenceId msg)))
            else modify (\<lambda>d. d \<lparr> db_rows := om_emplace (msg_sequenceId msg) (bound_row E n msg payload) (db_rows d) \<rparr>)))))"

definition update_row :: "int \<Rightarrow> string \<Rightarrow> row \<Rightarrow> row" where
  "update_row st date r = r \<lparr> r_state := st, r_last_update := Some date \<rparr>"

definition updateMsgState :: "env \<Rightarrow> message \<Rightarrow> MessageState \<Rightarrow> (db, unit) M" where
  "updateMsgState E msg new_state =
     bindM (gets db_steps) (\<lambda>n. bindM (sq_call E) (\<lambda>bad.
       if bad then raise (Throw (UpdateFailed (msg_sequenceId msg)))
       else modify (\<lambda>d. d \<lparr> db_rows :=
         (case om_find (db_rows d) (msg_sequenceId msg) of
            None \<Rightarrow> db_rows d
          | Some r \<Rightarrow> om_store (msg_sequenceId msg)
                       (update_row (MessageState_code new_state) (sq_now E n) r) (db_rows d)) \<rparr>)))"

section \<open>Loading the pending messages\<close>

text \<open>The text \<^verbatim>\<open>sqlite3_exec\<close> hands to the callback for one row of \<^verbatim>\<open>SELECT *\<close>, in the order of the
  columns of the table.\<close>

definition row_argv :: "int \<Rightarrow> row \<Rightarrow> string option list" where
  "row_argv k r =
     [ Some (show_int k), r_entered_datetime r, Some (r_source_session r), Some (r_target_session r),
       Some (show_int (r_type r)), r_fcm_message_id r, r_group_id r, Some (show_int (r_state r)),
       r_last_update r, Some (r_payload r) ]"

text \<open>A C string as a \<^verbatim>\<open>std::string\<close>, or streamed: a null pointer is undefined.\<close>

definition of_cstring :: "string option \<Rightarrow> fault + string" where
  "of_cstring a = (case a of None \<Rightarrow> Inl (Undefined NullDeref) | Some t \<Rightarrow> Inr (c_str t))"

definition with_cstring :: "string option \<Rightarrow> (string \<Rightarrow> message) \<Rightarrow> fault + message" where
  "with_cstring a f = (case of_cstring a of Inl e \<Rightarrow> Inl e | Inr t \<Rightarrow> Inr (f t))"

text \<open>The body of the loop of \<^verbatim>\<open>load_pending_messages_callback\<close>: one column.  Column 6, the group,
  is read into a local variable only.\<close>

definition load_column :: "env \<Rightarrow> nat \<Rightarrow> string option \<Rightarrow> message \<Rightarrow> fault + message" where
  "load_column E colno a msg =
     (if colno = 0 then with_cstring a (\<lambda>t. msg \<lparr> msg_sequenceId := istream_int int64_min int64_max t \<rparr>)
      else if colno = 1 then with_cstring a (\<lambda>t. msg \<lparr> msg_enteredDatetime := t \<rparr>)
      else if colno = 2 then with_cstring a (\<lambda>t. msg \<lparr> msg_sourceSessionId := t \<rparr>)
      else if colno = 3 then with_cstring a (\<lambda>t. msg \<lparr> msg_targetSessionId := t \<rparr>)
      else if colno = 4 then with_cstring a (\<lambda>t. msg \<lparr> msg_type := MessageType_of_int (istream_int int32_min int32_max t) \<rparr>)
      else if colno = 5 then with_cstring a (\<lambda>t. msg \<lparr> msg_fcmMessageId := t \<rparr>)
      else if colno = 6 then Inr msg
      else if colno = 7 then with_cstring a (\<lambda>t. msg \<lparr> msg_state := MessageState_of_int (istream_int int32_min int32_max t) \<rparr>)
      else if colno = 8 then with_cstring a (\<lambda>t. msg \<lparr> msg_lastUpdateDatetime := t \<rparr>)
      else if colno = 9 then
        Inr (msg \<lparr> msg_payload := Some (qt_fromJson E (case a of None \<Rightarrow> [] | Some t \<Rightarrow> c_str t)) \<rparr>)
      else Inr msg)"

fun load_columns :: "env \<Rightarrow> nat \<Rightarrow> string option list \<Rightarrow> message \<Rightarrow> fault + message" where
  "load_columns E colno [] msg = Inr msg"
| "load_columns E colno (a # argv) msg =
     (case load_column E colno a msg of
        Inl f \<Rightarrow> Inl f
      | Inr msg' \<Rightarrow> load_columns E (Suc colno) argv msg')"

text \<open>The callback allocates a message, fills it, adds it to the manager and prints it.  Its state
  is the heap, the next free address and the manager.\<close>

type_synonym load_state = "heap \<times> ptr \<times> manager"

definition load_pending_messages_callback :: "env \<Rightarrow> string option list \<Rightarrow> (load_state, unit) M" where
  "load_pending_messages_callback E argv st =
     (case st of (h, p, m) \<Rightarrow>
        (case load_columns E 0 argv (Message_default E p) of
           Inl f \<Rightarrow> (Inl f, st)
         | Inr msg \<Rightarrow>
             (let h' = h(p := msg) in
              (case addMessage h' (msg_sequenceId msg) p m of
                 (Inl f, m') \<Rightarrow> (Inl f, (h', Suc p, m'))
               | (Inr _, m') \<Rightarrow>
                   (case message_print E msg of
                      Inl f \<Rightarrow> (Inl f, (h', Suc p, m'))
                    | Inr _ \<Rightarrow> (Inr (), (h', Suc p, m')))))))"

text \<open>\<^verbatim>\<open>WHERE state in (1, 2) AND target_session = '...'\<close>, in key order.\<close>

definition pending_rows :: "string \<Rightarrow> (int, row) omap \<Rightarrow> (int, row) omap" where
  "pending_rows sid rows = filter (\<lambda>(k, r). r_state r \<in> {1, 2} \<and> r_target_session r = sid) rows"

text \<open>The session id goes into the statement as it is: one with a quote or a NUL makes another
  statement, whose rows are the outside world's.\<close>

definition load_statement :: "string \<Rightarrow> string" where
  "load_statement sid =
     ''SELECT * FROM messages WHERE state in (1, 2) AND target_session = '' @ [CHR 0x27] @ sid @ [CHR 0x27]"

definition selected_argvs :: "env \<Rightarrow> string \<Rightarrow> (int, row) omap \<Rightarrow> string option list list" where
  "selected_argvs E sid rows =
     (if CHR 0x27 \<in> set sid \<or> CHR 0x00 \<in> set sid then sq_otherRows E (c_str (load_statement sid))
      else map (\<lambda>(k, r). row_argv k r) (pending_rows sid rows))"

text \<open>A query that fails may fail after some rows, which the callback then has seen.\<close>

definition loadPendingMessages :: "env \<Rightarrow> (db \<times> load_state, unit) M" where
  "loadPendingMessages E =
     bindM (gets (\<lambda>s. db_steps (fst s))) (\<lambda>n.
     bindM (zoom fst (\<lambda>d s. (d, snd s)) (sq_call E)) (\<lambda>bad.
     bindM (gets (\<lambda>s. selected_argvs E (mm_sessionId (snd (snd (snd s)))) (db_rows (fst s)))) (\<lambda>argvs.
       forM (if bad then take (sq_rowsBefore E n) argvs else argvs) (\<lambda>argv. zoom snd (\<lambda>t s. (fst s, t)) (load_pending_messages_callback E argv)))))"

section \<open>The invariant of the handle\<close>

text \<open>Every key is a 64-bit integer not above the last sequence id that was handed out.\<close>

definition db_ok :: "db \<Rightarrow> bool" where
  "db_ok d \<longleftrightarrow> om_wf (db_rows d) \<and> db_sequenceId d \<le> int64_max \<and>
     (\<forall>k\<in>fst ` set (db_rows d). int64_min \<le> k \<and> k \<le> db_sequenceId d)"

lemma getNextSequenceId_ok:
  assumes "db_ok d" and "getNextSequenceId d = (Inr s, d')"
  shows "db_ok d'" "s = db_sequenceId d + 1" "db_sequenceId d' = s" "db_rows d' = db_rows d"
    "om_find (db_rows d) s = None"
proof -
  show s: "s = db_sequenceId d + 1" "db_sequenceId d' = s" "db_rows d' = db_rows d"
    using assms(2) by (auto simp: getNextSequenceId_def split: if_splits)
  show "db_ok d'"
    using assms by (fastforce simp: getNextSequenceId_def db_ok_def int_lims split: if_splits)
  show "om_find (db_rows d) s = None"
    using assms(1) s(1) by (force simp: db_ok_def om_find_None_iff)
qed

lemma getNextSequenceId_fail: "getNextSequenceId d = (Inl f, d') \<Longrightarrow> d' = d \<and> f = Undefined SignedOverflow"
  by (auto simp: getNextSequenceId_def split: if_splits)

text \<open>Saving a message: on success its row is there, on a failure the table is as before.\<close>

lemma saveMsg_cases:
  assumes "msg_payload msg = Some j" and "saveMsg E msg d = (r, d')"
  shows "(r = Inr () \<and> om_find (db_rows d) (msg_sequenceId msg) = None \<and>
      d' = d \<lparr> db_steps := Suc (db_steps d),
               db_rows := om_emplace (msg_sequenceId msg) (bound_row E (db_steps d) msg j) (db_rows d) \<rparr>) \<or>
     (r = Inl (Throw (InsertFailed (msg_sequenceId msg))) \<and> d' = d \<lparr> db_steps := Suc (db_steps d) \<rparr>)"
  using assms by (auto simp: saveMsg_def monad_defs sq_call_def split: if_splits)

lemma updateMsgState_cases:
  assumes "updateMsgState E msg st d = (r, d')"
  shows "(r = Inr () \<and> d' = d \<lparr> db_steps := Suc (db_steps d), db_rows := db_rows d' \<rparr> \<and>
      db_rows d' = (case om_find (db_rows d) (msg_sequenceId msg) of None \<Rightarrow> db_rows d
        | Some w \<Rightarrow> om_store (msg_sequenceId msg) (update_row (MessageState_code st) (sq_now E (db_steps d)) w) (db_rows d))) \<or>
     (r = Inl (Throw (UpdateFailed (msg_sequenceId msg))) \<and> d' = d \<lparr> db_steps := Suc (db_steps d) \<rparr>)"
  using assms by (auto simp: updateMsgState_def monad_defs sq_call_def split: if_splits option.splits)

lemma db_ok_save:
  assumes "db_ok d" and "msg_payload msg \<noteq> None" and "saveMsg E msg d = (r, d')"
    and "int64_min \<le> msg_sequenceId msg" and "msg_sequenceId msg \<le> db_sequenceId d"
  shows "db_ok d'"
proof -
  from assms(2) obtain j where "msg_payload msg = Some j" by blast
  from saveMsg_cases [OF this assms(3)] assms(1,4,5) show ?thesis
    by (elim disjE conjE) (simp_all add: db_ok_def om_wf_emplace set_keys_emplace)
qed

lemma db_ok_update:
  assumes "db_ok d" and "updateMsgState E msg st d = (r, d')"
  shows "db_ok d'" "db_sequenceId d' = db_sequenceId d" "fst ` set (db_rows d') = fst ` set (db_rows d)"
proof -
  from updateMsgState_cases [OF assms(2)]
  have d': "db_sequenceId d' = db_sequenceId d"
    "db_rows d' = db_rows d \<or> (\<exists>w w'. om_find (db_rows d) (msg_sequenceId msg) = Some w \<and>
      db_rows d' = om_store (msg_sequenceId msg) w' (db_rows d))"
    by (auto split: option.splits)
  show "db_sequenceId d' = db_sequenceId d" by (rule d')
  show keys: "fst ` set (db_rows d') = fst ` set (db_rows d)"
    using d'(2) by (elim disjE exE conjE) (simp_all add: set_keys_store insert_absorb om_find_key)
  have "om_wf (db_rows d')"
    using d'(2) assms(1) by (auto simp: db_ok_def om_wf_store)
  with keys d'(1) assms(1) show "db_ok d'" by (simp add: db_ok_def)
qed

section \<open>What the application relies on\<close>

locale durable_log =
  fixes ok :: "'d \<Rightarrow> bool"
    and rows :: "'d \<Rightarrow> (int, row) omap"
    and last_id :: "'d \<Rightarrow> int"
    and next_id :: "('d, int) M"
    and save :: "env \<Rightarrow> message \<Rightarrow> ('d, unit) M"
    and set_state :: "env \<Rightarrow> message \<Rightarrow> MessageState \<Rightarrow> ('d, unit) M"
  assumes rows_wf: "ok d \<Longrightarrow> om_wf (rows d)"
    and next_law: "ok d \<Longrightarrow> next_id d = (Inr s, d') \<Longrightarrow>
      ok d' \<and> rows d' = rows d \<and> om_find (rows d) s = None \<and> last_id d' = s \<and> last_id d < s"
    and save_law: "ok d \<Longrightarrow> msg_payload msg = Some j \<Longrightarrow> int64_min \<le> msg_sequenceId msg \<Longrightarrow>
      msg_sequenceId msg \<le> last_id d \<Longrightarrow> save E msg d = (r, d') \<Longrightarrow>
      ok d' \<and> last_id d' = last_id d \<and>
      (case r of Inr _ \<Rightarrow> \<exists>n. om_find (rows d') = (om_find (rows d))(msg_sequenceId msg \<mapsto> bound_row E n msg j)
       | Inl f \<Rightarrow> f = Throw (InsertFailed (msg_sequenceId msg)) \<and> rows d' = rows d)"
    and set_state_law: "ok d \<Longrightarrow> set_state E msg st d = (r, d') \<Longrightarrow>
      ok d' \<and> last_id d' = last_id d \<and>
      (case r of Inr _ \<Rightarrow> \<exists>date. om_find (rows d') = (\<lambda>k. if k = msg_sequenceId msg
            then map_option (update_row (MessageState_code st) date) (om_find (rows d) k) else om_find (rows d) k)
       | Inl f \<Rightarrow> f = Throw (UpdateFailed (msg_sequenceId msg)) \<and> rows d' = rows d)"
begin

text \<open>Ids that are handed out one after the other are different and in order.\<close>

lemma next_increasing:
  "ok d \<Longrightarrow> next_id d = (Inr s, d') \<Longrightarrow> next_id d' = (Inr t, d'') \<Longrightarrow> s < t"
  using next_law by blast

text \<open>A row that is not the message's own survives a state change and a save.\<close>

lemma set_state_other:
  "ok d \<Longrightarrow> set_state E msg st d = (r, d') \<Longrightarrow> k \<noteq> msg_sequenceId msg \<Longrightarrow>
   om_find (rows d') k = om_find (rows d) k"
  using set_state_law [of d E msg st r d'] by (cases r) auto

lemma save_other:
  "ok d \<Longrightarrow> msg_payload msg = Some j \<Longrightarrow> int64_min \<le> msg_sequenceId msg \<Longrightarrow> msg_sequenceId msg \<le> last_id d \<Longrightarrow>
   save E msg d = (r, d') \<Longrightarrow> k \<noteq> msg_sequenceId msg \<Longrightarrow> om_find (rows d') k = om_find (rows d) k"
  using save_law [of d msg j E r d'] by (cases r) auto

end

interpretation dbl: durable_log db_ok db_rows db_sequenceId getNextSequenceId saveMsg updateMsgState
proof
  fix d d' :: db and s E msg j r st
  show "db_ok d \<Longrightarrow> om_wf (db_rows d)" by (simp add: db_ok_def)
  show "db_ok d' \<and> db_rows d' = db_rows d \<and> om_find (db_rows d) s = None \<and> db_sequenceId d' = s \<and> db_sequenceId d < s"
    if "db_ok d" "getNextSequenceId d = (Inr s, d')"
    using getNextSequenceId_ok [OF that] by simp
  show "db_ok d' \<and> db_sequenceId d' = db_sequenceId d \<and>
      (case r of Inr _ \<Rightarrow> \<exists>n. om_find (db_rows d') = (om_find (db_rows d))(msg_sequenceId msg \<mapsto> bound_row E n msg j)
       | Inl f \<Rightarrow> f = Throw (InsertFailed (msg_sequenceId msg)) \<and> db_rows d' = db_rows d)"
    if "db_ok d" "msg_payload msg = Some j" "int64_min \<le> msg_sequenceId msg"
      "msg_sequenceId msg \<le> db_sequenceId d" "saveMsg E msg d = (r, d')"
    using saveMsg_cases [OF that(2,5)] db_ok_save [OF that(1) _ that(5,3,4)] that(1,2)
    by (auto simp: om_find_emplace db_ok_def)
  show "db_ok d' \<and> db_sequenceId d' = db_sequenceId d \<and>
      (case r of Inr _ \<Rightarrow> \<exists>date. om_find (db_rows d') = (\<lambda>k. if k = msg_sequenceId msg
            then map_option (update_row (MessageState_code st) date) (om_find (db_rows d) k) else om_find (db_rows d) k)
       | Inl f \<Rightarrow> f = Throw (UpdateFailed (msg_sequenceId msg)) \<and> db_rows d' = db_rows d)"
    if "db_ok d" "updateMsgState E msg st d = (r, d')"
    using updateMsgState_cases [OF that(2)] db_ok_update [OF that]
    by (auto simp: om_find_store fun_eq_iff split: option.splits)
qed

section \<open>Facts about loading\<close>

text \<open>The rows the program writes: keys and codes in range, no NULL where the callback needs text.\<close>

definition row_ok :: "int \<Rightarrow> row \<Rightarrow> bool" where
  "row_ok k r \<longleftrightarrow> int64_min \<le> k \<and> k \<le> int64_max \<and> fits32 (r_type r) \<and> fits32 (r_state r) \<and>
     r_fcm_message_id r \<noteq> None \<and> r_entered_datetime r \<noteq> None \<and> r_last_update r \<noteq> None"

text \<open>The message the callback makes of a row.\<close>

definition loaded_msg :: "env \<Rightarrow> ptr \<Rightarrow> int \<Rightarrow> row \<Rightarrow> message" where
  "loaded_msg E p k r =
     (Message_default E p)
       \<lparr> msg_sequenceId := k, msg_enteredDatetime := c_str (the (r_entered_datetime r)),
         msg_sourceSessionId := c_str (r_source_session r), msg_targetSessionId := c_str (r_target_session r),
         msg_type := MessageType_of_int (r_type r), msg_fcmMessageId := c_str (the (r_fcm_message_id r)),
         msg_state := MessageState_of_int (r_state r), msg_lastUpdateDatetime := c_str (the (r_last_update r)),
         msg_payload := Some (qt_fromJson E (c_str (r_payload r))) \<rparr>"

lemma load_columns_row:
  "row_ok k r \<Longrightarrow> load_columns E 0 (row_argv k r) (Message_default E p) = Inr (loaded_msg E p k r)"
  by (auto simp: row_ok_def row_argv_def load_column_def with_cstring_def of_cstring_def loaded_msg_def
      c_str_id [OF show_int_no_nul] istream_show_int fits32_def Message_default_def)

lemma loaded_msg_fields [simp]:
  "msg_sequenceId (loaded_msg E p k r) = k" "msg_groupId (loaded_msg E p k r) = []"
  "msg_payload (loaded_msg E p k r) = Some (qt_fromJson E (c_str (r_payload r)))"
  by (simp_all add: loaded_msg_def Message_default_def)

lemma callback_row:
  assumes "row_ok k r" and "mm_ok h m" and "om_find (mm_messages m) k = None"
    and "\<And>q. q \<in> snd ` set (mm_messages m) \<Longrightarrow> q < p"
  shows "\<exists>m'. load_pending_messages_callback E (row_argv k r) (h, p, m) =
      (Inr (), (h(p := loaded_msg E p k r), Suc p, m')) \<and>
    mm_ok (h(p := loaded_msg E p k r)) m' \<and> mm_messages m' = om_emplace k p (mm_messages m) \<and>
    mm_pendingAckCount m' = mm_pendingAckCount m \<and> mm_sessionId m' = mm_sessionId m"
proof -
  let ?h = "h(p := loaded_msg E p k r)"
  have "mm_ok ?h m" using assms(2,4) by (intro mm_ok_heap [OF assms(2)]) auto
  from addMessage_spec [OF this assms(3), of p] show ?thesis
    using assms(1)
    by (auto simp: load_pending_messages_callback_def load_columns_row Let_def message_print_def)
qed

lemma load_rows:
  assumes "om_wf rs" and "\<forall>(k, r)\<in>set rs. row_ok k r" and "mm_ok h m"
    and "\<forall>q\<in>snd ` set (mm_messages m). q < p"
    and "fst ` set rs \<inter> fst ` set (mm_messages m) = {}"
  shows "\<exists>h' m'. forM (map (\<lambda>(k, r). row_argv k r) rs)
      (\<lambda>argv. zoom snd (\<lambda>t s. (fst s, t)) (load_pending_messages_callback E argv)) (d, (h, p, m)) =
      (Inr (), (d, (h', p + length rs, m'))) \<and>
    mm_ok h' m' \<and> fst ` set (mm_messages m') = fst ` set (mm_messages m) \<union> fst ` set rs \<and>
    mm_pendingAckCount m' = mm_pendingAckCount m \<and> mm_sessionId m' = mm_sessionId m \<and>
    (\<forall>q<p. h' q = h q) \<and> (\<forall>q\<in>snd ` set (mm_messages m'). q < p + length rs) \<and>
    (\<forall>k q. om_find (mm_messages m) k = Some q \<longrightarrow> om_find (mm_messages m') k = Some q) \<and>
    (\<forall>(k, r)\<in>set rs. \<exists>q. om_find (mm_messages m') k = Some q \<and> h' q = loaded_msg E q k r) \<and>
    (\<forall>q. p \<le> q \<and> q < p + length rs \<longrightarrow> (\<exists>k r. h' q = loaded_msg E q k r))"
  using assms
proof (induction rs arbitrary: h p m)
  case Nil
  then show ?case by (auto simp: ret_def)
next
  case (Cons kr rs)
  obtain k r where kr: "kr = (k, r)" by fastforce
  have fresh: "om_find (mm_messages m) k = None" using Cons.prems(5) kr by (simp add: om_find_None_iff)
  obtain m1 where m1: "load_pending_messages_callback E (row_argv k r) (h, p, m) =
      (Inr (), (h(p := loaded_msg E p k r), Suc p, m1))"
    "mm_ok (h(p := loaded_msg E p k r)) m1" "mm_messages m1 = om_emplace k p (mm_messages m)"
    "mm_pendingAckCount m1 = mm_pendingAckCount m" "mm_sessionId m1 = mm_sessionId m"
    using callback_row [OF _ Cons.prems(3) fresh, of r p E] Cons.prems(2,4) kr by auto
  let ?h = "h(p := loaded_msg E p k r)"
  have set1: "set (mm_messages m1) = insert (k, p) (set (mm_messages m))"
    using m1(3) fresh by (simp add: om_emplace_set)
  have ih: "om_wf rs" "\<forall>(k, r)\<in>set rs. row_ok k r" and k: "k \<notin> fst ` set rs"
    using Cons.prems(1,2) kr by (auto simp: om_wf_Cons)
  have ih3: "\<forall>q\<in>snd ` set (mm_messages m1). q < Suc p"
    using set1 Cons.prems(4) by (auto simp: less_Suc_eq)
  have ih4: "fst ` set rs \<inter> fst ` set (mm_messages m1) = {}"
    using Cons.prems(5) kr k set1 by auto
  from Cons.IH [OF ih m1(2) ih3 ih4] obtain h' m' where
    f: "forM (map (\<lambda>(k, r). row_argv k r) rs)
      (\<lambda>argv. zoom snd (\<lambda>t s. (fst s, t)) (load_pending_messages_callback E argv)) (d, (?h, Suc p, m1)) =
      (Inr (), (d, (h', Suc p + length rs, m')))" and
    r: "mm_ok h' m'" "fst ` set (mm_messages m') = fst ` set (mm_messages m1) \<union> fst ` set rs"
    "mm_pendingAckCount m' = mm_pendingAckCount m1" "mm_sessionId m' = mm_sessionId m1"
    "\<forall>q<Suc p. h' q = ?h q" "\<forall>q\<in>snd ` set (mm_messages m'). q < Suc p + length rs"
    "\<forall>k q. om_find (mm_messages m1) k = Some q \<longrightarrow> om_find (mm_messages m') k = Some q"
    "\<forall>(k, r)\<in>set rs. \<exists>q. om_find (mm_messages m') k = Some q \<and> h' q = loaded_msg E q k r"
    "\<forall>q. Suc p \<le> q \<and> q < Suc p + length rs \<longrightarrow> (\<exists>k r. h' q = loaded_msg E q k r)"
    by (elim exE conjE) (rule that)
  have old: "om_find (mm_messages m1) j = Some q" if "om_find (mm_messages m) j = Some q" for j q
    using that m1(3) fresh mm_okD(1) [OF Cons.prems(3)] by (auto simp: om_find_emplace)
  have new: "om_find (mm_messages m1) k = Some p"
    using m1(3) fresh mm_okD(1) [OF Cons.prems(3)] by (simp add: om_find_emplace)
  have hp: "h' p = loaded_msg E p k r" using r(5) by simp
  then have "\<forall>(k, r)\<in>set (kr # rs). \<exists>q. om_find (mm_messages m') k = Some q \<and> h' q = loaded_msg E q k r"
    using r(7) [rule_format, OF new] r(8) kr by simp
  moreover have "forM (map (\<lambda>(k, r). row_argv k r) (kr # rs))
      (\<lambda>argv. zoom snd (\<lambda>t s. (fst s, t)) (load_pending_messages_callback E argv)) (d, (h, p, m)) =
      (Inr (), (d, (h', p + length (kr # rs), m')))"
    using f m1(1) kr by (simp add: thenM_def bindM_def zoom_def)
  moreover have "fst ` set (mm_messages m') = fst ` set (mm_messages m) \<union> fst ` set (kr # rs)"
    using r(2) set1 kr by auto
  moreover have "\<forall>q<p. h' q = h q" using r(5) by auto
  moreover have "\<forall>q\<in>snd ` set (mm_messages m'). q < p + length (kr # rs)" using r(6) by auto
  moreover have "\<forall>k q. om_find (mm_messages m) k = Some q \<longrightarrow> om_find (mm_messages m') k = Some q"
    using old r(7) by blast
  moreover have "\<exists>k r. h' q = loaded_msg E q k r" if "p \<le> q \<and> q < p + length (kr # rs)" for q
    using that hp r(9) [rule_format, of q] by (cases "q = p") auto
  ultimately show ?case using r(1,3,4) m1(4,5) by (intro exI [of _ h'] exI [of _ m'] conjI) simp_all
qed

text \<open>Loading into an empty manager, whether the engine answers or not.\<close>

lemma loadPendingMessages_cases:
  assumes "om_wf (db_rows d)" and "\<forall>(k, r)\<in>set (pending_rows (mm_sessionId m) (db_rows d)). row_ok k r"
    and "CHR 0x27 \<notin> set (mm_sessionId m)" and "CHR 0x00 \<notin> set (mm_sessionId m)"
    and "mm_ok h m" and "mm_messages m = []"
  obtains d' h' p' m' where "loadPendingMessages E (d, (h, p, m)) = (Inr (), (d', (h', p', m')))"
    "db_rows d' = db_rows d" "db_sequenceId d' = db_sequenceId d" "p \<le> p'" "\<And>q. q < p \<Longrightarrow> h' q = h q"
    "\<And>q. p \<le> q \<Longrightarrow> q < p' \<Longrightarrow> \<exists>k r. h' q = loaded_msg E q k r" "mm_ok h' m'"
    "mm_pendingAckCount m' = mm_pendingAckCount m" "mm_sessionId m' = mm_sessionId m"
    "\<And>k q. (k, q) \<in> set (mm_messages m') \<Longrightarrow>
       q < p' \<and> (\<exists>r. (k, r) \<in> set (pending_rows (mm_sessionId m) (db_rows d)) \<and> h' q = loaded_msg E q k r)"
    "\<not> sq_fails E (db_steps d) \<Longrightarrow> fst ` set (mm_messages m') = fst ` set (pending_rows (mm_sessionId m) (db_rows d))"
proof -
  let ?all = "pending_rows (mm_sessionId m) (db_rows d)" and ?d = "d \<lparr> db_steps := Suc (db_steps d) \<rparr>"
  let ?rs = "if sq_fails E (db_steps d) then take (sq_rowsBefore E (db_steps d)) ?all else ?all"
  have wf: "om_wf ?rs" using assms(1) by (simp add: pending_rows_def om_wf_filter om_wf_take)
  have sub: "set ?rs \<subseteq> set ?all" by (simp add: set_take_subset)
  with assms(2) have ok: "\<forall>(k, r)\<in>set ?rs. row_ok k r" by blast
  obtain h' m' where l: "forM (map (\<lambda>(k, r). row_argv k r) ?rs)
      (\<lambda>argv. zoom snd (\<lambda>t s. (fst s, t)) (load_pending_messages_callback E argv)) (?d, (h, p, m)) =
      (Inr (), (?d, (h', p + length ?rs, m')))" "mm_ok h' m'" "fst ` set (mm_messages m') = fst ` set ?rs"
    "mm_pendingAckCount m' = mm_pendingAckCount m" "mm_sessionId m' = mm_sessionId m" "\<forall>q<p. h' q = h q"
    "\<forall>q\<in>snd ` set (mm_messages m'). q < p + length ?rs"
    "\<forall>(k, r)\<in>set ?rs. \<exists>q. om_find (mm_messages m') k = Some q \<and> h' q = loaded_msg E q k r"
    "\<forall>q. p \<le> q \<and> q < p + length ?rs \<longrightarrow> (\<exists>k r. h' q = loaded_msg E q k r)"
    using load_rows [OF wf ok assms(5), of p E ?d] assms(6) by (auto simp del: map_map)
  have "loadPendingMessages E (d, (h, p, m)) = (Inr (), (?d, (h', p + length ?rs, m')))"
    using l(1) assms(3,4)
    by (cases "sq_fails E (db_steps d)") (simp_all add: loadPendingMessages_def bindM_def zoom_def sq_call_def gets_def selected_argvs_def take_map)
  then show ?thesis
  proof (rule that)
    fix k q
    assume kq: "(k, q) \<in> set (mm_messages m')"
    then have "k \<in> fst ` set ?rs" using l(3) by force
    then obtain r where r: "(k, r) \<in> set ?rs" by force
    with l(8) obtain q' where "om_find (mm_messages m') k = Some q'" "h' q' = loaded_msg E q' k r" by blast
    moreover have "q' = q" using kq om_find_iff [OF mm_okD(1) [OF l(2)], of k q] calculation(1) by simp
    ultimately show "q < p + length ?rs \<and> (\<exists>r. (k, r) \<in> set ?all \<and> h' q = loaded_msg E q k r)"
      using r kq l(7) sub by force
  qed (use l in auto)
qed

lemma mm_groups_Nil:
  assumes "mm_ok h m" and "\<And>k q. om_find (mm_messages m) k = Some q \<Longrightarrow> msg_groupId (h q) = []"
  shows "mm_groups m = []"
proof -
  have "group_view h (mm_messages m) g = []" if "g \<noteq> []" for g
    using assms that mm_okD(1) [OF assms(1)]
    by (auto simp: group_view_def filter_empty_conv om_find_iff)
  then have "om_find (mm_groups m) g = None" for g
    using mm_okD(6) [OF assms(1), of g] by (auto simp: group_index_def)
  then have "dom (om_find (mm_groups m)) = {}" by (simp add: dom_def)
  then have "fst ` set (mm_groups m) = {}" by (simp only: om_find_dom)
  then show ?thesis by simp
qed

lemma update_row_eq: "update_row c date = (\<lambda>r. r \<lparr> r_state := c, r_last_update := Some date \<rparr>)"
  by (simp add: update_row_def fun_eq_iff)

section \<open>Facts about opening\<close>

text \<open>Every step of the constructor leaves the rows alone, and fails only by throwing or exiting.\<close>

abbreviation opens :: "(int, row) omap \<Rightarrow> (db \<Rightarrow> bool) \<Rightarrow> (db, unit) M \<Rightarrow> (db \<Rightarrow> bool) \<Rightarrow> bool" where
  "opens R P m Q \<equiv> hoare (\<lambda>d. db_rows d = R \<and> P d) m (\<lambda>_ d. db_rows d = R \<and> Q d)
     (\<lambda>f d. db_rows d = R \<and> (f = Exit \<or> (\<exists>e. f = Throw e)))"

abbreviation has_table :: "db \<Rightarrow> bool" where
  "has_table d \<equiv> ''messages'' \<in> set (db_schema d)"

lemma opening_steps:
  "opens R (\<lambda>_. True) (createDb E) (\<lambda>_. True)"
  "opens R (\<lambda>_. True) (createTables E) has_table"
  "opens R has_table (createIndex E) has_table"
  "opens R has_table (prepareStatements E) has_table"
  "opens R has_table (initSequenceId E)
     (\<lambda>d. has_table d \<and> db_sequenceId d = set_sequenceid_callback [sql_max_sequence_id R] 0)"
  by (auto simp: hoare_def createDb_def createTables_def createIndex_def prepareStatements_def
      initSequenceId_def create_if_missing_def sq_call_def monad_defs)

lemma opening_DbConnection:
  assumes "DbConnection E d = (r, d')"
  shows "db_rows d' = db_rows d" "r = Inl Exit \<or> (r = Inr () \<and> has_table d' \<and>
    db_sequenceId d' = set_sequenceid_callback [sql_max_sequence_id (db_rows d)] 0)"
proof -
  let ?m = "thenM (createDb E) (thenM (createTables E) (thenM (createIndex E)
    (thenM (prepareStatements E) (initSequenceId E))))"
  have "opens (db_rows d) (\<lambda>_. True) ?m
     (\<lambda>d'. has_table d' \<and> db_sequenceId d' = set_sequenceid_callback [sql_max_sequence_id (db_rows d)] 0)"
    by (intro hoare_thenM [OF _ opening_steps(1)] hoare_thenM [OF _ opening_steps(2)]
        hoare_thenM [OF _ opening_steps(3)] hoare_thenM [OF _ opening_steps(4)] opening_steps(5))
  then have "case ?m d of (Inl f, t) \<Rightarrow> db_rows t = db_rows d \<and> (f = Exit \<or> (\<exists>e. f = Throw e))
     | (Inr _, t) \<Rightarrow> db_rows t = db_rows d \<and> has_table t \<and>
         db_sequenceId t = set_sequenceid_callback [sql_max_sequence_id (db_rows d)] 0"
    by (simp add: hoare_def)
  moreover obtain q t where "?m d = (q, t)" by fastforce
  ultimately show "db_rows d' = db_rows d" "r = Inl Exit \<or> (r = Inr () \<and> has_table d' \<and>
    db_sequenceId d' = set_sequenceid_callback [sql_max_sequence_id (db_rows d)] 0)"
    using assms by (cases q; force simp: DbConnection_def split: fault.splits)+
qed

lemma opened_ok:
  assumes "DbConnection E d = (Inr u, d')"
    and "om_wf (db_rows d)" and "\<forall>k\<in>fst ` set (db_rows d). int64_min \<le> k \<and> k \<le> int64_max"
  shows "db_ok d'" "int64_min \<le> db_sequenceId d'" "db_sequenceId d' = 0 \<or> db_sequenceId d' \<in> fst ` set (db_rows d)"
proof -
  let ?s = "if db_rows d = [] then 0 else Max (fst ` set (db_rows d))"
  have "set_sequenceid_callback [sql_max_sequence_id (db_rows d)] 0 = ?s"
  proof (cases "db_rows d = []")
    case False
    then have "Max (fst ` set (db_rows d)) \<in> fst ` set (db_rows d)" by (intro Max_in) auto
    with assms(3) have "int64_min \<le> Max (fst ` set (db_rows d))" "Max (fst ` set (db_rows d)) \<le> int64_max"
      by blast+
    with False show ?thesis
      by (simp add: set_sequenceid_callback_def sql_max_sequence_id_def c_str_id [OF show_int_no_nul] istream_show_int)
  qed (simp add: set_sequenceid_callback_def sql_max_sequence_id_def)
  then have s: "db_sequenceId d' = ?s" and rows: "db_rows d' = db_rows d"
    using opening_DbConnection [OF assms(1)] by auto
  have max: "\<forall>k\<in>fst ` set (db_rows d). k \<le> ?s" by (auto intro: Max_ge)
  show mem: "db_sequenceId d' = 0 \<or> db_sequenceId d' \<in> fst ` set (db_rows d)"
    using Max_in [of "fst ` set (db_rows d)"] s by auto
  then show "int64_min \<le> db_sequenceId d'" using assms(3) by (auto simp: int_lims)
  have "db_sequenceId d' \<le> int64_max" using mem assms(3) by (auto simp: int_lims)
  then show "db_ok d'" using assms(2,3) s rows max by (simp add: db_ok_def)
qed

section \<open>Properties\<close>

text \<open>A stored message for the witnesses: waiting for an acknowledgement, in group \<open>g\<close>.\<close>

definition msg0 :: message where
  "msg0 = Message_new (env0 JNull) 0 7 DOWNSTREAM ''m'' ''g'' ''bal'' ''fcm'' (Some JNull) PENDING_ACK"

definition db0 :: db where
  "db0 = \<lparr> db_sequenceId = 7, db_rows = [], db_schema = [''messages''], db_steps = 0 \<rparr>"

definition db1 :: db where
  "db1 = db0 \<lparr> db_steps := 1, db_rows := [(7, bound_row (env0 JNull) 0 msg0 JNull)] \<rparr>"

lemma db1_saved: "saveMsg (env0 JNull) msg0 db0 = (Inr (), db1)"
  by (simp add: saveMsg_def monad_defs sq_call_def db0_def db1_def msg0_def Message_new_def env0_def)

lemma db1_fields [simp]:
  "om_wf (db_rows db1)" "db_steps db1 = 1" "fst ` set (db_rows db1) = {7}" "sq_fails (env0 j) = (\<lambda>_. False)"
  by (simp_all add: db1_def db0_def env0_def om_wf_def)

lemma db1_row_ok: "row_ok 7 (bound_row (env0 JNull) 0 msg0 JNull)"
  by (simp add: row_ok_def bound_row_def msg0_def Message_new_def int_lims fits32_def)

lemma db1_pending: "pending_rows ''fcm'' (db_rows db1) = [(7, bound_row (env0 JNull) 0 msg0 JNull)]"
  by (simp add: pending_rows_def db1_def db0_def bound_row_def msg0_def Message_new_def c_str_def)

text \<open>Crash recovery: loading the pending messages of a session into its new manager queues
  exactly the table's undelivered rows for that session, each with its own sequence id, and the
  manager is consistent.\<close>

theorem restart_queues_pending_rows:
  assumes "om_wf (db_rows d)" and "\<forall>(k, r)\<in>set (pending_rows sid (db_rows d)). row_ok k r"
    and "CHR 0x27 \<notin> set sid" and "CHR 0x00 \<notin> set sid" and "\<not> sq_fails E (db_steps d)"
  shows "\<exists>h' p' m'. loadPendingMessages E (d, (h, p, MessageManager_default sid)) =
      (Inr (), (d \<lparr> db_steps := Suc (db_steps d) \<rparr>, (h', p', m'))) \<and> mm_ok h' m' \<and>
    fst ` set (mm_messages m') = fst ` set (pending_rows sid (db_rows d)) \<and>
    (\<forall>(k, r)\<in>set (pending_rows sid (db_rows d)). \<exists>q. om_find (mm_messages m') k = Some q \<and>
       msg_sequenceId (h' q) = k \<and> msg_state (h' q) = MessageState_of_int (r_state r) \<and>
       msg_type (h' q) = MessageType_of_int (r_type r) \<and>
       msg_payload (h' q) = Some (qt_fromJson E (c_str (r_payload r))))"
proof -
  have wf: "om_wf (pending_rows sid (db_rows d))" using assms(1) by (simp add: pending_rows_def om_wf_filter)
  have init: "mm_ok h (MessageManager_default sid)" "mm_messages (MessageManager_default sid) = []"
    "mm_sessionId (MessageManager_default sid) = sid"
    by (simp add: MessageManager_default_def mm_ok_init) (simp_all add: MessageManager_default_def MessageManager_def)
  from load_rows [OF wf assms(2) init(1), of p E "d \<lparr> db_steps := Suc (db_steps d) \<rparr>"] init(2,3) assms(3-5)
  show ?thesis
    by (fastforce simp: loadPendingMessages_def bindM_def zoom_def sq_call_def gets_def selected_argvs_def loaded_msg_def)
qed

theorem restart_queues_pending_rows_witness:
  "\<exists>h' p' m'. loadPendingMessages (env0 JNull) (db1, (heap0, 0, MessageManager_default ''fcm'')) =
      (Inr (), (db1 \<lparr> db_steps := Suc (db_steps db1) \<rparr>, (h', p', m'))) \<and>
    mm_ok h' m' \<and> fst ` set (mm_messages m') = {7}"
proof -
  have "\<forall>(k, r)\<in>set (pending_rows ''fcm'' (db_rows db1)). row_ok k r" using db1_pending db1_row_ok by simp
  from restart_queues_pending_rows [OF _ this, of "env0 JNull" heap0 0] show ?thesis
    by (simp add: db1_pending) blast
qed

text \<open>C31. What recovery loses: after loading, no group exists and no message counts as waiting for
  an acknowledgement, whatever group and state the rows carry.\<close>

theorem restart_forgets_groups_and_count:
  assumes "om_wf (db_rows d)" and "\<forall>(k, r)\<in>set (pending_rows sid (db_rows d)). row_ok k r"
    and "CHR 0x27 \<notin> set sid" and "CHR 0x00 \<notin> set sid" and "\<not> sq_fails E (db_steps d)"
  shows "\<exists>d' h' p' m'. loadPendingMessages E (d, (h, p, MessageManager_default sid)) = (Inr (), (d', (h', p', m'))) \<and>
    mm_groups m' = [] \<and> mm_pendingAckCount m' = 0"
proof -
  have wf: "om_wf (pending_rows sid (db_rows d))" using assms(1) by (simp add: pending_rows_def om_wf_filter)
  have init: "mm_ok h (MessageManager_default sid)" "mm_messages (MessageManager_default sid) = []"
    "mm_sessionId (MessageManager_default sid) = sid" "mm_pendingAckCount (MessageManager_default sid) = 0"
    by (simp add: MessageManager_default_def mm_ok_init) (simp_all add: MessageManager_default_def MessageManager_def)
  let ?d = "d \<lparr> db_steps := Suc (db_steps d) \<rparr>"
  obtain h' p' m' where l: "forM (map (\<lambda>(k, r). row_argv k r) (pending_rows sid (db_rows d)))
      (\<lambda>argv. zoom snd (\<lambda>t s. (fst s, t)) (load_pending_messages_callback E argv)) (?d, (h, p, MessageManager_default sid)) =
      (Inr (), (?d, (h', p', m')))" "mm_ok h' m'" "mm_pendingAckCount m' = 0"
    "fst ` set (mm_messages m') = fst ` set (pending_rows sid (db_rows d))"
    "\<forall>(k, r)\<in>set (pending_rows sid (db_rows d)). \<exists>q. om_find (mm_messages m') k = Some q \<and> h' q = loaded_msg E q k r"
    using load_rows [OF wf assms(2) init(1), of p E ?d] init(2,4) by auto
  have "msg_groupId (h' q) = []" if "om_find (mm_messages m') k = Some q" for k q
  proof -
    from om_find_key [OF that] l(4) obtain r where "(k, r) \<in> set (pending_rows sid (db_rows d))" by auto
    with l(5) that show ?thesis by fastforce
  qed
  then have "mm_groups m' = []" using l(2) by (rule mm_groups_Nil [rotated])
  with l(1,3) assms(3-5) init(3) show ?thesis
    by (auto simp: loadPendingMessages_def bindM_def zoom_def sq_call_def gets_def selected_argvs_def)
qed

theorem restart_forgets_groups_and_count_witness:
  "\<exists>d' h' p' m'. loadPendingMessages (env0 JNull) (db1, (heap0, 0, MessageManager_default ''fcm'')) = (Inr (), (d', (h', p', m'))) \<and>
    mm_groups m' = [] \<and> mm_pendingAckCount m' = 0"
  by (rule restart_forgets_groups_and_count)
    (use db1_pending db1_row_ok in simp_all)

text \<open>C33. Round trip: what \<^verbatim>\<open>saveMsg\<close> writes for a message the load callback reads back, field by
  field, except for the group id, which comes back empty.\<close>

theorem save_load_roundtrip:
  assumes "msg_payload msg = Some j" and "json_text_ok E j"
    and "int64_min \<le> msg_sequenceId msg" "msg_sequenceId msg \<le> int64_max"
    and "declared_type (msg_type msg)" and "declared_state (msg_state msg)"
    and "CHR 0x00 \<notin> set (msg_sourceSessionId msg)" "CHR 0x00 \<notin> set (msg_targetSessionId msg)"
      "CHR 0x00 \<notin> set (msg_fcmMessageId msg)"
  shows "\<exists>msg'. load_columns E 0 (row_argv (msg_sequenceId msg) (bound_row E n msg j)) (Message_default E p) = Inr msg' \<and>
    msg_sequenceId msg' = msg_sequenceId msg \<and> msg_sourceSessionId msg' = msg_sourceSessionId msg \<and>
    msg_targetSessionId msg' = msg_targetSessionId msg \<and> msg_type msg' = msg_type msg \<and>
    msg_fcmMessageId msg' = msg_fcmMessageId msg \<and> msg_state msg' = msg_state msg \<and>
    msg_payload msg' = Some j \<and> msg_groupId msg' = []"
proof -
  have "fits32 (MessageType_code (msg_type msg))"
    using assms(5) by (cases "msg_type msg") (simp_all add: fits32_def int_lims)
  moreover have "fits32 (MessageState_code (msg_state msg))"
    using assms(6) by (cases "msg_state msg") (simp_all add: fits32_def int_lims)
  ultimately have "row_ok (msg_sequenceId msg) (bound_row E n msg j)"
    using assms(3,4) by (simp add: row_ok_def bound_row_def)
  from load_columns_row [OF this] assms show ?thesis
    by (simp add: loaded_msg_def bound_row_def c_str_id json_text_ok_def MessageType_roundtrip MessageState_roundtrip
        Message_default_def)
qed

theorem save_load_roundtrip_witness:
  "\<exists>msg'. load_columns (env0 JNull) 0 (row_argv 7 (bound_row (env0 JNull) 0 msg0 JNull)) (Message_default (env0 JNull) 1) = Inr msg' \<and>
    msg_fcmMessageId msg' = ''m'' \<and> msg_state msg' = PENDING_ACK \<and> msg_groupId msg' = []"
  using save_load_roundtrip [of msg0 JNull "env0 JNull" 0 1] env0_text [of JNull]
  by (fastforce simp: msg0_def Message_new_def int_lims)

text \<open>The sequence id a freshly opened database hands out is in no row of the file, and is
  greater than every key of the file; opening itself either ends the process or leaves the rows
  as they were, never an exception.\<close>

theorem opened_database_gives_fresh_ids:
  assumes "om_wf (db_rows d)" and "\<forall>k\<in>fst ` set (db_rows d). int64_min \<le> k \<and> k \<le> int64_max"
  shows "case DbConnection E d of
     (Inl f, d') \<Rightarrow> f = Exit \<and> db_rows d' = db_rows d
   | (Inr _, d') \<Rightarrow> db_ok d' \<and> db_rows d' = db_rows d \<and> ''messages'' \<in> set (db_schema d') \<and>
       (case getNextSequenceId d' of
          (Inr s, d'') \<Rightarrow> om_find (db_rows d) s = None \<and> (\<forall>k\<in>fst ` set (db_rows d). k < s)
        | (Inl f, d'') \<Rightarrow> int64_max \<in> fst ` set (db_rows d))"
proof -
  obtain r d' where c: "DbConnection E d = (r, d')" by fastforce
  note frame = opening_DbConnection [OF c]
  show ?thesis
  proof (cases r)
    case (Inl f)
    with c frame show ?thesis by auto
  next
    case (Inr u)
    note o = opened_ok [OF c [unfolded Inr] assms]
    obtain q d'' where q: "getNextSequenceId d' = (q, d'')" by fastforce
    moreover have "om_find (db_rows d) s = None \<and> (\<forall>k\<in>fst ` set (db_rows d). k < s)" if "q = Inr s" for s
      using getNextSequenceId_ok(2,5) [OF o(1), of s d''] q that frame(1) o(1) by (fastforce simp: db_ok_def)
    moreover have "int64_max \<in> fst ` set (db_rows d)" if "q = Inl f" for f
      using q that o(3) by (auto simp: getNextSequenceId_def int_lims split: if_splits)
    ultimately show ?thesis
      using c Inr frame o(1) by (cases q) auto
  qed
qed

theorem opened_database_gives_fresh_ids_witness:
  "db_ok (snd (DbConnection (env0 JNull) db1))"
proof -
  have "fst (DbConnection (env0 JNull) db1) = Inr ()" by code_simp
  then show ?thesis
    using opened_database_gives_fresh_ids [of db1 "env0 JNull"]
    by (auto simp: db1_def db0_def int_lims om_wf_def split: prod.splits)
qed

text \<open>A state change rewrites the state and the date of the message's own row, and nothing
  else in the table; when the engine refuses it, it throws and the table is unchanged.\<close>

theorem updateMsgState_touches_one_row:
  assumes "db_ok d"
  shows "case updateMsgState E msg st d of
     (Inl f, d') \<Rightarrow> f = Throw (UpdateFailed (msg_sequenceId msg)) \<and> db_rows d' = db_rows d
   | (Inr _, d') \<Rightarrow> \<exists>date. om_find (db_rows d') = (\<lambda>k. if k = msg_sequenceId msg
        then map_option (\<lambda>r. r \<lparr> r_state := MessageState_code st, r_last_update := Some date \<rparr>) (om_find (db_rows d) k)
        else om_find (db_rows d) k)"
proof (cases "updateMsgState E msg st d")
  case (Pair r d')
  from dbl.set_state_law [OF assms Pair, unfolded update_row_eq] Pair show ?thesis
    by (cases r) simp_all
qed

theorem updateMsgState_touches_one_row_witness:
  "\<exists>d'. updateMsgState (env0 JNull) msg0 DELIVERED db1 = (Inr (), d') \<and>
    map_option r_state (om_find (db_rows d') 7) = Some 3"
proof -
  have ok: "db_ok db1" by (simp add: db_ok_def db1_def db0_def int_lims om_wf_def)
  obtain d' where d': "updateMsgState (env0 JNull) msg0 DELIVERED db1 = (Inr (), d')"
    by (auto simp: updateMsgState_def monad_defs sq_call_def env0_def)
  with updateMsgState_touches_one_row [OF ok, where E = "env0 JNull" and msg = msg0 and st = DELIVERED] show ?thesis
    by (auto simp: msg0_def Message_new_def db1_def db0_def)
qed

end
