(* ===== verification/Bal_Session.thy ===== *)
theory Bal_Session
  imports Manager
begin

text \<open>
  \<^verbatim>\<open>src/balsession.h\<close> and \<^verbatim>\<open>src/balsession.cpp\<close>: a connection accepted from a business application
  (\<^verbatim>\<open>BALConn\<close>) and the session a configured application has (\<^verbatim>\<open>BALSession\<close>).  One \<^verbatim>\<open>BALConn\<close> is
  made per accepted socket, so a socket's number also names its connection object.
\<close>

type_synonym sock = nat

text \<open>\<^verbatim>\<open>enum class SessionState: char\<close>.\<close>

datatype SessionState = UNAUTHENTICATED | AUTHENTICATED

fun SessionState_char :: "SessionState \<Rightarrow> char" where
  "SessionState_char UNAUTHENTICATED = CHR ''U''"
| "SessionState_char AUTHENTICATED = CHR ''A''"

text \<open>The timer context is the object a pending logon timer is tied to: deleting it cancels the
  timer.\<close>

record balconn =
  bc_socket :: sock
  bc_timerContext :: bool

definition BALConn :: "sock \<Rightarrow> balconn" where
  "BALConn s = \<lparr> bc_socket = s, bc_timerContext = True \<rparr>"

text \<open>\<^verbatim>\<open>BALConn::deleteTimerContext\<close>.  The destructor, which needs the owners of the object, is in \<open>App\<close>.\<close>

definition deleteTimerContext :: "balconn \<Rightarrow> balconn" where
  "deleteTimerContext c = c \<lparr> bc_timerContext := False \<rparr>"

record balsession =
  bs_balConn :: "sock option"
  bs_sessionId :: string
  bs_state :: SessionState
  bs_msgManager :: manager

definition BALSession :: "string \<Rightarrow> SessionState \<Rightarrow> balsession" where
  "BALSession sessid state =
     \<lparr> bs_balConn = None, bs_sessionId = sessid, bs_state = state,
       bs_msgManager = MessageManager_default sessid \<rparr>"

text \<open>The sockets: how many writes were made, and the bytes written, in order.\<close>

record wire =
  w_count :: nat
  w_out :: "(sock \<times> string) list"

text \<open>\<^verbatim>\<open>QTcpSocket::write\<close>: \<open>False\<close> for the result \<open>-1\<close>.\<close>

definition sock_write :: "env \<Rightarrow> sock \<Rightarrow> string \<Rightarrow> (wire, bool) M" where
  "sock_write E s bytes w =
     (if qt_writeFails E (w_count w) then (Inr False, w \<lparr> w_count := Suc (w_count w) \<rparr>)
      else (Inr True, w \<lparr> w_count := Suc (w_count w), w_out := w_out w @ [(s, bytes)] \<rparr>))"

text \<open>\<^verbatim>\<open>BALSession::writeMessage\<close>.\<close>

definition writeMessage :: "env \<Rightarrow> balsession \<Rightarrow> json \<Rightarrow> (wire, unit) M" where
  "writeMessage E sess jsonmsg =
     (if bs_state sess = AUTHENTICATED then
        (case bs_balConn sess of
           None \<Rightarrow> raise (Undefined NullDeref)
         | Some s \<Rightarrow>
             bindM (sock_write E s (qt_frame E (qt_toBinaryData E jsonmsg))) (\<lambda>ok.
               if \<not> ok then raise (Throw (WriteFailed (bs_sessionId sess))) else ret ()))
      else raise (Throw (InvalidSessionState (bs_sessionId sess))))"

text \<open>\<^verbatim>\<open>BALSession::disconnectFromHost\<close>.\<close>

definition disconnectFromHost :: "balsession \<Rightarrow> balsession" where
  "disconnectFromHost sess =
     (if bs_state sess = AUTHENTICATED then sess \<lparr> bs_balConn := None \<rparr> else sess)"

section \<open>Facts\<close>

text \<open>An authenticated session has a connection.\<close>

definition bs_ok :: "balsession \<Rightarrow> bool" where
  "bs_ok sess \<longleftrightarrow> (bs_state sess = AUTHENTICATED \<longrightarrow> bs_balConn sess \<noteq> None)"

lemma writeMessage_cases:
  assumes "bs_ok sess" and "writeMessage E sess j w = (r, w')"
  shows "(\<exists>s. r = Inr () \<and> bs_state sess = AUTHENTICATED \<and> bs_balConn sess = Some s \<and>
            w_out w' = w_out w @ [(s, qt_frame E (qt_toBinaryData E j))]) \<or>
         (r = Inl (Throw (WriteFailed (bs_sessionId sess))) \<and> w_out w' = w_out w) \<or>
         (r = Inl (Throw (InvalidSessionState (bs_sessionId sess))) \<and> bs_state sess = UNAUTHENTICATED \<and> w' = w)"
proof (cases "bs_state sess")
  case UNAUTHENTICATED
  with assms(2) show ?thesis by (simp add: writeMessage_def raise_def)
next
  case AUTHENTICATED
  with assms(1) obtain s where "bs_balConn sess = Some s" by (auto simp: bs_ok_def)
  with AUTHENTICATED assms(2) show ?thesis
    by (auto simp: writeMessage_def sock_write_def monad_defs split: if_splits)
qed

text \<open>What a session writes, its peer reads: the frame on the session's socket carries the
  binary form of the document, and decoding it gives the document back.  An unauthenticated
  session writes nothing and throws.\<close>

theorem writeMessage_peer_reads:
  assumes "bs_ok sess" and "frames_ok E" and "json_binary_ok E j"
  shows "case writeMessage E sess j w of
     (Inr _, w') \<Rightarrow> \<exists>s bytes. bs_balConn sess = Some s \<and> w_out w' = w_out w @ [(s, bytes)] \<and>
       (\<forall>rest. map_option (\<lambda>(b, r). (qt_fromBinaryData E b, r)) (qt_unframe E (bytes @ rest)) = Some (j, rest))
   | (Inl f, w') \<Rightarrow> w_out w' = w_out w \<and> (f = Throw (WriteFailed (bs_sessionId sess)) \<or>
       f = Throw (InvalidSessionState (bs_sessionId sess)) \<and> bs_state sess = UNAUTHENTICATED)"
proof (cases "writeMessage E sess j w")
  case (Pair r w')
  from writeMessage_cases [OF assms(1) Pair] Pair assms(2,3) show ?thesis
    by (auto simp: frames_ok_def json_binary_ok_def)
qed

theorem writeMessage_peer_reads_witness:
  "\<exists>w' bytes. writeMessage (env0 JNull) ((BALSession ''bal'' AUTHENTICATED) \<lparr> bs_balConn := Some 3 \<rparr>) JNull
      \<lparr> w_count = 0, w_out = [] \<rparr> = (Inr (), w') \<and> w_out w' = [(3, bytes)] \<and>
    map_option (\<lambda>(b, r). (qt_fromBinaryData (env0 JNull) b, r)) (qt_unframe (env0 JNull) (bytes @ ''x'')) = Some (JNull, ''x'')"
proof -
  let ?s = "(BALSession ''bal'' AUTHENTICATED) \<lparr> bs_balConn := Some 3 \<rparr>"
  let ?w = "\<lparr> w_count = 0, w_out = [] \<rparr>"
  have ok: "bs_ok ?s" by (simp add: bs_ok_def)
  obtain w' where "writeMessage (env0 JNull) ?s JNull ?w = (Inr (), w')"
    by (auto simp: writeMessage_def sock_write_def monad_defs BALSession_def env0_def)
  moreover from this obtain bytes where "w_out w' = [(3, bytes)]"
    "\<And>rest. map_option (\<lambda>(b, r). (qt_fromBinaryData (env0 JNull) b, r)) (qt_unframe (env0 JNull) (bytes @ rest)) = Some (JNull, rest)"
    using writeMessage_peer_reads [OF ok env0_frames [of JNull] env0_binary [of JNull], where w = ?w] by auto
  ultimately show ?thesis by blast
qed

end
