(* ===== verification/Fcm.thy ===== *)
theory Fcm
  imports Message
begin

text \<open>
  \<^verbatim>\<open>src/fcmconnection.h\<close> and \<^verbatim>\<open>src/fcmconnection.cpp\<close>: the class \<^verbatim>\<open>FcmConnection\<close>, the XMPP side.
  Qt's XML reader is a parameter: its state is a number that only the functions of \<open>xml_api\<close>
  read.  What a method does to the outside (signals it emits, XML and bytes it writes, timers it
  starts) is a list of actions, in the order the method does them.  The loops over the reader take
  fuel; \<open>xml_progress\<close> is the documented fact that a reader moves forward over a finite
  input, and under it the fuel is enough.
\<close>

section \<open>The XML reader\<close>

datatype xml_error = NoXmlError | PrematureEndOfDocumentError | OtherXmlError string

record xml_api =
  x_addData :: "string \<Rightarrow> nat \<Rightarrow> nat"
  x_readNextStartElement :: "nat \<Rightarrow> bool \<times> nat"
  x_name :: "nat \<Rightarrow> string"
  x_namespaceUri :: "nat \<Rightarrow> string"
  x_attribute :: "nat \<Rightarrow> string \<Rightarrow> string"
  x_readElementText :: "nat \<Rightarrow> string \<times> nat"
  x_skipCurrentElement :: "nat \<Rightarrow> nat"
  x_atEnd :: "nat \<Rightarrow> bool"
  x_readNext :: "nat \<Rightarrow> nat"
  x_isEndDocument :: "nat \<Rightarrow> bool"
  x_error :: "nat \<Rightarrow> xml_error"

section \<open>State, signals and actions\<close>

definition DEFAULT_NSPACE_URI :: string where "DEFAULT_NSPACE_URI = ''jabber:client''"
definition STREAM_NSPACE_URI :: string where "STREAM_NSPACE_URI = ''http://etherx.jabber.org/streams''"
definition SASL_NSPACE_URI :: string where "SASL_NSPACE_URI = ''urn:ietf:params:xml:ns:xmpp-sasl''"
definition BIND_NSPACE_URI :: string where "BIND_NSPACE_URI = ''urn:ietf:params:xml:ns:xmpp-bind''"
definition SESSION_NSPACE_URI :: string where "SESSION_NSPACE_URI = ''urn:ietf:params:xml:ns:xmpp-session''"
definition GCM_NSPACE_URI :: string where "GCM_NSPACE_URI = ''google:mobile:data''"
definition WAIT_TIME_BEFORE_DISCONNECT :: int where "WAIT_TIME_BEFORE_DISCONNECT = 50"

datatype FcmSessionState = FS_UNKNOWN | FS_AUTHENTICATED

datatype err_text = ErrText string | ErrWhat exn

datatype fcm_signal =
    connectionStarted int
  | connectionEstablished int
  | connectionShutdownStarted int
  | connectionShutdownCompleted int
  | connectionLost int
  | connectionError int err_text
  | connectionDrainingStarted int
  | connectionDrainingCompleted int
  | xmppHandshakeStarted int
  | saslSucess int
  | streamOpened int
  | streamClosed int
  | sessionEstablished int
  | heartbeatRecieved int
  | newMessage int json
  | newAckMessage int json
  | newNackMessage int json
  | newReceiptMessage int json

text \<open>The methods a single-shot timer of the connection calls.\<close>

datatype fcm_timer = TConnectToFirebase | TSendAuthenticationInfo | TSendIQBind | TStartNewStream

datatype xml_out =
    StartDocument | StartElement string | Attribute string string | Characters string
  | EndElement | EndDocument

datatype fcm_act =
    Emit fcm_signal
  | Xml xml_out
  | SocketWrite string
  | SocketClose
  | ConnectToHostEncrypted string "16 word"
  | SingleShot int fcm_timer
  | Sleep int

text \<open>\<open>fc_readyReadSlots\<close> counts the connections of the socket's \<^verbatim>\<open>readyRead\<close> signal to
  \<^verbatim>\<open>handleReadyRead\<close>; \<open>fc_acts\<close> are the actions so far.\<close>

record fcmconn =
  fc_reader :: nat
  fc_serverId :: string
  fc_serverKey :: string
  fc_hostAddress :: string
  fc_portNo :: "16 word"
  fc_authMethodVect :: "string list"
  fc_state :: FcmSessionState
  fc_expBoff :: backoff
  fc_connectionDrainingInProgress :: bool
  fc_id :: int
  fc_readyReadSlots :: nat
  fc_acts :: "fcm_act list"

definition act :: "fcm_act \<Rightarrow> (fcmconn, unit) M" where
  "act a = modify (\<lambda>c. c \<lparr> fc_acts := fc_acts c @ [a] \<rparr>)"

text \<open>\<^verbatim>\<open>emit s(__id, ...)\<close>.\<close>

definition emit :: "(int \<Rightarrow> fcm_signal) \<Rightarrow> (fcmconn, unit) M" where
  "emit s = bindM (gets fc_id) (\<lambda>i. act (Emit (s i)))"

definition acts :: "fcm_act list \<Rightarrow> (fcmconn, unit) M" where
  "acts xs = forM xs act"

section \<open>Construction and connection\<close>

definition FcmConnection :: "nat \<Rightarrow> nat \<Rightarrow> int \<Rightarrow> fcmconn" where
  "FcmConnection seed reader0 i =
     \<lparr> fc_reader = reader0, fc_serverId = [], fc_serverKey = [], fc_hostAddress = [], fc_portNo = 0,
       fc_authMethodVect = [], fc_state = FS_UNKNOWN, fc_expBoff = ExponentialBackoff seed NO_MAX_RETRY,
       fc_connectionDrainingInProgress = False, fc_id = i, fc_readyReadSlots = 0, fc_acts = [] \<rparr>"

definition connectToFirebase :: "(fcmconn, unit) M" where
  "connectToFirebase =
     thenM (emit connectionStarted)
    (bindM (gets (\<lambda>c. (fc_hostAddress c, fc_portNo c))) (\<lambda>(host, port).
       act (ConnectToHostEncrypted host port)))"

definition connectToFcm :: "string \<Rightarrow> string \<Rightarrow> string \<Rightarrow> 16 word \<Rightarrow> (fcmconn, unit) M" where
  "connectToFcm server_id server_key host port_no =
     thenM (modify (\<lambda>c. c \<lparr> fc_serverId := server_id, fc_serverKey := server_key,
                            fc_hostAddress := host, fc_portNo := port_no \<rparr>))
           connectToFirebase"

text \<open>The slot for \<^verbatim>\<open>sslErrors\<close> that \<^verbatim>\<open>connectToFcm\<close> connects: every error is reported.\<close>

definition handleSslErrors :: "string list \<Rightarrow> (fcmconn, unit) M" where
  "handleSslErrors errors = forM errors (\<lambda>e. emit (\<lambda>i. connectionError i (ErrText e)))"

definition stream_header :: "fcm_act list" where
  "stream_header =
     [ Xml (StartElement ''stream:stream''), Xml (Attribute ''to'' ''gcm.googleapis.com''),
       Xml (Attribute ''version'' ''1.0''), Xml (Attribute ''xmlns'' ''jabber:client''),
       Xml (Attribute ''xmlns:stream'' ''http://etherx.jabber.org/streams''), SocketWrite ''>'' ]"

definition socketEncrypted :: "(fcmconn, unit) M" where
  "socketEncrypted =
     thenM (emit connectionEstablished)
    (thenM (modify (\<lambda>c. c \<lparr> fc_readyReadSlots := Suc (fc_readyReadSlots c) \<rparr>))
    (thenM (emit xmppHandshakeStarted)
           (acts (Xml StartDocument # stream_header))))"

definition handleDisconnected :: "env \<Rightarrow> (fcmconn, unit) M" where
  "handleDisconnected E =
     thenM (modify (\<lambda>c. c \<lparr> fc_state := FS_UNKNOWN \<rparr>))
    (bindM (gets fc_connectionDrainingInProgress) (\<lambda>draining.
       if draining = False then
         thenM (emit connectionLost)
        (bindM (zoom fc_expBoff (\<lambda>b c. c \<lparr> fc_expBoff := b \<rparr>) (backoff_next E)) (\<lambda>msec.
           act (SingleShot msec TConnectToFirebase)))
       else emit connectionDrainingCompleted))"

text \<open>\<^verbatim>\<open>blockSignals(true); m; blockSignals(false)\<close>: what the object itself emits meanwhile is lost.\<close>

definition is_emit :: "fcm_act \<Rightarrow> bool" where
  "is_emit x = (case x of Emit _ \<Rightarrow> True | _ \<Rightarrow> False)"

definition blockSignals :: "(fcmconn, unit) M \<Rightarrow> (fcmconn, unit) M" where
  "blockSignals m c =
     (case m (c \<lparr> fc_acts := [] \<rparr>) of (r, c') \<Rightarrow>
        (r, c' \<lparr> fc_acts := fc_acts c @ filter (\<lambda>x. \<not> is_emit x) (fc_acts c') \<rparr>))"

text \<open>The destructor; \<open>is_connected\<close> is whether the socket is in the connected state.  Only the signals of the
  connection are blocked while the socket closes: those of the socket are not, so the slot for its
  \<^verbatim>\<open>disconnected\<close> runs when \<^verbatim>\<open>close\<close> emits it at once (\<open>closes_now\<close>), which Qt does unless
  bytes still wait to be written.\<close>

definition FcmConnection_destroy :: "env \<Rightarrow> bool \<Rightarrow> bool \<Rightarrow> (fcmconn, unit) M" where
  "FcmConnection_destroy E is_connected closes_now =
     thenM (emit connectionShutdownStarted)
    (thenM (whenM is_connected
              (thenM (acts [SocketWrite ''</stream:stream>'', Sleep WAIT_TIME_BEFORE_DISCONNECT])
                     (blockSignals (thenM (act SocketClose) (whenM closes_now (handleDisconnected E))))))
           (emit connectionShutdownCompleted))"

section \<open>Writing\<close>

definition sendAuthenticationInfo :: "env \<Rightarrow> (fcmconn, unit) M" where
  "sendAuthenticationInfo E =
     bindM (gets (\<lambda>c. (fc_serverId c, fc_serverKey c))) (\<lambda>(server_id, server_key).
       (let a1 = c_str server_id @ ''@gcm.googleapis.com'';
            a2 = CHR 0x00 # a1;
            a3 = a2 @ [CHR 0x00];
            a4 = a3 @ c_str server_key
        in acts [ Xml (StartElement ''auth''), Xml (Attribute ''mechanism'' ''PLAIN''),
                  Xml (Attribute ''xmlns'' ''urn:ietf:params:xml:ns:xmpp-sasl''),
                  Xml (Characters (qt_toBase64 E a4)), Xml EndElement ]))"

definition startNewStream :: "(fcmconn, unit) M" where
  "startNewStream = thenM (acts stream_header) (emit streamOpened)"

definition sendIQBind :: "(fcmconn, unit) M" where
  "sendIQBind =
     acts [ Xml (StartElement ''iq''), Xml (Attribute ''type'' ''set''), Xml (StartElement ''bind''),
            Xml (Attribute ''xmlns'' ''urn:ietf:params:xml:ns:xmpp-bind''), Xml EndElement, Xml EndElement ]"

definition message_stanza :: "env \<Rightarrow> json \<Rightarrow> fcm_act list" where
  "message_stanza E data =
     [ Xml (StartElement ''message''), Xml (Attribute ''id'' ''''), Xml (StartElement ''gcm''),
       Xml (Attribute ''xmlns'' GCM_NSPACE_URI), Xml (Characters (qt_toJsonIndented E data)),
       Xml EndElement, Xml EndElement ]"

definition handleSendMessage :: "env \<Rightarrow> json \<Rightarrow> (fcmconn, unit) M" where
  "handleSendMessage E data = acts (message_stanza E data)"

section \<open>Reading\<close>

definition readNextStartElement :: "xml_api \<Rightarrow> (fcmconn, bool) M" where
  "readNextStartElement X c =
     (case x_readNextStartElement X (fc_reader c) of (b, r) \<Rightarrow> (Inr b, c \<lparr> fc_reader := r \<rparr>))"

definition readElementText :: "xml_api \<Rightarrow> (fcmconn, string) M" where
  "readElementText X c =
     (case x_readElementText X (fc_reader c) of (t, r) \<Rightarrow> (Inr t, c \<lparr> fc_reader := r \<rparr>))"

definition skipCurrentElement :: "xml_api \<Rightarrow> (fcmconn, unit) M" where
  "skipCurrentElement X = modify (\<lambda>c. c \<lparr> fc_reader := x_skipCurrentElement X (fc_reader c) \<rparr>)"

text \<open>The element the reader is at has this name, and this name and namespace.\<close>

definition at_name :: "xml_api \<Rightarrow> string \<Rightarrow> fcmconn \<Rightarrow> bool" where
  "at_name X n c \<longleftrightarrow> x_name X (fc_reader c) = n"

definition at_elem :: "xml_api \<Rightarrow> string \<Rightarrow> string \<Rightarrow> fcmconn \<Rightarrow> bool" where
  "at_elem X n ns c \<longleftrightarrow> x_name X (fc_reader c) = n \<and> x_namespaceUri X (fc_reader c) = ns"

text \<open>\<^verbatim>\<open>while (__fcmReader.readNextStartElement()) body\<close>.\<close>

primrec start_loop :: "nat \<Rightarrow> xml_api \<Rightarrow> (fcmconn, unit) M \<Rightarrow> (fcmconn, unit) M" where
  "start_loop 0 X body = raise OutOfFuel"
| "start_loop (Suc n) X body =
     bindM (readNextStartElement X) (\<lambda>b. if b then thenM body (start_loop n X body) else ret ())"

definition handleStartStream :: "(fcmconn, unit) M" where
  "handleStartStream = ret ()"

definition readMechanism :: "xml_api \<Rightarrow> (fcmconn, unit) M" where
  "readMechanism X =
     bindM (readElementText X) (\<lambda>method.
       modify (\<lambda>c. c \<lparr> fc_authMethodVect := fc_authMethodVect c @ [method] \<rparr>))"

definition readMechanisms :: "nat \<Rightarrow> xml_api \<Rightarrow> (fcmconn, unit) M" where
  "readMechanisms n X =
     thenM (start_loop n X (bindM (gets (at_name X ''mechanism'')) (\<lambda>b.
              if b then readMechanism X else skipCurrentElement X)))
           (act (SingleShot 10 TSendAuthenticationInfo))"

definition readBind :: "xml_api \<Rightarrow> (fcmconn, unit) M" where
  "readBind X = thenM (readElementText X) (act (SingleShot 10 TSendIQBind))"

definition readSession :: "xml_api \<Rightarrow> (fcmconn, unit) M" where
  "readSession X = thenM (readElementText X) (ret ())"

definition handleFeatures :: "nat \<Rightarrow> xml_api \<Rightarrow> (fcmconn, unit) M" where
  "handleFeatures n X =
     start_loop n X (bindM (gets id) (\<lambda>c.
       if at_elem X ''mechanisms'' SASL_NSPACE_URI c then readMechanisms n X
       else if at_elem X ''bind'' BIND_NSPACE_URI c then readBind X
       else if at_elem X ''session'' SESSION_NSPACE_URI c then readSession X
       else skipCurrentElement X))"

definition handleSaslSuccess :: "xml_api \<Rightarrow> (fcmconn, unit) M" where
  "handleSaslSuccess X =
     thenM (readElementText X) (thenM (emit saslSucess) (act (SingleShot 10 TStartNewStream)))"

definition handleSaslFailure :: "xml_api \<Rightarrow> (fcmconn, unit) M" where
  "handleSaslFailure X =
     thenM (readNextStartElement X)
    (bindM (gets (\<lambda>c. x_name X (fc_reader c))) (\<lambda>failureReason.
       emit (\<lambda>i. connectionError i (ErrText
         (''Recieved xmpp-sasl FAILURE from FCM server. Reason:'' @ failureReason @ ''\<newline>'')))))"

definition readJid :: "(fcmconn, unit) M" where
  "readJid =
     thenM (modify (\<lambda>c. c \<lparr> fc_state := FS_AUTHENTICATED, fc_expBoff := backoff_reset (fc_expBoff c) \<rparr>))
           (emit sessionEstablished)"

definition readIQBindResult :: "nat \<Rightarrow> xml_api \<Rightarrow> (fcmconn, unit) M" where
  "readIQBindResult n X =
     start_loop n X (bindM (gets (at_name X ''jid'')) (\<lambda>b. if b then readJid else skipCurrentElement X))"

definition handleIq :: "nat \<Rightarrow> xml_api \<Rightarrow> (fcmconn, unit) M" where
  "handleIq n X =
     start_loop n X (bindM (gets (at_elem X ''bind'' BIND_NSPACE_URI)) (\<lambda>b.
       if b then readIQBindResult n X else skipCurrentElement X))"

definition handleReceiptMessage :: "json \<Rightarrow> (fcmconn, unit) M" where
  "handleReceiptMessage receipt_msg = emit (\<lambda>i. newReceiptMessage i receipt_msg)"

definition handleControlMessage :: "json \<Rightarrow> (fcmconn, unit) M" where
  "handleControlMessage control_msg =
     (if j_string (doc_object control_msg) F_CONTROL_TYPE = ''CONNECTION_DRAINING'' then
        thenM (modify (\<lambda>c. c \<lparr> fc_connectionDrainingInProgress := True \<rparr>)) (emit connectionDrainingStarted)
      else emit (\<lambda>i. connectionError i (ErrText ''Unknown control message recieved from FCM.'')))"

definition handleFcmMessage :: "env \<Rightarrow> string \<Rightarrow> (fcmconn, unit) M" where
  "handleFcmMessage E json_str =
     (let jdoc = qt_fromJson E (c_str json_str) in
      if jdoc = JNull then emit (\<lambda>i. connectionError i (ErrText ''ERROR: Failed to parse recieved msg''))
      else if j_contains (doc_object jdoc) ''message_type'' then
        (let msg_type = j_string (doc_object jdoc) F_MESSAGE_TYPE in
         if msg_type = ''ack'' then emit (\<lambda>i. newAckMessage i jdoc)
         else if msg_type = ''nack'' then emit (\<lambda>i. newNackMessage i jdoc)
         else if msg_type = ''control'' then handleControlMessage jdoc
         else if msg_type = ''receipt'' then handleReceiptMessage jdoc
         else raise (Throw (UnknownMessageType msg_type)))
      else emit (\<lambda>i. newMessage i jdoc))"

definition handleMessage :: "env \<Rightarrow> nat \<Rightarrow> xml_api \<Rightarrow> (fcmconn, unit) M" where
  "handleMessage E n X =
     start_loop n X (bindM (gets (at_elem X ''gcm'' GCM_NSPACE_URI)) (\<lambda>b.
       if b then bindM (readElementText X) (handleFcmMessage E) else skipCurrentElement X))"

definition handleStartElement :: "env \<Rightarrow> nat \<Rightarrow> xml_api \<Rightarrow> (fcmconn, unit) M" where
  "handleStartElement E n X =
     bindM (gets id) (\<lambda>c.
       if at_elem X ''stream'' STREAM_NSPACE_URI c then handleStartStream
       else if at_elem X ''features'' STREAM_NSPACE_URI c then handleFeatures n X
       else if x_name X (fc_reader c) = ''iq'' \<and> x_attribute X (fc_reader c) ''type'' = ''result'' \<and>
               x_namespaceUri X (fc_reader c) = DEFAULT_NSPACE_URI then handleIq n X
       else if at_elem X ''success'' SASL_NSPACE_URI c then handleSaslSuccess X
       else if at_elem X ''failure'' SASL_NSPACE_URI c then handleSaslFailure X
       else if at_elem X ''message'' DEFAULT_NSPACE_URI c then handleMessage E n X
       else raise (Throw (UnknownStanza (x_name X (fc_reader c)))))"

definition handleEndOfStream :: "(fcmconn, unit) M" where
  "handleEndOfStream = thenM (acts [Xml EndElement, Xml EndDocument]) (emit streamClosed)"

primrec handleOtherElement :: "nat \<Rightarrow> xml_api \<Rightarrow> (fcmconn, unit) M" where
  "handleOtherElement 0 X = raise OutOfFuel"
| "handleOtherElement (Suc n) X =
     bindM (gets (\<lambda>c. x_atEnd X (fc_reader c))) (\<lambda>e.
       if e then ret ()
       else thenM (modify (\<lambda>c. c \<lparr> fc_reader := x_readNext X (fc_reader c) \<rparr>))
           (bindM (gets (\<lambda>c. x_isEndDocument X (fc_reader c))) (\<lambda>d.
              thenM (whenM d handleEndOfStream) (handleOtherElement n X))))"

definition parseXml :: "env \<Rightarrow> nat \<Rightarrow> xml_api \<Rightarrow> (fcmconn, unit) M" where
  "parseXml E n X =
     thenM (start_loop n X (handleStartElement E n X))
    (thenM (handleOtherElement n X)
    (bindM (gets (\<lambda>c. x_error X (fc_reader c))) (\<lambda>e.
       (case e of
          OtherXmlError t \<Rightarrow> emit (\<lambda>i. connectionError i (ErrText t))
        | _ \<Rightarrow> ret ()))))"

text \<open>\<^verbatim>\<open>handleReadyRead\<close> with the bytes \<^verbatim>\<open>readAll\<close> returned.\<close>

definition handleReadyRead :: "env \<Rightarrow> nat \<Rightarrow> xml_api \<Rightarrow> string \<Rightarrow> (fcmconn, unit) M" where
  "handleReadyRead E n X bytes =
     (if length bytes = 1 \<and> is_space (bytes ! 0) then emit heartbeatRecieved
      else thenM (modify (\<lambda>c. c \<lparr> fc_reader := x_addData X bytes (fc_reader c) \<rparr>))
          (catchM (parseXml E n X) (\<lambda>e. emit (\<lambda>i. connectionError i (ErrWhat e)))))"

text \<open>A timer of the connection fires.\<close>

fun fcm_timer_fires :: "env \<Rightarrow> fcm_timer \<Rightarrow> (fcmconn, unit) M" where
  "fcm_timer_fires E TConnectToFirebase = connectToFirebase"
| "fcm_timer_fires E TSendAuthenticationInfo = sendAuthenticationInfo E"
| "fcm_timer_fires E TSendIQBind = sendIQBind"
| "fcm_timer_fires E TStartNewStream = startNewStream"

section \<open>The reader moves forward\<close>

text \<open>Documented behaviour of the reader: \<open>left\<close> bounds what is left of the input; reaching a start
  element or reading a token uses some of it, and nothing puts any back.\<close>

definition xml_progress :: "xml_api \<Rightarrow> (nat \<Rightarrow> nat) \<Rightarrow> bool" where
  "xml_progress X left \<longleftrightarrow>
     (\<forall>r. (case x_readNextStartElement X r of (b, r') \<Rightarrow> if b then left r' < left r else left r' \<le> left r) \<and>
          left (snd (x_readElementText X r)) \<le> left r \<and>
          left (x_skipCurrentElement X r) \<le> left r \<and>
          (\<not> x_atEnd X r \<longrightarrow> left (x_readNext X r) < left r))"

text \<open>Two calls agree on every connection whose reader has at most \<open>L\<close> left: same result, which is a
  return or an exception (no lack of fuel, no undefined behaviour), and the reader does not go back.\<close>

definition caught :: "fault + 'a \<Rightarrow> bool" where
  "caught r \<longleftrightarrow> (case r of Inl (Throw e) \<Rightarrow> True | Inl _ \<Rightarrow> False | Inr _ \<Rightarrow> True)"

lemma caught_simps [simp]:
  "caught (Inr x)" "caught (Inl (Throw e))" "\<not> caught (Inl OutOfFuel)" "\<not> caught (Inl (Undefined u))" "\<not> caught (Inl Exit)"
  by (simp_all add: caught_def)

definition agree :: "(nat \<Rightarrow> nat) \<Rightarrow> nat \<Rightarrow> (fcmconn, 'a) M \<Rightarrow> (fcmconn, 'a) M \<Rightarrow> bool" where
  "agree left L m m' \<longleftrightarrow>
     (\<forall>c. left (fc_reader c) \<le> L \<longrightarrow> m c = m' c \<and> caught (fst (m c)) \<and>
          left (fc_reader (snd (m c))) \<le> left (fc_reader c))"

named_theorems agree_intros

lemma agree_ret [agree_intros]: "agree left L (ret x) (ret x)"
  by (simp add: agree_def ret_def)

lemma agree_throw [agree_intros]: "agree left L (raise (Throw e)) (raise (Throw e))"
  by (simp add: agree_def raise_def)

lemma agree_gets [agree_intros]: "agree left L (gets f) (gets f)"
  by (simp add: agree_def gets_def)

lemma agree_bindM [agree_intros]:
  assumes "agree left L m m'" and "\<And>x. agree left L (f x) (f' x)"
  shows "agree left L (bindM m f) (bindM m' f')"
  unfolding agree_def
proof (intro allI impI)
  fix c :: fcmconn
  assume L: "left (fc_reader c) \<le> L"
  obtain r t where t: "m c = (r, t)" by fastforce
  with assms(1) L have 1: "m' c = (r, t)" "caught r" "left (fc_reader t) \<le> left (fc_reader c)"
    unfolding agree_def by (metis fst_conv snd_conv)+
  show "bindM m f c = bindM m' f' c \<and> caught (fst (bindM m f c)) \<and>
      left (fc_reader (snd (bindM m f c))) \<le> left (fc_reader c)"
  proof (cases r)
    case (Inl e)
    with t 1 show ?thesis by (simp add: bindM_def caught_def)
  next
    case (Inr x)
    have "f x t = f' x t \<and> caught (fst (f x t)) \<and> left (fc_reader (snd (f x t))) \<le> left (fc_reader t)"
      using assms(2) [of x] L 1(3) unfolding agree_def by (meson order.trans)
    with t 1 Inr show ?thesis by (auto simp: bindM_def intro: order.trans)
  qed
qed

lemma agree_thenM [agree_intros]: "agree left L m m' \<Longrightarrow> agree left L n n' \<Longrightarrow> agree left L (thenM m n) (thenM m' n')"
  unfolding thenM_def by (rule agree_bindM)

lemma agree_if [agree_intros]:
  "agree left L m m' \<Longrightarrow> agree left L n n' \<Longrightarrow> agree left L (if b then m else n) (if b then m' else n')"
  by simp

lemma agree_whenM [agree_intros]: "agree left L m m' \<Longrightarrow> agree left L (whenM b m) (whenM b m')"
  by (simp add: whenM_def agree_ret)

lemma agree_modify:
  "(\<And>c. left (fc_reader (f c)) \<le> left (fc_reader c)) \<Longrightarrow> agree left L (modify f) (modify f)"
  by (simp add: agree_def modify_def)

lemma agree_catchM [agree_intros]:
  assumes "agree left L m m'" and "\<And>e. agree left L (h e) (h e)"
  shows "agree left L (catchM m h) (catchM m' h)"
  unfolding agree_def
proof (intro allI impI)
  fix c :: fcmconn
  assume L: "left (fc_reader c) \<le> L"
  obtain r t where t: "m c = (r, t)" by fastforce
  with assms(1) L have 1: "m' c = (r, t)" "caught r" "left (fc_reader t) \<le> left (fc_reader c)"
    unfolding agree_def by (metis fst_conv snd_conv)+
  have h: "caught (fst (h e t)) \<and> left (fc_reader (snd (h e t))) \<le> left (fc_reader t)" for e
    using assms(2) [of e] L 1(3) unfolding agree_def by (meson order.trans)
  with t 1 show "catchM m h c = catchM m' h c \<and> caught (fst (catchM m h c)) \<and>
      left (fc_reader (snd (catchM m h c))) \<le> left (fc_reader c)"
    by (cases r) (auto simp: catchM_def split: fault.split intro: order.trans)
qed

lemma agree_act [agree_intros]: "agree left L (act a) (act a)"
  unfolding act_def by (rule agree_modify) simp

lemma agree_emit [agree_intros]: "agree left L (emit s) (emit s)"
  unfolding emit_def by (intro agree_intros)

lemma agree_acts [agree_intros]: "agree left L (acts xs) (acts xs)"
  unfolding acts_def by (induction xs) (simp_all add: agree_intros)

lemma agree_reads:
  assumes "xml_progress X left"
  shows "agree left L (readElementText X) (readElementText X)"
    and "agree left L (readNextStartElement X) (readNextStartElement X)"
    and "agree left L (skipCurrentElement X) (skipCurrentElement X)"
proof -
  have p: "(case x_readNextStartElement X r of (b, r') \<Rightarrow> if b then left r' < left r else left r' \<le> left r)"
      "left (snd (x_readElementText X r)) \<le> left r" "left (x_skipCurrentElement X r) \<le> left r" for r
    using assms by (simp_all add: xml_progress_def)
  show "agree left L (readElementText X) (readElementText X)"
    using p(2) by (auto simp: agree_def readElementText_def split_beta)
  show "agree left L (skipCurrentElement X) (skipCurrentElement X)"
    using p(3) by (auto simp: agree_def skipCurrentElement_def modify_def)
  have "left (snd (x_readNextStartElement X r)) \<le> left r" for r
    using p(1) [of r] by (auto split: prod.splits if_splits)
  then show "agree left L (readNextStartElement X) (readNextStartElement X)"
    by (auto simp: agree_def readNextStartElement_def split_beta)
qed

lemma agree_start_loop:
  assumes X: "xml_progress X left" and body: "agree left L body body'" and "L < n" "L < n'"
  shows "agree left L (start_loop n X body) (start_loop n' X body')"
proof -
  have "left (fc_reader c) \<le> L \<Longrightarrow> left (fc_reader c) < n \<Longrightarrow> left (fc_reader c) < n' \<Longrightarrow>
      start_loop n X body c = start_loop n' X body' c \<and> caught (fst (start_loop n X body c)) \<and>
      left (fc_reader (snd (start_loop n X body c))) \<le> left (fc_reader c)" for c n n'
  proof (induction n arbitrary: c n')
    case 0
    then show ?case by simp
  next
    case (Suc n)
    obtain k where k: "n' = Suc k" using Suc.prems(3) by (cases n') auto
    obtain b r where br: "x_readNextStartElement X (fc_reader c) = (b, r)" by fastforce
    have lr: "if b then left r < left (fc_reader c) else left r \<le> left (fc_reader c)"
      using X br unfolding xml_progress_def by (metis (no_types, lifting) case_prod_conv)
    show ?case
    proof (cases b)
      case False
      with lr br k show ?thesis
        by (simp add: bindM_def readNextStartElement_def ret_def)
    next
      case True
      let ?d = "c\<lparr>fc_reader := r\<rparr>"
      obtain q t where qt: "body ?d = (q, t)" by fastforce
      have d: "left (fc_reader ?d) \<le> L" using Suc.prems(1) lr True by simp
      with body qt have b': "body' ?d = (q, t)" "caught q" "left (fc_reader t) \<le> left r"
        unfolding agree_def by (metis fst_conv snd_conv fcmconn.select_convs(1) fcmconn.surjective fcmconn.update_convs(1))+
      have t: "left (fc_reader t) \<le> L" "left (fc_reader t) < n" "left (fc_reader t) < k"
        using b'(3) lr True Suc.prems k by auto
      show ?thesis
        using Suc.IH [OF t] True br k qt b' lr
        by (cases q) (auto simp: bindM_def thenM_def readNextStartElement_def)
    qed
  qed
  with assms(3,4) show ?thesis unfolding agree_def by (meson le_less_trans)
qed

lemma agree_modify_same [agree_intros]:
  "(\<And>c. fc_reader (f c) = fc_reader c) \<Longrightarrow> agree left L (modify f) (modify f)"
  by (simp add: agree_modify)

lemma agree_handleOtherElement:
  assumes X: "xml_progress X left" and "L < n" "L < n'"
  shows "agree left L (handleOtherElement n X) (handleOtherElement n' X)"
  using assms(2,3)
proof (induction n arbitrary: n' L)
  case 0
  then show ?case by simp
next
  case (Suc n)
  obtain k where k: "n' = Suc k" using Suc.prems(2) by (cases n') auto
  have eos: "handleEndOfStream d = (Inr (), snd (handleEndOfStream d)) \<and>
      fc_reader (snd (handleEndOfStream d)) = fc_reader d" for d
    by (simp add: handleEndOfStream_def acts_def act_def emit_def monad_defs)
  show ?case
    unfolding agree_def
  proof (intro allI impI)
    fix c :: fcmconn
    assume L: "left (fc_reader c) \<le> L"
    let ?H = "handleOtherElement"
    show "?H (Suc n) X c = ?H n' X c \<and> caught (fst (?H (Suc n) X c)) \<and>
        left (fc_reader (snd (?H (Suc n) X c))) \<le> left (fc_reader c)"
    proof (cases "x_atEnd X (fc_reader c)")
      case True
      with k show ?thesis by (simp add: bindM_def gets_def ret_def)
    next
      case False
      define d where "d = c\<lparr>fc_reader := x_readNext X (fc_reader c)\<rparr>"
      define e where "e = (if x_isEndDocument X (fc_reader d) then snd (handleEndOfStream d) else d)"
      have run: "?H (Suc m) X c = ?H m X e" for m
        using False eos [of d] unfolding e_def d_def
        by (auto simp: bindM_def thenM_def gets_def modify_def whenM_def ret_def split: prod.splits sum.splits)
      have e: "left (fc_reader e) < left (fc_reader c)"
        using X False eos [of d] by (simp add: xml_progress_def e_def d_def)
      then obtain M where M: "L = Suc M" "left (fc_reader e) \<le> M" using L by (cases L) auto
      from Suc.IH [of M k] M Suc.prems k have "agree left M (?H n X) (?H k X)" by simp
      then have "?H n X e = ?H k X e \<and> caught (fst (?H n X e)) \<and>
          left (fc_reader (snd (?H n X e))) \<le> left (fc_reader e)"
        using M(2) unfolding agree_def by blast
      then show ?thesis unfolding k run using e by (metis less_imp_le order.trans)
    qed
  qed
qed

lemma agree_handleStartElement:
  assumes X: "xml_progress X left" and n: "L < n" "L < n'"
  shows "agree left L (handleStartElement E n X) (handleStartElement E n' X)"
proof -
  note rules = agree_intros agree_reads [OF X] agree_start_loop [OF X _ n]
  have 1: "agree left L (readMechanisms n X) (readMechanisms n' X)"
    unfolding readMechanisms_def readMechanism_def by (intro rules) simp
  have 2: "agree left L (handleFeatures n X) (handleFeatures n' X)"
    unfolding handleFeatures_def readBind_def readSession_def by (intro rules 1)
  have 3: "agree left L (readIQBindResult n X) (readIQBindResult n' X)"
    unfolding readIQBindResult_def readJid_def by (intro rules) simp
  have 4: "agree left L (handleIq n X) (handleIq n' X)"
    unfolding handleIq_def by (intro rules 3)
  have 5: "agree left L (handleFcmMessage E t) (handleFcmMessage E t)" for t
    unfolding handleFcmMessage_def handleControlMessage_def handleReceiptMessage_def Let_def
    by (intro rules) simp
  have 6: "agree left L (handleMessage E n X) (handleMessage E n' X)"
    unfolding handleMessage_def by (intro rules 5)
  show ?thesis
    unfolding handleStartElement_def handleStartStream_def handleSaslSuccess_def handleSaslFailure_def
    by (intro rules 2 4 6)
qed

lemma agree_parseXml:
  assumes X: "xml_progress X left" and n: "L < n" "L < n'"
  shows "agree left L (parseXml E n X) (parseXml E n' X)"
proof -
  have "agree left L (case e of OtherXmlError t \<Rightarrow> emit (\<lambda>i. connectionError i (ErrText t)) | _ \<Rightarrow> ret ())
      (case e of OtherXmlError t \<Rightarrow> emit (\<lambda>i. connectionError i (ErrText t)) | _ \<Rightarrow> ret ())" for e
    by (cases e) (simp_all add: agree_intros)
  then show ?thesis
    unfolding parseXml_def
    by (intro agree_intros agree_start_loop [OF X _ n] agree_handleStartElement [OF X n]
        agree_handleOtherElement [OF X n])
qed

lemma handleReadyRead_agree:
  assumes X: "xml_progress X left" and n: "left (x_addData X bytes (fc_reader c)) < n"
      "left (x_addData X bytes (fc_reader c)) < n'"
  shows "handleReadyRead E n X bytes c = handleReadyRead E n' X bytes c"
    and "\<exists>c'. handleReadyRead E n X bytes c = (Inr (), c')"
proof -
  let ?d = "c\<lparr>fc_reader := x_addData X bytes (fc_reader c)\<rparr>"
  have "agree left (left (fc_reader ?d)) (parseXml E n X) (parseXml E n' X)"
    using X n by (intro agree_parseXml) simp_all
  then have p: "parseXml E n X ?d = parseXml E n' X ?d" "caught (fst (parseXml E n X ?d))"
    unfolding agree_def by blast+
  then show "handleReadyRead E n X bytes c = handleReadyRead E n' X bytes c"
    by (simp add: handleReadyRead_def catchM_def thenM_def bindM_def modify_def)
  have e: "\<exists>c'. emit s d = (Inr (), c')" for s d
    by (simp add: emit_def act_def bindM_def gets_def modify_def)
  show "\<exists>c'. handleReadyRead E n X bytes c = (Inr (), c')"
    using p(2) e
    by (cases "parseXml E n X ?d")
      (auto simp: handleReadyRead_def catchM_def thenM_def bindM_def modify_def caught_def
        split: sum.splits fault.splits)
qed

section \<open>A reader for the witnesses\<close>

text \<open>A reader whose input is the tokens of \<^verbatim>\<open><message><gcm>{}</gcm></message>\<close>: its state is the number
  of tokens read, and the end is position 7.\<close>

definition xml0 :: xml_api where
  "xml0 =
     \<lparr> x_addData = (\<lambda>_ _. 0),
       x_readNextStartElement = (\<lambda>r. if r = 0 then (True, 1) else if r = 1 then (True, 2) else (False, max r 5)),
       x_name = (\<lambda>r. if r = 1 then ''message'' else if r = 2 then ''gcm'' else []),
       x_namespaceUri = (\<lambda>r. if r = 1 then DEFAULT_NSPACE_URI else if r = 2 then GCM_NSPACE_URI else []),
       x_attribute = (\<lambda>_ _. []),
       x_readElementText = (\<lambda>r. if r = 2 then (''{}'', 4) else ([], r)),
       x_skipCurrentElement = (\<lambda>r. r),
       x_atEnd = (\<lambda>r. 7 \<le> r), x_readNext = (\<lambda>r. Suc r), x_isEndDocument = (\<lambda>_. False),
       x_error = (\<lambda>_. PrematureEndOfDocumentError) \<rparr>"

lemma xml0_progress: "xml_progress xml0 (\<lambda>r. 7 - r)"
  by (auto simp: xml_progress_def xml0_def max_def)

section \<open>The life of a connection\<close>

text \<open>What the event loop delivers to one connection.\<close>

datatype fcm_event =
    EvConnectToFcm string string string "16 word"
  | EvSslErrors "string list"
  | EvEncrypted
  | EvDisconnected
  | EvReadyRead string
  | EvTimer fcm_timer
  | EvSendMessage json

fun fcm_handle :: "env \<Rightarrow> nat \<Rightarrow> xml_api \<Rightarrow> fcm_event \<Rightarrow> (fcmconn, unit) M" where
  "fcm_handle E n X (EvConnectToFcm i k h p) = connectToFcm i k h p"
| "fcm_handle E n X (EvSslErrors es) = handleSslErrors es"
| "fcm_handle E n X EvEncrypted = socketEncrypted"
| "fcm_handle E n X EvDisconnected = handleDisconnected E"
| "fcm_handle E n X (EvReadyRead b) = handleReadyRead E n X b"
| "fcm_handle E n X (EvTimer t) = fcm_timer_fires E t"
| "fcm_handle E n X (EvSendMessage j) = handleSendMessage E j"

inductive fcm_reach :: "env \<Rightarrow> nat \<Rightarrow> xml_api \<Rightarrow> fcmconn \<Rightarrow> fcmconn \<Rightarrow> bool" for E n X c0 where
  fcm_start: "fcm_reach E n X c0 c0"
| fcm_step: "fcm_reach E n X c0 c \<Longrightarrow> fcm_handle E n X ev c = (r, c') \<Longrightarrow> fcm_reach E n X c0 c'"

text \<open>Whether the signals so far tell the listener that a session is open.\<close>

fun session_after :: "bool \<Rightarrow> fcm_act \<Rightarrow> bool" where
  "session_after b (Emit (sessionEstablished _)) = True"
| "session_after b (Emit (connectionLost _)) = False"
| "session_after b (Emit (connectionDrainingCompleted _)) = False"
| "session_after b _ = b"

definition session_open :: "fcm_act list \<Rightarrow> bool" where
  "session_open as = foldl session_after False as"

fun sig_id :: "fcm_signal \<Rightarrow> int" where
  "sig_id (connectionStarted i) = i"
| "sig_id (connectionEstablished i) = i"
| "sig_id (connectionShutdownStarted i) = i"
| "sig_id (connectionShutdownCompleted i) = i"
| "sig_id (connectionLost i) = i"
| "sig_id (connectionError i _) = i"
| "sig_id (connectionDrainingStarted i) = i"
| "sig_id (connectionDrainingCompleted i) = i"
| "sig_id (xmppHandshakeStarted i) = i"
| "sig_id (saslSucess i) = i"
| "sig_id (streamOpened i) = i"
| "sig_id (streamClosed i) = i"
| "sig_id (sessionEstablished i) = i"
| "sig_id (heartbeatRecieved i) = i"
| "sig_id (newMessage i _) = i"
| "sig_id (newAckMessage i _) = i"
| "sig_id (newNackMessage i _) = i"
| "sig_id (newReceiptMessage i _) = i"

definition fcm_ok :: "fcmconn \<Rightarrow> bool" where
  "fcm_ok c \<longleftrightarrow>
     (fc_state c = FS_AUTHENTICATED \<longleftrightarrow> session_open (fc_acts c)) \<and>
     (fc_connectionDrainingInProgress c \<longleftrightarrow> (\<exists>i. Emit (connectionDrainingStarted i) \<in> set (fc_acts c))) \<and>
     (\<forall>s. Emit s \<in> set (fc_acts c) \<longrightarrow> sig_id s = fc_id c) \<and>
     int (fc_readyReadSlots c) = int (length (filter (\<lambda>a. \<exists>i. a = Emit (connectionEstablished i)) (fc_acts c)))"

text \<open>An action that says nothing about the session.\<close>

definition neutral :: "int \<Rightarrow> fcm_act \<Rightarrow> bool" where
  "neutral i a \<longleftrightarrow> (\<forall>b. session_after b a = b) \<and> (\<forall>s. a = Emit s \<longrightarrow> sig_id s = i) \<and>
     (\<forall>k. a \<noteq> Emit (connectionDrainingStarted k)) \<and> (\<forall>k. a \<noteq> Emit (connectionEstablished k))"

lemma fcm_ok_act: "fcm_ok c \<Longrightarrow> neutral (fc_id c) a \<Longrightarrow> fcm_ok (c\<lparr>fc_acts := fc_acts c @ [a]\<rparr>)"
  by (auto simp: fcm_ok_def neutral_def session_open_def)

lemma keeps_act [keeps_intros]: "(\<And>i. neutral i a) \<Longrightarrow> keeps fcm_ok (act a)"
  unfolding act_def by (intro keeps_modify fcm_ok_act)

lemma keeps_emit [keeps_intros]: "(\<And>i. neutral i (Emit (s i))) \<Longrightarrow> keeps fcm_ok (emit s)"
  by (simp add: keeps_def emit_def act_def bindM_def gets_def modify_def fcm_ok_act)

lemma keeps_acts [keeps_intros]: "(\<And>a i. a \<in> set as \<Longrightarrow> neutral i a) \<Longrightarrow> keeps fcm_ok (acts as)"
  unfolding acts_def by (induction as) (simp_all add: keeps_intros)

lemma keeps_fields [keeps_intros]:
  assumes "\<And>c. fc_state (f c) = fc_state c" "\<And>c. fc_connectionDrainingInProgress (f c) = fc_connectionDrainingInProgress c"
    "\<And>c. fc_id (f c) = fc_id c" "\<And>c. fc_readyReadSlots (f c) = fc_readyReadSlots c" "\<And>c. fc_acts (f c) = fc_acts c"
  shows "keeps fcm_ok (modify f)"
  using assms by (intro keeps_modify) (simp add: fcm_ok_def)

lemma keeps_session_changes:
  "keeps fcm_ok readJid" "keeps fcm_ok (handleDisconnected E)" "keeps fcm_ok (handleControlMessage j)"
  "keeps fcm_ok socketEncrypted"
proof -
  show "keeps fcm_ok readJid"
    by (auto simp: keeps_def readJid_def emit_def act_def monad_defs fcm_ok_def session_open_def)
  show "keeps fcm_ok (handleDisconnected E)"
    by (auto simp: keeps_def handleDisconnected_def emit_def act_def monad_defs fcm_ok_def session_open_def
        split: prod.splits sum.splits)
  show "keeps fcm_ok (handleControlMessage j)"
    by (auto simp: keeps_def handleControlMessage_def emit_def act_def monad_defs fcm_ok_def session_open_def)
  show "keeps fcm_ok socketEncrypted"
    by (auto simp: keeps_def socketEncrypted_def stream_header_def acts_def emit_def act_def monad_defs
        fcm_ok_def session_open_def)
qed

lemma keeps_fcm_reads [keeps_intros]:
  "keeps fcm_ok (readNextStartElement X)" "keeps fcm_ok (readElementText X)" "keeps fcm_ok (skipCurrentElement X)"
  by (auto simp: keeps_def readNextStartElement_def readElementText_def skipCurrentElement_def modify_def
      fcm_ok_def split: prod.splits)

lemma keeps_start_loop [keeps_intros]: "keeps fcm_ok body \<Longrightarrow> keeps fcm_ok (start_loop n X body)"
  by (induction n) (simp_all add: keeps_intros)

lemma keeps_handleOtherElement [keeps_intros]: "keeps fcm_ok (handleOtherElement n X)"
  unfolding handleEndOfStream_def
  by (induction n) (auto simp: handleEndOfStream_def neutral_def intro!: keeps_intros)

lemma keeps_handleFcmMessage: "keeps fcm_ok (handleFcmMessage E t)"
  unfolding handleFcmMessage_def handleReceiptMessage_def Let_def
  by (intro keeps_intros keeps_session_changes) (simp_all add: neutral_def)

lemma keeps_handleStartElement: "keeps fcm_ok (handleStartElement E n X)"
proof -
  have 1: "keeps fcm_ok (readMechanisms n X)"
    unfolding readMechanisms_def readMechanism_def by (intro keeps_intros) (simp_all add: neutral_def)
  have 2: "keeps fcm_ok (handleFeatures n X)"
    unfolding handleFeatures_def readBind_def readSession_def
    by (intro keeps_intros 1) (simp_all add: neutral_def)
  have 3: "keeps fcm_ok (handleIq n X)"
    unfolding handleIq_def readIQBindResult_def by (intro keeps_intros keeps_session_changes)
  have 4: "keeps fcm_ok (handleMessage E n X)"
    unfolding handleMessage_def by (intro keeps_intros keeps_handleFcmMessage)
  show ?thesis
    unfolding handleStartElement_def handleStartStream_def handleSaslSuccess_def handleSaslFailure_def
    by (intro keeps_intros 2 3 4) (simp_all add: neutral_def)
qed

lemma keeps_handleReadyRead: "keeps fcm_ok (handleReadyRead E n X b)"
proof -
  have "keeps fcm_ok (case e of OtherXmlError t \<Rightarrow> emit (\<lambda>i. connectionError i (ErrText t)) | _ \<Rightarrow> ret ())" for e
    by (cases e) (auto simp: neutral_def intro!: keeps_intros)
  then have "keeps fcm_ok (parseXml E n X)"
    unfolding parseXml_def by (intro keeps_intros keeps_handleStartElement)
  then show ?thesis
    unfolding handleReadyRead_def by (intro keeps_intros) (simp_all add: neutral_def)
qed

lemma keeps_fcm_handle: "keeps fcm_ok (fcm_handle E n X ev)"
proof (cases ev)
  case (EvConnectToFcm i k h p)
  then show ?thesis
    by (auto simp: connectToFcm_def connectToFirebase_def neutral_def split: prod.splits intro!: keeps_intros)
next
  case (EvSslErrors es)
  then show ?thesis
    by (simp add: handleSslErrors_def, intro keeps_forM keeps_intros) (simp add: neutral_def)
next
  case (EvTimer t)
  then show ?thesis
    by (cases t) (auto simp: connectToFirebase_def sendAuthenticationInfo_def sendIQBind_def startNewStream_def
        stream_header_def neutral_def Let_def split: prod.splits intro!: keeps_intros)
next
  case (EvSendMessage j)
  then show ?thesis
    by (auto simp: handleSendMessage_def message_stanza_def neutral_def intro!: keeps_intros)
qed (simp_all add: keeps_session_changes keeps_handleReadyRead)

lemma fcm_ok_new: "fcm_ok (FcmConnection seed r i)"
  by (simp add: fcm_ok_def FcmConnection_def session_open_def)

lemma fcm_ok_reach: "fcm_reach E n X c0 c \<Longrightarrow> fcm_ok c0 \<Longrightarrow> fcm_ok c"
  by (induction rule: fcm_reach.induct) (auto dest: keepsD [OF keeps_fcm_handle])

section \<open>Messages and their signals\<close>

text \<open>The signal for a document, or the exception for an unknown type.\<close>

definition message_signal :: "json \<Rightarrow> int \<Rightarrow> fault + fcm_signal" where
  "message_signal j i =
     (if \<not> j_contains (doc_object j) F_MESSAGE_TYPE then Inr (newMessage i j)
      else (let t = j_string (doc_object j) F_MESSAGE_TYPE in
        if t = ''ack'' then Inr (newAckMessage i j)
        else if t = ''nack'' then Inr (newNackMessage i j)
        else if t = ''receipt'' then Inr (newReceiptMessage i j)
        else if t \<noteq> ''control'' then Inl (Throw (UnknownMessageType t))
        else if j_string (doc_object j) F_CONTROL_TYPE = ''CONNECTION_DRAINING'' then Inr (connectionDrainingStarted i)
        else Inr (connectionError i (ErrText ''Unknown control message recieved from FCM.''))))"

lemma handleFcmMessage_signals:
  assumes "qt_fromJson E (c_str t) = j" and "j \<noteq> JNull"
  shows "handleFcmMessage E t p =
     (case message_signal j (fc_id p) of
        Inl f \<Rightarrow> (Inl f, p)
      | Inr s \<Rightarrow> (Inr (),
          (case s of connectionDrainingStarted _ \<Rightarrow> p \<lparr> fc_connectionDrainingInProgress := True \<rparr> | _ \<Rightarrow> p)
            \<lparr> fc_acts := fc_acts p @ [Emit s] \<rparr>))"
proof -
  have e: "emit f q = (Inr (), q \<lparr> fc_acts := fc_acts q @ [Emit (f (fc_id q))] \<rparr>)" for f q
    by (simp add: emit_def act_def monad_defs)
  show ?thesis
    unfolding handleFcmMessage_def assms(1) message_signal_def Let_def handleControlMessage_def handleReceiptMessage_def
    using assms(2) by (simp add: F_MESSAGE_TYPE_def e thenM_def bindM_def modify_def raise_def)
qed

section \<open>Properties\<close>

text \<open>C37. Whatever arrives on the socket, \<^verbatim>\<open>handleReadyRead\<close> returns: its loops over the XML reader end
  (any fuel above what is left of the input gives the same result), and every exception of a stanza
  handler is caught there.\<close>

theorem handleReadyRead_returns:
  assumes "xml_progress X left" and "left (x_addData X bytes (fc_reader c)) < n"
  shows "\<exists>c'. \<forall>n' \<ge> n. handleReadyRead E n' X bytes c = (Inr (), c')"
proof -
  obtain c' where c': "handleReadyRead E n X bytes c = (Inr (), c')"
    using handleReadyRead_agree(2) [OF assms assms(2)] by blast
  have "handleReadyRead E n' X bytes c = (Inr (), c')" if "n \<le> n'" for n'
    using handleReadyRead_agree(1) [OF assms(1) assms(2), of n'] assms(2) that c' by simp
  then show ?thesis by blast
qed

theorem handleReadyRead_returns_witness:
  "\<exists>c'. \<forall>n' \<ge> 8. handleReadyRead (env0 JNull) n' xml0 ''<message>'' (FcmConnection 0 0 1) = (Inr (), c')"
  by (rule handleReadyRead_returns [OF xml0_progress]) simp

text \<open>C38. In every state a connection can reach, it counts as authenticated exactly when its signals say
  so (a \<^verbatim>\<open>sessionEstablished\<close> with no \<^verbatim>\<open>connectionLost\<close> or \<^verbatim>\<open>connectionDrainingCompleted\<close> after it), it
  is draining exactly when it has announced so, every signal carries its own id, and
  \<^verbatim>\<open>handleReadyRead\<close> is connected once per completed TLS handshake: after a reconnection it runs
  more than once for every packet.\<close>

theorem connection_signals_tell_its_state:
  assumes "fcm_reach E n X (FcmConnection seed r i) c"
  shows "(fc_state c = FS_AUTHENTICATED \<longleftrightarrow> session_open (fc_acts c)) \<and>
     (fc_connectionDrainingInProgress c \<longleftrightarrow> (\<exists>k. Emit (connectionDrainingStarted k) \<in> set (fc_acts c))) \<and>
     (\<forall>s. Emit s \<in> set (fc_acts c) \<longrightarrow> sig_id s = fc_id c) \<and>
     int (fc_readyReadSlots c) = int (length (filter (\<lambda>a. \<exists>k. a = Emit (connectionEstablished k)) (fc_acts c)))"
  using fcm_ok_reach [OF assms fcm_ok_new] unfolding fcm_ok_def .

theorem connection_signals_tell_its_state_witness:
  "\<exists>c. fcm_reach (env0 JNull) 8 xml0 (FcmConnection 0 0 1) c \<and> fc_readyReadSlots c = 1 \<and>
     (fc_state c = FS_AUTHENTICATED \<longleftrightarrow> session_open (fc_acts c))"
proof -
  let ?c = "snd (socketEncrypted (FcmConnection 0 0 1))"
  have r: "fcm_reach (env0 JNull) 8 xml0 (FcmConnection 0 0 1) ?c"
    by (rule fcm_step [OF fcm_start, where ev = EvEncrypted and r = "fst (socketEncrypted (FcmConnection 0 0 1))"])
      simp
  have "fc_readyReadSlots ?c = 1"
    by (simp add: socketEncrypted_def emit_def act_def acts_def stream_header_def monad_defs FcmConnection_def)
  with r connection_signals_tell_its_state [OF r] show ?thesis by blast
qed

text \<open>A lost connection is retried, a drained one is not: unless the server announced draining,
  \<^verbatim>\<open>handleDisconnected\<close> reports the loss and schedules \<^verbatim>\<open>connectToFirebase\<close> after the next backoff
  delay; after draining it reports the end and schedules nothing.  When a session had been
  established since the last failure, the delay is between 1.1 and 2 seconds.\<close>

theorem lost_connection_is_retried:
  assumes "draws_in_range E" and "bo_distribution (fc_expBoff c) = (100, 1000)"
    and "bo_maxRetry (fc_expBoff c) = NO_MAX_RETRY"
  defines "s \<equiv> snd (readJid c)"
  shows "if fc_connectionDrainingInProgress c
    then \<exists>c'. handleDisconnected E s = (Inr (), c') \<and> fc_state c' = FS_UNKNOWN \<and>
           fc_acts c' = fc_acts s @ [Emit (connectionDrainingCompleted (fc_id c))]
    else \<exists>c' d. handleDisconnected E s = (Inr (), c') \<and> fc_state c' = FS_UNKNOWN \<and>
           fc_acts c' = fc_acts s @ [Emit (connectionLost (fc_id c)), SingleShot d TConnectToFirebase] \<and>
           1100 \<le> d \<and> d \<le> 2000"
proof -
  let ?b = "backoff_reset (fc_expBoff c)"
  have s: "fc_expBoff s = ?b" "fc_id s = fc_id c"
      "fc_connectionDrainingInProgress s = fc_connectionDrainingInProgress c"
    by (simp_all add: s_def readJid_def emit_def act_def monad_defs)
  have "\<exists>d e. backoff_next E ?b =
      (Inr ((2 ^ 1 - 1) * 1000 + d), ?b \<lparr> bo_retry := bo_retry ?b + 1, bo_engine := e, bo_seedVal := int (Suc (Suc 1)) \<rparr>)
      \<and> 100 \<le> d \<and> d \<le> 1000"
    using assms by (intro backoff_next_ok) (simp_all add: backoff_reset_def int_lims)
  then obtain d b' where "backoff_next E ?b = (Inr (1000 + d), b')" "100 \<le> d" "d \<le> 1000" by auto
  then show ?thesis
    by (auto simp: s handleDisconnected_def emit_def act_def monad_defs)
qed

theorem lost_connection_is_retried_witness:
  "\<exists>c' d. handleDisconnected (env0 JNull) (snd (readJid (FcmConnection 0 0 1))) = (Inr (), c') \<and>
     1100 \<le> d \<and> d \<le> 2000 \<and> SingleShot d TConnectToFirebase \<in> set (fc_acts c')"
  using lost_connection_is_retried [of "env0 JNull" "FcmConnection 0 0 1", OF env0_draws]
  by (auto simp: FcmConnection_def ExponentialBackoff_def)

text \<open>C39. A stanza whose element is none of the six known ones ends the parse: the connection reports
  the exception and leaves the reader at that element, so the rest of the packet is not read.  The
  \<^verbatim>\<open>gcm\<close> element of a message whose \<^verbatim>\<open>message\<close> start tag came in an earlier packet is such an element:
  the message is lost.\<close>

theorem split_message_is_lost:
  assumes "length bytes \<noteq> 1" and "x_readNextStartElement X (x_addData X bytes (fc_reader c)) = (True, r)"
    and "x_name X r = ''gcm''" and "0 < n"
  shows "handleReadyRead E n X bytes c =
     (Inr (), c \<lparr> fc_reader := r,
                  fc_acts := fc_acts c @ [Emit (connectionError (fc_id c) (ErrWhat (UnknownStanza ''gcm'')))] \<rparr>)"
proof -
  obtain m where m: "n = Suc m" using assms(4) by (cases n) auto
  show ?thesis
    using assms(1-3)
    by (simp add: m handleReadyRead_def parseXml_def catchM_def thenM_def bindM_def modify_def gets_def
        readNextStartElement_def handleStartElement_def at_elem_def raise_def emit_def act_def)
qed

theorem split_message_is_lost_witness:
  "fc_acts (snd (handleReadyRead (env0 JNull) 9 (xml0 \<lparr> x_addData := (\<lambda>_ r. r) \<rparr>) ''<gcm>'' (FcmConnection 0 1 7))) =
     [Emit (connectionError 7 (ErrWhat (UnknownStanza ''gcm'')))]"
  by (subst split_message_is_lost [where r = 2]) (simp_all add: xml0_def FcmConnection_def)

text \<open>A document written by \<^verbatim>\<open>handleSendMessage\<close> is signalled unchanged by the peer's
  \<^verbatim>\<open>handleFcmMessage\<close>, as exactly one signal chosen by its \<^verbatim>\<open>message_type\<close>; an unknown type throws.\<close>

theorem sent_message_is_signalled:
  assumes "qt_fromJson E (qt_toJsonIndented E j) = j" and "CHR 0x00 \<notin> set (qt_toJsonIndented E j)"
    and "j \<noteq> JNull" and "Xml (Characters t) \<in> set (fc_acts (snd (handleSendMessage E j (c\<lparr>fc_acts := []\<rparr>))))"
  shows "handleFcmMessage E t p =
     (case message_signal j (fc_id p) of
        Inl f \<Rightarrow> (Inl f, p)
      | Inr s \<Rightarrow> (Inr (),
          (case s of connectionDrainingStarted _ \<Rightarrow> p \<lparr> fc_connectionDrainingInProgress := True \<rparr> | _ \<Rightarrow> p)
            \<lparr> fc_acts := fc_acts p @ [Emit s] \<rparr>))"
proof -
  have t: "t = qt_toJsonIndented E j"
    using assms(4) by (simp add: handleSendMessage_def message_stanza_def acts_def act_def monad_defs)
  have "c_str t = t" using assms(2) unfolding t by (rule c_str_id)
  with assms(1,3) t show ?thesis by (intro handleFcmMessage_signals) simp_all
qed

theorem sent_message_is_signalled_witness:
  "handleFcmMessage (env0 (JObject [])) ''{}'' (FcmConnection 0 0 4) =
     (Inr (), FcmConnection 0 0 4 \<lparr> fc_acts := [Emit (newMessage 4 (JObject []))] \<rparr>)"
  using sent_message_is_signalled [of "env0 (JObject [])" "JObject []" "''{}''" "FcmConnection 0 0 3" "FcmConnection 0 0 4"]
  by (simp add: env0_def handleSendMessage_def message_stanza_def acts_def act_def monad_defs message_signal_def
      FcmConnection_def j_contains_def)

end
