(* ===== verification/App.thy ===== *)
theory App
  imports Db Bal_Session Fcm
begin

text \<open>
  \<^verbatim>\<open>src/application.h\<close> and \<^verbatim>\<open>src/application.cpp\<close>: the class \<^verbatim>\<open>Application\<close>, which
  owns the other components and whose slots are the program.  One definition per method, on the
  record \<open>app\<close> of everything the methods reach; the last section is the event loop.  Text on the
  standard output is kept only for the slots that do nothing else.
\<close>

section \<open>The state\<close>

text \<open>The timers the program has started; a timer names the closure it runs.\<close>

datatype app_timer =
    TRetryDownstream ptr
  | TRetryUpstream ptr
  | TResendUpstream string
  | TLogonTimeout sock
  | TFcm int fcm_timer

text \<open>
  The members of the class, and what they point to: the messages (\<open>ap_heap\<close>, \<open>ap_next\<close> the first free
  address), the accepted connections and, for each accepted socket, its descriptor, its property
  \<^verbatim>\<open>session_id\<close>, its unread bytes and whether its signals are blocked (\<open>ap_nextSock\<close> is the next accepted
  socket); \<open>ap_deleteLater\<close> are the sockets whose deletion is due, and \<open>ap_listening\<close> whether the server
  socket listens.  \<open>ap_sendSlots\<close> are the
  connections whose \<^verbatim>\<open>handleSendMessage\<close> is connected to the signal \<^verbatim>\<open>sendMessage\<close>; \<open>ap_log\<close> is what
  the FCM connections did, in order; \<open>ap_out\<close> the text printed; the two pipes count the bytes the
  POSIX signal handlers wrote.
\<close>

record app =
  ap_heap :: heap
  ap_next :: ptr
  ap_listening :: bool
  ap_serverPortNo :: "16 word"
  ap_serverHostAddress :: string
  ap_fcmConnCount :: int
  ap_fcmConnectionsMap :: "(int, fcmconn) omap"
  ap_fcmServerId :: string
  ap_fcmServerKey :: string
  ap_fcmHostAddress :: string
  ap_fcmPortNo :: "16 word"
  ap_fcmMsgManager :: manager
  ap_balSessionMap :: "(string, balsession) omap"
  ap_balSessionMapU :: "(int, sock) omap"
  ap_dbConn :: db
  ap_nextSock :: sock
  ap_conns :: "sock \<Rightarrow> balconn"
  ap_descriptor :: "sock \<Rightarrow> int"
  ap_sessionProp :: "sock \<Rightarrow> string"
  ap_inbuf :: "sock \<Rightarrow> string"
  ap_blocked :: "sock \<Rightarrow> bool"
  ap_deleteLater :: "sock list"
  ap_wire :: wire
  ap_sendSlots :: "int list"
  ap_timers :: "(int \<times> app_timer) list"
  ap_log :: "(int \<times> fcm_act) list"
  ap_out :: "string list"
  ap_sigintPipe :: nat
  ap_sigtermPipe :: nat
  ap_quit :: bool

section \<open>Access to the parts\<close>

definition on_db :: "(db, 'a) M \<Rightarrow> (app, 'a) M" where
  "on_db = zoom ap_dbConn (\<lambda>d a. a \<lparr> ap_dbConn := d \<rparr>)"

definition on_fcm_mgr :: "(manager, 'a) M \<Rightarrow> (app, 'a) M" where
  "on_fcm_mgr = zoom ap_fcmMsgManager (\<lambda>m a. a \<lparr> ap_fcmMsgManager := m \<rparr>)"

definition on_msg :: "ptr \<Rightarrow> (message, 'a) M \<Rightarrow> (app, 'a) M" where
  "on_msg p = zoom (\<lambda>a. ap_heap a p) (\<lambda>x a. a \<lparr> ap_heap := (ap_heap a)(p := x) \<rparr>)"

text \<open>The session object under an id; the sessions are made at the start and stay.\<close>

definition the_session :: "string \<Rightarrow> app \<Rightarrow> balsession" where
  "the_session sid a =
     (case om_find (ap_balSessionMap a) sid of Some s \<Rightarrow> s | None \<Rightarrow> BALSession sid UNAUTHENTICATED)"

definition put_session :: "string \<Rightarrow> balsession \<Rightarrow> app \<Rightarrow> app" where
  "put_session sid s a = a \<lparr> ap_balSessionMap := om_store sid s (ap_balSessionMap a) \<rparr>"

definition on_bal_mgr :: "string \<Rightarrow> (manager, 'a) M \<Rightarrow> (app, 'a) M" where
  "on_bal_mgr sid =
     zoom (\<lambda>a. bs_msgManager (the_session sid a))
          (\<lambda>m a. put_session sid ((the_session sid a) \<lparr> bs_msgManager := m \<rparr>) a)"

text \<open>\<^verbatim>\<open>new Message(...)\<close>.\<close>

definition new_msg :: "(ptr \<Rightarrow> message) \<Rightarrow> (app, ptr) M" where
  "new_msg f a = (Inr (ap_next a),
     a \<lparr> ap_heap := (ap_heap a)(ap_next a := f (ap_next a)), ap_next := Suc (ap_next a) \<rparr>)"

definition print_msg :: "env \<Rightarrow> ptr \<Rightarrow> (app, unit) M" where
  "print_msg E p = bindM (getsE (\<lambda>a. message_print E (ap_heap a p))) (\<lambda>_. ret ())"

definition save_msg :: "env \<Rightarrow> ptr \<Rightarrow> (app, unit) M" where
  "save_msg E p = bindM (gets (\<lambda>a. ap_heap a p)) (\<lambda>msg. on_db (saveMsg E msg))"

definition update_msg :: "env \<Rightarrow> ptr \<Rightarrow> MessageState \<Rightarrow> (app, unit) M" where
  "update_msg E p st = bindM (gets (\<lambda>a. ap_heap a p)) (\<lambda>msg. on_db (updateMsgState E msg st))"

definition set_state :: "ptr \<Rightarrow> MessageState \<Rightarrow> (app, unit) M" where
  "set_state p st = on_msg p (modify (\<lambda>x. x \<lparr> msg_state := st \<rparr>))"

definition set_retry :: "ptr \<Rightarrow> bool \<Rightarrow> (app, unit) M" where
  "set_retry p b = on_msg p (modify (\<lambda>x. x \<lparr> msg_retryInProgress := b \<rparr>))"

text \<open>\<^verbatim>\<open>*(msg->getPayload())\<close>.\<close>

definition payload_of :: "ptr \<Rightarrow> (app, json) M" where
  "payload_of p = getsE (\<lambda>a.
     case msg_payload (ap_heap a p) of None \<Rightarrow> Inl (Undefined NullDeref) | Some j \<Rightarrow> Inr j)"

definition start_timer :: "int \<Rightarrow> app_timer \<Rightarrow> (app, unit) M" where
  "start_timer msec t = modify (\<lambda>a. a \<lparr> ap_timers := ap_timers a @ [(msec, t)] \<rparr>)"

definition say :: "string \<Rightarrow> (app, unit) M" where
  "say t = modify (\<lambda>a. a \<lparr> ap_out := ap_out a @ [t] \<rparr>)"

text \<open>The document the program wraps around what FCM sent.\<close>

definition gimmm_msg :: "int \<Rightarrow> string \<Rightarrow> string \<Rightarrow> jobject \<Rightarrow> json" where
  "gimmm_msg seqid type sid data =
     JObject (om_store G_FCM_DATA (JObject data)
             (om_store G_SESSION_ID (JString (c_str sid))
             (om_store G_MESSAGE_TYPE (JString type)
             (om_store G_SEQUENCE_ID (j_of_int64 seqid) []))))"

section \<open>FCM connections\<close>

text \<open>A call on connection \<open>i\<close>: how it ended and what it did.\<close>

definition fcm_run :: "int \<Rightarrow> (fcmconn, unit) M \<Rightarrow> (app, (fault + unit) \<times> fcm_act list) M" where
  "fcm_run i m a =
     (case om_find (ap_fcmConnectionsMap a) i of
        None \<Rightarrow> (Inr (Inr (), []), a)
      | Some c \<Rightarrow> (case m (c \<lparr> fc_acts := [] \<rparr>) of (r, c') \<Rightarrow>
          (Inr (r, fc_acts c'),
           a \<lparr> ap_fcmConnectionsMap := om_store i (c' \<lparr> fc_acts := [] \<rparr>) (ap_fcmConnectionsMap a) \<rparr>)))"

text \<open>An action takes place: it is logged, and a single-shot timer is started.\<close>

definition log_act :: "int \<Rightarrow> fcm_act \<Rightarrow> (app, unit) M" where
  "log_act i x =
     thenM (modify (\<lambda>a. a \<lparr> ap_log := ap_log a @ [(i, x)] \<rparr>))
           (case x of SingleShot msec t \<Rightarrow> start_timer msec (TFcm i t) | _ \<Rightarrow> ret ())"

text \<open>A call that raises no signal a slot acts on.\<close>

definition fcm_call :: "int \<Rightarrow> (fcmconn, unit) M \<Rightarrow> (app, unit) M" where
  "fcm_call i m = bindM (fcm_run i m) (\<lambda>(r, as). thenM (forM as (log_act i)) (liftM r))"

text \<open>\<^verbatim>\<open>emit sendMessage(data)\<close>: the connected slots run in the order of their connection.\<close>

definition sendMessage :: "env \<Rightarrow> json \<Rightarrow> (app, unit) M" where
  "sendMessage E data =
     bindM (gets ap_sendSlots) (\<lambda>ids. forM ids (\<lambda>i. fcm_call i (handleSendMessage E data)))"

definition getNextFcmConnectionId :: "(app, int) M" where
  "getNextFcmConnectionId =
     bindM (getsE (\<lambda>a. inc32 (ap_fcmConnCount a))) (\<lambda>i.
       thenM (modify (\<lambda>a. a \<lparr> ap_fcmConnCount := i \<rparr>)) (ret i))"

definition createFcmHandle :: "env \<Rightarrow> (app, int) M" where
  "createFcmHandle E =
     bindM getNextFcmConnectionId (\<lambda>i.
       thenM (modify (\<lambda>a. a \<lparr> ap_fcmConnectionsMap :=
                om_emplace i (FcmConnection (std_seed E (nat i)) 0 i) (ap_fcmConnectionsMap a) \<rparr>))
             (ret i))"

text \<open>The slots for the signals of a handle are the same for every handle (\<open>fcm_slot\<close> below).\<close>

definition setupFcmHandle :: "int \<Rightarrow> (app, unit) M" where
  "setupFcmHandle i = modify (\<lambda>a. a \<lparr> ap_sendSlots := ap_sendSlots a @ [i] \<rparr>)"

definition FCM_TAG_RX :: "int \<Rightarrow> string" where "FCM_TAG_RX i = ''RX['' @ show_int i @ '']:''"
definition FCM_TAG_TX :: "int \<Rightarrow> string" where "FCM_TAG_TX i = ''TX['' @ show_int i @ '']:''"

definition handleFcmConnectionStarted :: "int \<Rightarrow> (app, unit) M" where
  "handleFcmConnectionStarted i = say (FCM_TAG_TX i @ ''Connecting to FCM server...'')"

text \<open>The three lines that open a connection, in \<^verbatim>\<open>start\<close> and when draining starts.  The call's only
  signal is \<^verbatim>\<open>connectionStarted\<close>.\<close>

definition openFcmHandle :: "env \<Rightarrow> (app, unit) M" where
  "openFcmHandle E =
     bindM (createFcmHandle E) (\<lambda>i.
       thenM (setupFcmHandle i)
      (bindM (gets id) (\<lambda>a.
         thenM (fcm_call i (connectToFcm (ap_fcmServerId a) (ap_fcmServerKey a) (ap_fcmHostAddress a) (ap_fcmPortNo a)))
               (handleFcmConnectionStarted i))))"

section \<open>Sending to FCM\<close>

definition uploadToFcm :: "env \<Rightarrow> ptr \<Rightarrow> (app, unit) M" where
  "uploadToFcm E p = bindM (payload_of p) (sendMessage E)"

definition sendFcmAckMessage :: "env \<Rightarrow> json \<Rightarrow> (app, unit) M" where
  "sendFcmAckMessage E original_msg =
     (let to = j_string (doc_object original_msg) ''from'';
          mid = j_string (doc_object original_msg) ''message_id''
      in sendMessage E (JObject (om_store F_MESSAGE_TYPE (JString ''ack'')
                                (om_store F_MESSAGE_ID (JString (c_str mid))
                                (om_store F_TO (JString (c_str to)) [])))))"

definition sendNextPendingDownstreamMessage :: "env \<Rightarrow> (app, unit) M" where
  "sendNextPendingDownstreamMessage E =
     bindM (getsE (\<lambda>a. getNext (ap_heap a) (ap_fcmMsgManager a))) (\<lambda>nextmsg.
       case nextmsg of None \<Rightarrow> ret () | Some p \<Rightarrow> uploadToFcm E p)"

section \<open>Sending to a business application\<close>

definition findBalMessageManager :: "string \<Rightarrow> (app, unit) M" where
  "findBalMessageManager sid =
     getsE (\<lambda>a. case om_find (ap_balSessionMap a) sid of
       Some _ \<Rightarrow> Inr () | None \<Rightarrow> Inl (Throw (NoMessageManager sid)))"

definition findBalSession :: "string \<Rightarrow> (app, balsession) M" where
  "findBalSession sid =
     getsE (\<lambda>a. case om_find (ap_balSessionMap a) sid of
       Some s \<Rightarrow> Inr s | None \<Rightarrow> Inl (Throw (UnknownBalSession sid)))"

definition write_session :: "env \<Rightarrow> balsession \<Rightarrow> json \<Rightarrow> (app, unit) M" where
  "write_session E sess j = zoom ap_wire (\<lambda>w a. a \<lparr> ap_wire := w \<rparr>) (writeMessage E sess j)"

text \<open>The manager of the argument is the one of session \<open>sid\<close>.\<close>

definition sendNextPendingUpstreamMessage :: "env \<Rightarrow> string \<Rightarrow> (app, unit) M" where
  "sendNextPendingUpstreamMessage E sid =
     bindM (getsE (\<lambda>a. getNext (ap_heap a) (bs_msgManager (the_session sid a)))) (\<lambda>nextmsg.
       case nextmsg of
         None \<Rightarrow> ret ()
       | Some p \<Rightarrow>
           bindM (payload_of p) (\<lambda>jdoc.
           bindM (gets (\<lambda>a. msg_targetSessionId (ap_heap a p))) (\<lambda>sessid.
           bindM (findBalSession sessid) (\<lambda>sess.
             write_session E sess jdoc))))"

definition forwardMsg :: "env \<Rightarrow> string \<Rightarrow> ptr \<Rightarrow> (app, unit) M" where
  "forwardMsg E sid p =
     bindM (findBalSession sid) (\<lambda>sess.
       if bs_state sess = UNAUTHENTICATED then ret ()
       else bindM (payload_of p) (\<lambda>jdoc. tryM (write_session E sess jdoc)))"

definition forwardMsgToBalsession :: "env \<Rightarrow> string \<Rightarrow> ptr \<Rightarrow> (app, unit) M" where
  "forwardMsgToBalsession E sid p =
     thenM (findBalMessageManager sid)
    (bindM (gets ap_heap) (\<lambda>h.
     thenM (on_bal_mgr sid (addMessage h (msg_sequenceId (h p)) p))
    (bindM (getsE (\<lambda>a. canSendMessage (ap_heap a) (bs_msgManager (the_session sid a)) p)) (\<lambda>rcode.
       if rcode = 0 then
         thenM (update_msg E p PENDING_ACK)
        (thenM (set_state p PENDING_ACK)
        (thenM (on_bal_mgr sid (modify incrementPendingAckCount))
               (forwardMsg E sid p)))
       else ret ()))))"

text \<open>The failure notice: a new message is saved for the source session, and the session is written
  the payload of the failed message.\<close>

definition notifyDownstreamUploadFailure :: "env \<Rightarrow> ptr \<Rightarrow> (app, unit) M" where
  "notifyDownstreamUploadFailure E p =
     bindM (payload_of p) (\<lambda>jdoc. tryM (
       bindM (on_db getNextSequenceId) (\<lambda>nextseqid.
       bindM (gets (\<lambda>a. ap_heap a p)) (\<lambda>msg.
         let sessid = msg_sourceSessionId msg;
             root = om_store G_FCM_DATA (JObject (doc_object jdoc))
                   (om_store G_ERROR_DESC (JString ''Max retry reached.'')
                   (om_store G_SESSION_ID (JString (c_str sessid))
                   (om_store G_MESSAGE_TYPE (JString ''DOWNSTREAM_REJECT'')
                   (om_store G_SEQUENCE_ID (j_of_int64 nextseqid) []))))
         in bindM (new_msg (\<lambda>q. (Message_default E q)
                    \<lparr> msg_sequenceId := nextseqid, msg_type := DOWNSTREAM_REJECT,
                      msg_fcmMessageId := msg_fcmMessageId msg, msg_targetSessionId := sessid,
                      msg_state := PENDING_ACK, msg_payload := Some (JObject root) \<rparr>)) (\<lambda>q.
            thenM (save_msg E q)
           (bindM (findBalSession sessid) (\<lambda>sess. write_session E sess jdoc)))))))"

section \<open>Retries\<close>

definition retryDownstreamWithExponentialBackoff :: "env \<Rightarrow> ptr \<Rightarrow> (app, unit) M" where
  "retryDownstreamWithExponentialBackoff E p =
     bindM (on_msg p (getNextRetryTimeout E)) (\<lambda>msec.
       if msec \<noteq> - 1 then thenM (set_retry p True) (start_timer msec (TRetryDownstream p))
       else
         thenM (update_msg E p DELIVERY_FAILED)
        (bindM (gets ap_heap) (\<lambda>h.
         thenM (on_fcm_mgr (removeMessageWithFcmMsgId h (msg_fcmMessageId (h p))))
               (notifyDownstreamUploadFailure E p))))"

definition retryUpstreamWithExponentialBackoff :: "env \<Rightarrow> ptr \<Rightarrow> (app, unit) M" where
  "retryUpstreamWithExponentialBackoff E p =
     bindM (on_msg p (getNextRetryTimeout E)) (\<lambda>msec.
       if msec \<noteq> - 1 then thenM (set_retry p True) (start_timer msec (TRetryUpstream p))
       else
         thenM (update_msg E p DELIVERY_FAILED)
        (bindM (gets ap_heap) (\<lambda>h.
           let sid = msg_targetSessionId (h p) in
           thenM (findBalMessageManager sid)
                 (on_bal_mgr sid (removeMessageWithFcmMsgId h (msg_fcmMessageId (h p)))))))"

section \<open>The resend loops\<close>

text \<open>
  \<^verbatim>\<open>for (auto& it : msgmap) body\<close> over the queue of a manager.  No body adds an entry.  An entry
  that an earlier turn erased is not visited; erasing the entry the loop is at leaves it with
  an iterator that may not be advanced.
\<close>

definition for_queue :: "(app \<Rightarrow> manager) \<Rightarrow> (ptr \<Rightarrow> (app, unit) M) \<Rightarrow> (app, unit) M" where
  "for_queue mgr body =
     bindM (gets (\<lambda>a. mm_messages (mgr a))) (\<lambda>q.
       forM q (\<lambda>(k, p).
         bindM (gets (\<lambda>a. om_find (mm_messages (mgr a)) k)) (\<lambda>here.
           if here = None then ret ()
           else thenM (body p)
               (bindM (gets (\<lambda>a. om_find (mm_messages (mgr a)) k)) (\<lambda>still.
                  if still = None then raise (Undefined IteratorInvalidated) else ret ())))))"

definition resend_upstream :: "env \<Rightarrow> string \<Rightarrow> ptr \<Rightarrow> (app, unit) M" where
  "resend_upstream E sid p =
     bindM (gets (\<lambda>a. ap_heap a p)) (\<lambda>msg.
       if msg_type msg \<noteq> UPSTREAM \<and> msg_type msg \<noteq> DOWNSTREAM_ACK \<and>
          msg_type msg \<noteq> DOWNSTREAM_REJECT \<and> msg_type msg \<noteq> DOWNSTREAM_RECEIPT then ret ()
       else bindM (getsE (\<lambda>a. canSendMessageOnReconnect (ap_heap a) (bs_msgManager (the_session sid a)) p)) (\<lambda>rcode.
         if rcode = 0 then
           thenM (whenM (msg_state msg \<noteq> PENDING_ACK)
                    (thenM (update_msg E p PENDING_ACK) (on_bal_mgr sid (modify incrementPendingAckCount))))
                 (forwardMsg E sid p)
         else if rcode = 2 then retryUpstreamWithExponentialBackoff E p
         else if rcode = 3 then ret ()
         else bindM (gets ap_heap) (\<lambda>h. on_bal_mgr sid (removeMessage h (msg_sequenceId msg)))))"

definition resendPendingUpstreamMessages :: "env \<Rightarrow> string \<Rightarrow> (app, unit) M" where
  "resendPendingUpstreamMessages E sid =
     for_queue (\<lambda>a. bs_msgManager (the_session sid a)) (resend_upstream E sid)"

definition resend_downstream :: "env \<Rightarrow> ptr \<Rightarrow> (app, unit) M" where
  "resend_downstream E p =
     bindM (gets (\<lambda>a. ap_heap a p)) (\<lambda>msg.
       if msg_type msg \<noteq> DOWNSTREAM then ret ()
       else bindM (getsE (\<lambda>a. canSendMessageOnReconnect (ap_heap a) (ap_fcmMsgManager a) p)) (\<lambda>rcode.
         if rcode = 0 then bindM (payload_of p) (sendMessage E)
         else if rcode = 2 then retryDownstreamWithExponentialBackoff E p
         else ret ()))"

definition resendAllPendingDownstreamMessages :: "env \<Rightarrow> (app, unit) M" where
  "resendAllPendingDownstreamMessages E = for_queue ap_fcmMsgManager (resend_downstream E)"

section \<open>The slots for the signals of an FCM connection\<close>

definition handleFcmStreamClosed :: "int \<Rightarrow> (app, unit) M" where
  "handleFcmStreamClosed i = say (FCM_TAG_RX i @ ''Recieved stream closed from FCM.'')"

definition handleFcmHeartbeatRecieved :: "int \<Rightarrow> (app, unit) M" where
  "handleFcmHeartbeatRecieved i = say (FCM_TAG_RX i @ ''Recieved keepalive from FCM'')"

text \<open>The text of an exception holds a file and a line of the program; \<open>what\<close> stands for it.\<close>

fun err_string :: "(exn \<Rightarrow> string) \<Rightarrow> err_text \<Rightarrow> string" where
  "err_string what (ErrText t) = t"
| "err_string what (ErrWhat e) = what e"

definition handleFcmConnectionError :: "(exn \<Rightarrow> string) \<Rightarrow> int \<Rightarrow> err_text \<Rightarrow> (app, unit) M" where
  "handleFcmConnectionError what i err =
     say (FCM_TAG_RX i @ ''ERROR. Error string['' @ err_string what err @ '']'')"

definition handleFcmConnectionEstablished :: "int \<Rightarrow> (app, unit) M" where
  "handleFcmConnectionEstablished i =
     say (FCM_TAG_RX i @ ''Secure TLS channel established with FCM server...'')"

definition handleFcmXmppHandshakeStarted :: "int \<Rightarrow> (app, unit) M" where
  "handleFcmXmppHandshakeStarted i = say (FCM_TAG_TX i @ ''Starting XMPP handshake. Opening stream...'')"

definition handleFcmConnectionLost :: "int \<Rightarrow> (app, unit) M" where
  "handleFcmConnectionLost i = say (FCM_TAG_RX i @ ''Disconnected to FCM server.'')"

definition handleFcmConnectionShutdownStarted :: "int \<Rightarrow> (app, unit) M" where
  "handleFcmConnectionShutdownStarted i = say (FCM_TAG_RX i @ ''Shuting down connection to FCM...'')"

definition handleFcmConnectionShutdownCompleted :: "int \<Rightarrow> (app, unit) M" where
  "handleFcmConnectionShutdownCompleted i = say (FCM_TAG_RX i @ ''Connection to FCM shutdown successfully.'')"

definition handleFcmSessionEstablished :: "env \<Rightarrow> int \<Rightarrow> (app, unit) M" where
  "handleFcmSessionEstablished E i = resendAllPendingDownstreamMessages E"

text \<open>The handle that is disconnected from \<^verbatim>\<open>sendMessage\<close> is the last one of the map, whichever
  handle \<open>i\<close> announced the draining.\<close>

definition handleFcmConnectionDrainingStarted :: "env \<Rightarrow> int \<Rightarrow> (app, unit) M" where
  "handleFcmConnectionDrainingStarted E i =
     bindM (getsE (\<lambda>a. if ap_fcmConnectionsMap a = [] then Inl (Undefined EndDeref)
                       else Inr (fst (last (ap_fcmConnectionsMap a))))) (\<lambda>lastFcmHandle.
       thenM (modify (\<lambda>a. a \<lparr> ap_sendSlots := filter (\<lambda>k. k \<noteq> lastFcmHandle) (ap_sendSlots a) \<rparr>))
             (openFcmHandle E))"

definition handleFcmNewUpstreamMessage :: "env \<Rightarrow> int \<Rightarrow> json \<Rightarrow> (app, unit) M" where
  "handleFcmNewUpstreamMessage E i client_msg =
     (let sessionid = j_string (doc_object client_msg) F_CATEGORY;
          fcm_mid = j_string (doc_object client_msg) F_MESSAGE_ID
      in tryM (
        bindM (on_db getNextSequenceId) (\<lambda>nextseqid.
        bindM (new_msg (\<lambda>p. Message_new E p nextseqid UPSTREAM fcm_mid [] ''fcm'' sessionid
                 (Some (gimmm_msg nextseqid ''UPSTREAM'' sessionid (doc_object client_msg))) NEW)) (\<lambda>p.
          thenM (print_msg E p)
         (thenM (save_msg E p)
         (thenM (sendFcmAckMessage E client_msg)
                (forwardMsgToBalsession E sessionid p)))))))"

definition handleFcmAckMessage :: "env \<Rightarrow> int \<Rightarrow> json \<Rightarrow> (app, unit) M" where
  "handleFcmAckMessage E i ack_msg =
     (let mid = j_string (doc_object ack_msg) F_MESSAGE_ID in tryM (
        bindM (getsE (\<lambda>a. findMessageWithFcmMsgId (ap_fcmMsgManager a) mid)) (\<lambda>p.
        bindM (gets (\<lambda>a. msg_sourceSessionId (ap_heap a p))) (\<lambda>sessid.
          thenM (update_msg E p DELIVERED)
         (bindM (gets ap_heap) (\<lambda>h.
          thenM (on_fcm_mgr (removeMessageWithFcmMsgId h mid))
         (thenM (sendNextPendingDownstreamMessage E)
         (bindM (on_db getNextSequenceId) (\<lambda>newseqid.
          bindM (new_msg (\<lambda>q. Message_new E q newseqid DOWNSTREAM_ACK mid [] ''fcm'' sessid
                   (Some (gimmm_msg newseqid ''DOWNSTREAM_ACK'' sessid (doc_object ack_msg))) NEW)) (\<lambda>q.
            thenM (save_msg E q)
                  (forwardMsgToBalsession E sessid q)))))))))))"

definition retriable_nack :: "string \<Rightarrow> bool" where
  "retriable_nack error \<longleftrightarrow>
     error = ''SERVICE_UNAVAILABLE'' \<or> error = ''INTERNAL_SERVER_ERROR'' \<or>
     error = ''DEVICE_MESSAGE_RATE_EXCEEDED'' \<or> error = ''TOPICS_MESSAGE_RATE_EXCEEDED'' \<or>
     error = ''CONNECTION_DRAINING''"

definition handleFcmNackMessage :: "env \<Rightarrow> int \<Rightarrow> json \<Rightarrow> (app, unit) M" where
  "handleFcmNackMessage E i nack_msg =
     (let msg_id = j_string (doc_object nack_msg) F_MESSAGE_ID;
          error = j_string (doc_object nack_msg) F_ERROR
      in tryM (
        bindM (getsE (\<lambda>a. findMessageWithFcmMsgId (ap_fcmMsgManager a) msg_id)) (\<lambda>origmsg.
          if retriable_nack error then retryDownstreamWithExponentialBackoff E origmsg
          else
            thenM (update_msg E origmsg DELIVERY_FAILED)
           (bindM (gets ap_heap) (\<lambda>h.
            thenM (on_fcm_mgr (removeMessageWithFcmMsgId h msg_id))
           (thenM (sendNextPendingDownstreamMessage E)
                  (notifyDownstreamUploadFailure E origmsg)))))))"

definition handleFcmReceiptMessage :: "env \<Rightarrow> int \<Rightarrow> json \<Rightarrow> (app, unit) M" where
  "handleFcmReceiptMessage E i recpt_msg =
     (let sessionid = j_string (doc_object recpt_msg) F_CATEGORY;
          fcm_mid = j_string (doc_object recpt_msg) F_MESSAGE_ID
      in tryM (
        bindM (on_db getNextSequenceId) (\<lambda>nextseqid.
        bindM (new_msg (\<lambda>p. (Message_default E p)
                 \<lparr> msg_sequenceId := nextseqid, msg_type := DOWNSTREAM_RECEIPT, msg_fcmMessageId := fcm_mid,
                   msg_sourceSessionId := ''fcm'', msg_targetSessionId := sessionid,
                   msg_payload := Some (gimmm_msg nextseqid ''DOWNSTREAM_RECEIPT'' sessionid (doc_object recpt_msg)),
                   msg_state := NEW \<rparr>)) (\<lambda>p.
          thenM (print_msg E p)
         (thenM (save_msg E p)
                (forwardMsgToBalsession E sessionid p))))))"

text \<open>The connections \<^verbatim>\<open>setupFcmHandle\<close> makes from the signals of a handle; the other signals have no
  slot.\<close>

fun fcm_slot :: "env \<Rightarrow> (exn \<Rightarrow> string) \<Rightarrow> fcm_signal \<Rightarrow> (app, unit) M" where
  "fcm_slot E what (connectionStarted i) = handleFcmConnectionStarted i"
| "fcm_slot E what (connectionEstablished i) = handleFcmConnectionEstablished i"
| "fcm_slot E what (connectionShutdownStarted i) = handleFcmConnectionShutdownStarted i"
| "fcm_slot E what (connectionShutdownCompleted i) = handleFcmConnectionShutdownCompleted i"
| "fcm_slot E what (connectionLost i) = handleFcmConnectionLost i"
| "fcm_slot E what (connectionDrainingStarted i) = handleFcmConnectionDrainingStarted E i"
| "fcm_slot E what (xmppHandshakeStarted i) = handleFcmXmppHandshakeStarted i"
| "fcm_slot E what (sessionEstablished i) = handleFcmSessionEstablished E i"
| "fcm_slot E what (streamClosed i) = handleFcmStreamClosed i"
| "fcm_slot E what (heartbeatRecieved i) = handleFcmHeartbeatRecieved i"
| "fcm_slot E what (connectionError i t) = handleFcmConnectionError what i t"
| "fcm_slot E what (newMessage i j) = handleFcmNewUpstreamMessage E i j"
| "fcm_slot E what (newAckMessage i j) = handleFcmAckMessage E i j"
| "fcm_slot E what (newNackMessage i j) = handleFcmNackMessage E i j"
| "fcm_slot E what (newReceiptMessage i j) = handleFcmReceiptMessage E i j"
| "fcm_slot E what (connectionDrainingCompleted i) = ret ()"
| "fcm_slot E what (saslSucess i) = ret ()"
| "fcm_slot E what (streamOpened i) = ret ()"

text \<open>
  An event at connection \<open>i\<close>: its actions take place in order, each signal running its slot where it
  is emitted.  A slot reaches the connection again only through \<^verbatim>\<open>handleSendMessage\<close>, which
  reads none of its fields, so the actions can be computed first.  That no slot throws, which would
  interrupt the parser and reach the \<^verbatim>\<open>catch\<close> of \<^verbatim>\<open>handleReadyRead\<close>, is proved in \<open>App_Throws\<close>.
\<close>

definition deliver :: "env \<Rightarrow> (exn \<Rightarrow> string) \<Rightarrow> int \<Rightarrow> fcm_act \<Rightarrow> (app, unit) M" where
  "deliver E what i x =
     thenM (log_act i x) (case x of Emit s \<Rightarrow> fcm_slot E what s | _ \<Rightarrow> ret ())"

definition fcm_event_at :: "env \<Rightarrow> (exn \<Rightarrow> string) \<Rightarrow> int \<Rightarrow> (fcmconn, unit) M \<Rightarrow> (app, unit) M" where
  "fcm_event_at E what i m =
     bindM (fcm_run i m) (\<lambda>(r, as). thenM (forM as (deliver E what i)) (liftM r))"

section \<open>The slots for the business applications\<close>

text \<open>
  A connection object is shared: the map of the unauthenticated connections, the sessions and the
  closure of a logon timer own it; the timer goes with its context.  Who drops a reference calls
  \<open>release_conn\<close>, and the last one runs \<^verbatim>\<open>~BALConn\<close>: the context goes, and the socket with the next
  turn of the event loop.
\<close>

definition conn_owned :: "sock \<Rightarrow> app \<Rightarrow> bool" where
  "conn_owned s a \<longleftrightarrow>
     s \<in> set (map snd (ap_balSessionMapU a)) \<or> Some s \<in> set (map (bs_balConn \<circ> snd) (ap_balSessionMap a)) \<or>
     (bc_timerContext (ap_conns a s) \<and> TLogonTimeout s \<in> set (map snd (ap_timers a)))"

definition BALConn_destroy :: "sock \<Rightarrow> app \<Rightarrow> app" where
  "BALConn_destroy s a =
     a \<lparr> ap_conns := (ap_conns a)(s := deleteTimerContext (ap_conns a s)), ap_deleteLater := ap_deleteLater a @ [s] \<rparr>"

definition release_conn :: "sock \<Rightarrow> (app, unit) M" where
  "release_conn s = modify (\<lambda>a. if conn_owned s a then a else BALConn_destroy s a)"

definition release_opt :: "sock option \<Rightarrow> (app, unit) M" where
  "release_opt c = (case c of None \<Rightarrow> ret () | Some s \<Rightarrow> release_conn s)"

definition handleNewBALConnection :: "int \<Rightarrow> (app, unit) M" where
  "handleNewBALConnection desc =
     bindM (gets ap_nextSock) (\<lambda>s.
       thenM (modify (\<lambda>a. a \<lparr> ap_nextSock := Suc s, ap_descriptor := (ap_descriptor a)(s := desc),
                ap_sessionProp := (ap_sessionProp a)(s := []), ap_inbuf := (ap_inbuf a)(s := []),
                ap_blocked := (ap_blocked a)(s := False) \<rparr>))
      (thenM (modify (\<lambda>a. a \<lparr> ap_conns := (ap_conns a)(s := BALConn s) \<rparr>))
      (thenM (modify (\<lambda>a. a \<lparr> ap_balSessionMapU := om_emplace desc s (ap_balSessionMapU a) \<rparr>))
             (start_timer MAX_LOGON_MSG_WAIT_TIME (TLogonTimeout s)))))"

definition handleBalAuthenticationTimeout :: "sock \<Rightarrow> (app, unit) M" where
  "handleBalAuthenticationTimeout s =
     bindM (gets (\<lambda>a. om_find (ap_balSessionMapU a) (ap_descriptor a s))) (\<lambda>erased.
       thenM (modify (\<lambda>a. a \<lparr> ap_blocked := (ap_blocked a)(s := True) \<rparr>))
      (thenM (modify (\<lambda>a. a \<lparr> ap_balSessionMapU := om_erase (ap_descriptor a s) (ap_balSessionMapU a) \<rparr>))
             (thenM (release_opt (if erased = Some s then None else erased)) (release_conn s))))"

definition handleBalAckMsg :: "env \<Rightarrow> string \<Rightarrow> int \<Rightarrow> (app, unit) M" where
  "handleBalAckMsg E sid seqid = tryM (
     thenM (findBalMessageManager sid)
    (bindM (getsE (\<lambda>a. findMessage (bs_msgManager (the_session sid a)) seqid)) (\<lambda>p.
       thenM (update_msg E p DELIVERED)
      (bindM (gets ap_heap) (\<lambda>h.
       thenM (on_bal_mgr sid (removeMessage h seqid))
             (sendNextPendingUpstreamMessage E sid))))))"

definition logon_reply :: "string \<Rightarrow> json" where
  "logon_reply sid =
     JObject (om_store ''status'' (JString ''SUCCESS'')
             (om_store ''session_id'' (JString (c_str sid))
             (om_store ''message_type'' (JString ''LOGON_RESPONSE'') [])))"

definition handleBalLogonRequest :: "env \<Rightarrow> sock \<Rightarrow> string \<Rightarrow> (app, unit) M" where
  "handleBalLogonRequest E s sid =
     bindM (gets (\<lambda>a. om_find (ap_balSessionMapU a) (ap_descriptor a s))) (\<lambda>it.
       case it of
         None \<Rightarrow> ret ()
       | Some conn \<Rightarrow>
           thenM (modify (\<lambda>a. a \<lparr> ap_conns := (ap_conns a)(conn := deleteTimerContext (ap_conns a conn)) \<rparr>))
          (thenM (modify (\<lambda>a. a \<lparr> ap_balSessionMapU := om_erase (ap_descriptor a s) (ap_balSessionMapU a) \<rparr>))
          (bindM (gets (\<lambda>a. om_find (ap_balSessionMap a) sid)) (\<lambda>it1.
             case it1 of
               None \<Rightarrow> release_conn conn
             | Some sess0 \<Rightarrow>
                 thenM (modify (\<lambda>a. put_session sid ((the_session sid a) \<lparr> bs_balConn := Some conn \<rparr>) a))
                (thenM (release_opt (bs_balConn sess0))
                (thenM (modify (\<lambda>a. a \<lparr> ap_sessionProp := (ap_sessionProp a)(conn := c_str sid) \<rparr>))
                (thenM (modify (\<lambda>a. put_session sid ((the_session sid a) \<lparr> bs_state := AUTHENTICATED \<rparr>) a))
                (thenM (bindM (findBalSession sid) (\<lambda>sess. write_session E sess (logon_reply sid)))
                       (start_timer 1000 (TResendUpstream sid))))))))))"

text \<open>\<^verbatim>\<open>getConn()\<close> returns a copy of the pointer, and resetting the copy leaves the session's
  connection as it is.\<close>

definition handleBALSocketDisconnected :: "sock \<Rightarrow> (app, unit) M" where
  "handleBALSocketDisconnected s =
     bindM (gets (\<lambda>a. om_find (ap_balSessionMapU a) (ap_descriptor a s))) (\<lambda>it.
       case it of
         Some conn \<Rightarrow>
           thenM (modify (\<lambda>a. a \<lparr> ap_conns := (ap_conns a)(conn := deleteTimerContext (ap_conns a conn)) \<rparr>))
                (thenM (modify (\<lambda>a. a \<lparr> ap_balSessionMapU := om_erase (ap_descriptor a s) (ap_balSessionMapU a) \<rparr>))
                       (release_conn conn))
       | None \<Rightarrow>
           bindM (gets (\<lambda>a. ap_sessionProp a s)) (\<lambda>sid.
             bindM (gets (\<lambda>a. om_find (ap_balSessionMap a) sid)) (\<lambda>it1.
               case it1 of
                 None \<Rightarrow> ret ()
               | Some _ \<Rightarrow>
                   modify (\<lambda>a. put_session sid ((the_session sid a) \<lparr> bs_state := UNAUTHENTICATED \<rparr>) a))))"

definition handleBalDownstreamUploadRequest :: "env \<Rightarrow> string \<Rightarrow> json \<Rightarrow> (app, unit) M" where
  "handleBalDownstreamUploadRequest E sid msg =
     (let gid = j_string (doc_object msg) G_GROUP_ID;
          data = j_object (doc_object msg) G_FCM_DATA;
          fcm_mid = j_string data F_MESSAGE_ID
      in bindM (on_db getNextSequenceId) (\<lambda>nextseqid.
         bindM (new_msg (\<lambda>p. Message_new E p nextseqid DOWNSTREAM fcm_mid gid sid ''fcm'' (Some (JObject data)) NEW)) (\<lambda>p.
           thenM (print_msg E p)
          (thenM (save_msg E p)
          (bindM (gets ap_heap) (\<lambda>h.
           thenM (on_fcm_mgr (addMessage h nextseqid p))
          (bindM (getsE (\<lambda>a. canSendMessage (ap_heap a) (ap_fcmMsgManager a) p)) (\<lambda>rcode.
             if rcode = 0 then
               thenM (update_msg E p PENDING_ACK)
              (thenM (set_state p PENDING_ACK)
              (thenM (on_fcm_mgr (modify incrementPendingAckCount))
                     (uploadToFcm E p)))
             else ret ()))))))))"

definition handleBALmsg :: "env \<Rightarrow> sock \<Rightarrow> json \<Rightarrow> (app, unit) M" where
  "handleBALmsg E s balmsg =
     (let type = j_string (doc_object balmsg) G_MESSAGE_TYPE in
      if type = ''LOGON'' then handleBalLogonRequest E s (j_string (doc_object balmsg) G_SESSION_ID)
      else if type = ''DOWNSTREAM'' then
        bindM (gets (\<lambda>a. ap_sessionProp a s)) (\<lambda>sid. handleBalDownstreamUploadRequest E sid balmsg)
      else if type = ''ACK'' then
        bindM (gets (\<lambda>a. ap_sessionProp a s)) (\<lambda>sid.
          handleBalAckMsg E sid (j_int E (doc_object balmsg) G_SEQUENCE_ID))
      else raise (Throw (UnknownMessageType type)))"

text \<open>The loop over the complete frames in the socket; an incomplete one stays for the next
  \<^verbatim>\<open>readyRead\<close>.\<close>

primrec bal_read_loop :: "nat \<Rightarrow> env \<Rightarrow> sock \<Rightarrow> (app, unit) M" where
  "bal_read_loop 0 E s = raise OutOfFuel"
| "bal_read_loop (Suc n) E s =
     bindM (gets (\<lambda>a. ap_inbuf a s)) (\<lambda>buf.
       if buf = [] then ret ()
       else (case qt_unframe E buf of
               None \<Rightarrow> ret ()
             | Some (bytes, rest) \<Rightarrow>
                 thenM (modify (\<lambda>a. a \<lparr> ap_inbuf := (ap_inbuf a)(s := rest) \<rparr>))
                (thenM (tryM (handleBALmsg E s (qt_fromBinaryData E bytes)))
                       (bal_read_loop n E s))))"

definition handleBALSocketReadyRead :: "env \<Rightarrow> sock \<Rightarrow> (app, unit) M" where
  "handleBALSocketReadyRead E s =
     bindM (gets (\<lambda>a. length (ap_inbuf a s))) (\<lambda>n. bal_read_loop (Suc n) E s)"

section \<open>Start\<close>

text \<open>What the start takes from the machine: whether \<^verbatim>\<open>config.ini\<close> exists, its values, Qt's reading of a
  text as an integer (0 for none), whether Qt takes a text as an address, whether the \<open>n\<close>-th
  \<^verbatim>\<open>socketpair\<close> fails, and whether the server can listen.\<close>

record host =
  h_configExists :: bool
  h_ini :: "string \<Rightarrow> string option"
  h_toInt :: "string \<Rightarrow> int"
  h_setAddress :: "string \<Rightarrow> bool"
  h_socketpairFails :: "nat \<Rightarrow> bool"
  h_listen :: "string \<Rightarrow> 16 word \<Rightarrow> bool"

definition ini_string :: "host \<Rightarrow> string \<Rightarrow> string" where
  "ini_string H k = (case h_ini H k of Some t \<Rightarrow> t | None \<Rightarrow> ''NULL'')"

text \<open>The \<^verbatim>\<open>int\<close> is stored in a \<^verbatim>\<open>quint16\<close>.\<close>

definition ini_port :: "host \<Rightarrow> string \<Rightarrow> 16 word" where
  "ini_port H k = word_of_int (case h_ini H k of Some t \<Rightarrow> h_toInt H t | None \<Rightarrow> 0)"

definition exit_if :: "bool \<Rightarrow> (app, unit) M" where
  "exit_if b = (if b then raise Exit else ret ())"

definition readConfigFile :: "host \<Rightarrow> (app, unit) M" where
  "readConfigFile H =
     thenM (exit_if (\<not> h_configExists H))
    (thenM (modify (\<lambda>a. a \<lparr> ap_fcmServerId := ini_string H ''FCM_SECTION/server_id'' \<rparr>))
    (thenM (exit_if (ini_string H ''FCM_SECTION/server_id'' = ''NULL''))
    (thenM (modify (\<lambda>a. a \<lparr> ap_fcmServerKey := ini_string H ''FCM_SECTION/server_key'' \<rparr>))
    (thenM (exit_if (ini_string H ''FCM_SECTION/server_key'' = ''NULL''))
    (thenM (modify (\<lambda>a. a \<lparr> ap_fcmPortNo := ini_port H ''FCM_SECTION/port_no'' \<rparr>))
    (thenM (exit_if (ini_port H ''FCM_SECTION/port_no'' = 0))
    (thenM (modify (\<lambda>a. a \<lparr> ap_fcmHostAddress := ini_string H ''FCM_SECTION/host_address'' \<rparr>))
    (thenM (exit_if (ini_string H ''FCM_SECTION/host_address'' = ''NULL''))
    (thenM (modify (\<lambda>a. a \<lparr> ap_serverPortNo := ini_port H ''SERVER_SECTION/port_no'' \<rparr>))
    (thenM (exit_if (ini_port H ''SERVER_SECTION/port_no'' = 0))
    (thenM (exit_if (ini_string H ''SERVER_SECTION/host_address'' = ''NULL''))
    (thenM (exit_if (\<not> h_setAddress H (ini_string H ''SERVER_SECTION/host_address'')))
    (thenM (modify (\<lambda>a. a \<lparr> ap_serverHostAddress := ini_string H ''SERVER_SECTION/host_address'' \<rparr>))
    (thenM (exit_if (ini_string H ''BAL_SECTION/session_id'' = ''NULL''))
           (let balclient = ini_string H ''BAL_SECTION/session_id'' in
            modify (\<lambda>a. a \<lparr> ap_balSessionMap :=
              om_emplace balclient (BALSession balclient UNAUTHENTICATED) (ap_balSessionMap a) \<rparr>))))))))))))))))"

text \<open>\<^verbatim>\<open>qFatal\<close> ends the process.\<close>

definition setupOsSignalCatcher :: "host \<Rightarrow> (app, unit) M" where
  "setupOsSignalCatcher H =
     thenM (exit_if (h_socketpairFails H 0))
    (thenM (exit_if (h_socketpairFails H 1))
           (modify (\<lambda>a. a \<lparr> ap_sigintPipe := 0, ap_sigtermPipe := 0 \<rparr>)))"

definition setupTcpServer :: "host \<Rightarrow> (app, unit) M" where
  "setupTcpServer H =
     bindM (gets (\<lambda>a. (ap_serverHostAddress a, ap_serverPortNo a))) (\<lambda>(addr, port).
       thenM (exit_if (\<not> h_listen H addr port)) (modify (\<lambda>a. a \<lparr> ap_listening := True \<rparr>)))"

text \<open>\<^verbatim>\<open>__dbConn.loadPendingMessages(msgmanager)\<close> on the manager of the FCM side, and on the one of a
  session.\<close>

definition load_fcm :: "env \<Rightarrow> (app, unit) M" where
  "load_fcm E =
     zoom (\<lambda>a. (ap_dbConn a, ap_heap a, ap_next a, ap_fcmMsgManager a))
          (\<lambda>(d, h, p, m) a. a \<lparr> ap_dbConn := d, ap_heap := h, ap_next := p, ap_fcmMsgManager := m \<rparr>)
          (loadPendingMessages E)"

definition load_bal :: "env \<Rightarrow> string \<Rightarrow> (app, unit) M" where
  "load_bal E sid =
     zoom (\<lambda>a. (ap_dbConn a, ap_heap a, ap_next a, bs_msgManager (the_session sid a)))
          (\<lambda>(d, h, p, m) a. put_session sid ((the_session sid a) \<lparr> bs_msgManager := m \<rparr>)
             (a \<lparr> ap_dbConn := d, ap_heap := h, ap_next := p \<rparr>))
          (loadPendingMessages E)"

definition start :: "env \<Rightarrow> host \<Rightarrow> (app, unit) M" where
  "start E H =
     thenM (readConfigFile H)
    (thenM (setupOsSignalCatcher H)
    (thenM (setupTcpServer H)
    (thenM (load_fcm E)
    (thenM (bindM (gets (\<lambda>a. map fst (ap_balSessionMap a))) (\<lambda>sids. forM sids (load_bal E)))
           (openFcmHandle E)))))"

text \<open>The members before the constructor's body; \<open>d\<close> is the database file, \<open>h\<close> the memory.\<close>

definition app_members :: "heap \<Rightarrow> db \<Rightarrow> app" where
  "app_members h d =
     \<lparr> ap_heap = h, ap_next = 0, ap_listening = False, ap_serverPortNo = 0, ap_serverHostAddress = [], ap_fcmConnCount = 0,
       ap_fcmConnectionsMap = [], ap_fcmServerId = [], ap_fcmServerKey = [], ap_fcmHostAddress = [],
       ap_fcmPortNo = 0, ap_fcmMsgManager = MessageManager_default ''fcm'', ap_balSessionMap = [],
       ap_balSessionMapU = [], ap_dbConn = d, ap_nextSock = 0, ap_conns = BALConn,
       ap_descriptor = (\<lambda>_. - 1), ap_sessionProp = (\<lambda>_. []), ap_inbuf = (\<lambda>_. []), ap_blocked = (\<lambda>_. False), ap_deleteLater = [],
       ap_wire = \<lparr> w_count = 0, w_out = [] \<rparr>, ap_sendSlots = [], ap_timers = [], ap_log = [], ap_out = [],
       ap_sigintPipe = 0, ap_sigtermPipe = 0, ap_quit = False \<rparr>"

definition Application :: "env \<Rightarrow> host \<Rightarrow> (app, unit) M" where
  "Application E H = thenM (on_db (DbConnection E)) (start E H)"

section \<open>POSIX signals\<close>

definition hupSignalHandler :: "(app, unit) M" where
  "hupSignalHandler = modify (\<lambda>a. a \<lparr> ap_sigintPipe := Suc (ap_sigintPipe a) \<rparr>)"

definition termSignalHandler :: "(app, unit) M" where
  "termSignalHandler = modify (\<lambda>a. a \<lparr> ap_sigtermPipe := Suc (ap_sigtermPipe a) \<rparr>)"

text \<open>The notifiers run these when a byte is there.\<close>

definition handleSigInt :: "(app, unit) M" where
  "handleSigInt = modify (\<lambda>a. a \<lparr> ap_sigintPipe := ap_sigintPipe a - 1, ap_quit := True \<rparr>)"

definition handleSigTerm :: "(app, unit) M" where
  "handleSigTerm = modify (\<lambda>a. a \<lparr> ap_sigtermPipe := ap_sigtermPipe a - 1, ap_quit := True \<rparr>)"

section \<open>The event loop\<close>

datatype app_event =
    AFcmEncrypted int
  | AFcmDisconnected int
  | AFcmReadyRead int string
  | AFcmSslErrors int "string list"
  | ANewBALConnection int
  | ABalReadyRead sock string
  | ABalDisconnected sock int
  | ATimer nat
  | AHup
  | ATerm
  | ASigInt
  | ASigTerm

text \<open>\<^verbatim>\<open>readyRead\<close> of an FCM socket runs each connected slot; the first one reads all the bytes, the
  later ones read none.  \<open>fuel\<close> bounds the loops over a reader by its state.\<close>

definition fcm_readyRead :: "env \<Rightarrow> (nat \<Rightarrow> nat) \<Rightarrow> xml_api \<Rightarrow> string \<Rightarrow> (fcmconn, unit) M" where
  "fcm_readyRead E fuel X bytes =
     bindM (gets fc_readyReadSlots) (\<lambda>n.
       forM (take n (bytes # replicate n [])) (\<lambda>b.
         bindM (gets (\<lambda>c. fuel (x_addData X b (fc_reader c)))) (\<lambda>k. handleReadyRead E k X b)))"

fun timer_fires :: "env \<Rightarrow> (exn \<Rightarrow> string) \<Rightarrow> app_timer \<Rightarrow> (app, unit) M" where
  "timer_fires E what (TRetryDownstream p) = thenM (uploadToFcm E p) (set_retry p False)"
| "timer_fires E what (TRetryUpstream p) =
     thenM (bindM (gets (\<lambda>a. msg_targetSessionId (ap_heap a p))) (\<lambda>sid. forwardMsg E sid p)) (set_retry p False)"
| "timer_fires E what (TResendUpstream sid) = resendPendingUpstreamMessages E sid"
| "timer_fires E what (TLogonTimeout s) =
     bindM (gets (\<lambda>a. bc_timerContext (ap_conns a s))) (\<lambda>alive.
       whenM alive (handleBalAuthenticationTimeout s))"
| "timer_fires E what (TFcm i t) = fcm_event_at E what i (fcm_timer_fires E t)"

fun app_handle :: "env \<Rightarrow> (exn \<Rightarrow> string) \<Rightarrow> (nat \<Rightarrow> nat) \<Rightarrow> xml_api \<Rightarrow> app_event \<Rightarrow> (app, unit) M" where
  "app_handle E what fuel X (AFcmEncrypted i) = fcm_event_at E what i socketEncrypted"
| "app_handle E what fuel X (AFcmDisconnected i) = fcm_event_at E what i (handleDisconnected E)"
| "app_handle E what fuel X (AFcmReadyRead i bytes) = fcm_event_at E what i (fcm_readyRead E fuel X bytes)"
| "app_handle E what fuel X (AFcmSslErrors i es) = fcm_event_at E what i (handleSslErrors es)"
| "app_handle E what fuel X (ANewBALConnection d) = handleNewBALConnection d"
| "app_handle E what fuel X (ABalReadyRead s bytes) =
     thenM (modify (\<lambda>a. a \<lparr> ap_inbuf := (ap_inbuf a)(s := ap_inbuf a s @ bytes) \<rparr>))
    (bindM (gets (\<lambda>a. ap_blocked a s)) (\<lambda>b. whenM (\<not> b) (handleBALSocketReadyRead E s)))"
| "app_handle E what fuel X (ABalDisconnected s d) =
     thenM (modify (\<lambda>a. a \<lparr> ap_descriptor := (ap_descriptor a)(s := d) \<rparr>))
    (bindM (gets (\<lambda>a. ap_blocked a s)) (\<lambda>b. whenM (\<not> b) (handleBALSocketDisconnected s)))"
| "app_handle E what fuel X (ATimer k) =
     bindM (gets ap_timers) (\<lambda>ts.
       if k < length ts then
         thenM (modify (\<lambda>a. a \<lparr> ap_timers := take k ts @ drop (Suc k) ts \<rparr>)) (timer_fires E what (snd (ts ! k)))
       else ret ())"
| "app_handle E what fuel X AHup = hupSignalHandler"
| "app_handle E what fuel X ATerm = termSignalHandler"
| "app_handle E what fuel X ASigInt =
     bindM (gets ap_sigintPipe) (\<lambda>n. whenM (0 < n) handleSigInt)"
| "app_handle E what fuel X ASigTerm =
     bindM (gets ap_sigtermPipe) (\<lambda>n. whenM (0 < n) handleSigTerm)"

text \<open>The states of the running program: after the constructor, and after each event that a slot
  handles without a fault, until \<^verbatim>\<open>quit\<close>.\<close>

inductive app_reach :: "env \<Rightarrow> (exn \<Rightarrow> string) \<Rightarrow> (nat \<Rightarrow> nat) \<Rightarrow> xml_api \<Rightarrow> host \<Rightarrow> heap \<Rightarrow> db \<Rightarrow> app \<Rightarrow> bool"
  for E what fuel X H h d where
  app_start: "Application E H (app_members h d) = (Inr (), a) \<Longrightarrow> app_reach E what fuel X H h d a"
| app_step: "app_reach E what fuel X H h d a \<Longrightarrow> \<not> ap_quit a \<Longrightarrow>
     app_handle E what fuel X ev a = (Inr (), a') \<Longrightarrow> app_reach E what fuel X H h d a'"

end
