(* ===== verification/Ledger.thy ===== *)
theory Ledger
  imports Db
begin

text \<open>
  The abstract specification of the program: a ledger of messages.  A message is accepted under an id
  greater than all before, goes out any number of times while it is open, and is settled once, as
  delivered or failed, when it is answered so.  Nothing else happens to an entry, and no entry is ever removed.  The table of
  the database abstracts to a ledger, and the operations of \<open>durable_log\<close> are steps of it.
\<close>

section \<open>The specification\<close>

datatype phase = Waiting | InFlight | Delivered | Failed | OtherPhase int

record entry =
  en_source :: string
  en_target :: string
  en_type :: int
  en_fcm_id :: "string option"
  en_group :: "string option"
  en_payload :: string
  en_phase :: phase

type_synonym ledger = "int \<Rightarrow> entry option"

definition open_entry :: "entry \<Rightarrow> bool" where
  "open_entry e \<longleftrightarrow> en_phase e = Waiting \<or> en_phase e = InFlight"

text \<open>\<open>Y\<close> are the settlements that are answered: the ids, with the entry as it was before, and how it may be settled.\<close>

type_synonym answers = "(int \<times> entry \<times> phase) set"

inductive ledger_step :: "answers \<Rightarrow> ledger \<Rightarrow> ledger \<Rightarrow> bool" for Y where
  accept: "(\<And>j. L j \<noteq> None \<Longrightarrow> j < k) \<Longrightarrow> open_entry e \<Longrightarrow> ledger_step Y L (L(k \<mapsto> e))"
| send: "L k = Some e \<Longrightarrow> open_entry e \<Longrightarrow> ledger_step Y L (L(k \<mapsto> e \<lparr> en_phase := InFlight \<rparr>))"
| settle: "L k = Some e \<Longrightarrow> open_entry e \<Longrightarrow> (k, e, ph) \<in> Y \<Longrightarrow> ph = Delivered \<or> ph = Failed \<Longrightarrow>
    ledger_step Y L (L(k \<mapsto> e \<lparr> en_phase := ph \<rparr>))"

abbreviation evolves :: "answers \<Rightarrow> ledger \<Rightarrow> ledger \<Rightarrow> bool" where
  "evolves Y \<equiv> (ledger_step Y)\<^sup>*\<^sup>*"

lemma step_mono: "ledger_step Y L L' \<Longrightarrow> Y \<subseteq> Y' \<Longrightarrow> ledger_step Y' L L'"
  by (induction rule: ledger_step.induct) (auto intro: ledger_step.intros)

lemma evolves_mono: "evolves Y L L' \<Longrightarrow> Y \<subseteq> Y' \<Longrightarrow> evolves Y' L L'"
  by (induction rule: rtranclp_induct) (auto intro: step_mono rtranclp.rtrancl_into_rtrancl)

text \<open>What the specification promises: an entry stays, with its content; a settled one does not change.\<close>

definition continues :: "entry \<Rightarrow> entry \<Rightarrow> bool" where
  "continues e e' \<longleftrightarrow> e' \<lparr> en_phase := en_phase e \<rparr> = e \<and> (\<not> open_entry e \<longrightarrow> e' = e)"

lemma continues_refl [simp]: "continues e e"
  by (simp add: continues_def)

lemma continues_trans: "continues e1 e2 \<Longrightarrow> continues e2 e3 \<Longrightarrow> continues e1 e3"
  by (cases e1; cases e2; cases e3) (auto simp: continues_def)

lemma step_continues: "ledger_step Y L L' \<Longrightarrow> L k = Some e \<Longrightarrow> \<exists>e'. L' k = Some e' \<and> continues e e'"
proof (induction rule: ledger_step.induct)
  case (accept L j e1)
  then have "k < j" by blast
  with accept(3) show ?case by simp
qed (auto simp: continues_def)

lemma evolves_continues: "evolves Y L L' \<Longrightarrow> L k = Some e \<Longrightarrow> \<exists>e'. L' k = Some e' \<and> continues e e'"
proof (induction rule: rtranclp_induct)
  case (step M M')
  then show ?case using step_continues continues_trans by meson
qed (auto intro: exI [of _ e])

text \<open>A later entry has a greater id than every earlier one.\<close>

lemma evolves_new: "evolves Y L L' \<Longrightarrow> L' k \<noteq> None \<Longrightarrow> L k = None \<Longrightarrow> L j \<noteq> None \<Longrightarrow> j < k"
proof (induction rule: rtranclp_induct)
  case (step M M')
  have "M j \<noteq> None" using evolves_continues [OF step(1)] step(6) by force
  from step(2) show ?case
  proof cases
    case (accept j' e)
    then show ?thesis using step \<open>M j \<noteq> None\<close> by (cases "k = j'") auto
  qed (use step in \<open>auto split: if_splits\<close>)
qed simp

text \<open>An entry is settled only as its answer says.\<close>

lemma step_settles:
  "ledger_step Y L L' \<Longrightarrow> L k = Some e \<Longrightarrow> open_entry e \<Longrightarrow> L' k = Some e' \<Longrightarrow> \<not> open_entry e' \<Longrightarrow> (k, e, en_phase e') \<in> Y"
proof (induction rule: ledger_step.induct)
  case (accept L j e1)
  then show ?case by (cases "k = j") auto
next
  case (send L j e1)
  then show ?case by (cases "k = j") (auto simp: open_entry_def)
next
  case (settle L j e1 ph)
  then show ?case by (cases "k = j") auto
qed

lemma evolves_settles:
  "evolves Y L L' \<Longrightarrow> L k = Some e \<Longrightarrow> open_entry e \<Longrightarrow> L' k = Some e' \<Longrightarrow> \<not> open_entry e' \<Longrightarrow>
   \<exists>e1. continues e e1 \<and> (k, e1, en_phase e') \<in> Y"
proof (induction arbitrary: e' rule: rtranclp_induct)
  case (step M M')
  obtain e1 where e1: "M k = Some e1" "continues e e1" using evolves_continues [OF step(1,4)] by blast
  show ?case
  proof (cases "open_entry e1")
    case True
    from step_settles [OF step(2) e1(1) True step(6,7)] e1(2) show ?thesis by blast
  next
    case False
    from step_continues [OF step(2) e1(1)] False step(6) have "e' = e1" by (auto simp: continues_def)
    with step(3) [OF step(4,5) e1(1) False] show ?thesis by simp
  qed
qed simp

section \<open>The table as a ledger\<close>

definition phase_of :: "int \<Rightarrow> phase" where
  "phase_of st = (if st = 1 then Waiting else if st = 2 then InFlight else if st = 3 then Delivered
     else if st = 4 then Failed else OtherPhase st)"

definition entry_of :: "row \<Rightarrow> entry" where
  "entry_of r = \<lparr> en_source = r_source_session r, en_target = r_target_session r, en_type = r_type r, en_fcm_id = r_fcm_message_id r,
     en_group = r_group_id r, en_payload = r_payload r, en_phase = phase_of (r_state r) \<rparr>"

definition ledger_of :: "(int, row) omap \<Rightarrow> ledger" where
  "ledger_of rows = (\<lambda>k. map_option entry_of (om_find rows k))"

lemma open_entry_of [simp]: "open_entry (entry_of r) \<longleftrightarrow> r_state r \<in> {1, 2}"
  by (simp add: open_entry_def entry_of_def phase_of_def)

lemma entry_of_update: "entry_of (update_row st date r) = (entry_of r) \<lparr> en_phase := phase_of st \<rparr>"
  by (simp add: entry_of_def update_row_def)

lemma continues_rows:
  "continues (entry_of r) (entry_of r') \<Longrightarrow>
   r_source_session r' = r_source_session r \<and> r_target_session r' = r_target_session r \<and> r_type r' = r_type r \<and>
   r_fcm_message_id r' = r_fcm_message_id r \<and> r_group_id r' = r_group_id r \<and> r_payload r' = r_payload r \<and>
   (r_state r \<notin> {1, 2} \<longrightarrow> r_state r' = r_state r)"
  by (auto simp: continues_def entry_of_def open_entry_def phase_of_def split: if_splits)

text \<open>The two writes of the table.\<close>

context durable_log
begin

lemma save_evolves:
  assumes "ok d" and "msg_payload msg = Some j" and "int64_min \<le> msg_sequenceId msg" and "msg_sequenceId msg \<le> last_id d"
    and "save E msg d = (r, d')" and "\<forall>k\<in>fst ` set (rows d). k < msg_sequenceId msg" and "msg_state msg \<in> {NEW, PENDING_ACK}"
  shows "evolves Y (ledger_of (rows d)) (ledger_of (rows d'))"
proof (cases r)
  case (Inl f)
  then show ?thesis using save_law [OF assms(1-5)] by simp
next
  case (Inr u)
  with save_law [OF assms(1-5)] obtain n where *: "om_find (rows d') = (om_find (rows d))(msg_sequenceId msg \<mapsto> bound_row E n msg j)" by auto
  have "ledger_of (rows d') = (ledger_of (rows d))(msg_sequenceId msg \<mapsto> entry_of (bound_row E n msg j))"
    by (simp add: ledger_of_def * fun_eq_iff)
  moreover have "ledger_step Y (ledger_of (rows d)) ((ledger_of (rows d))(msg_sequenceId msg \<mapsto> entry_of (bound_row E n msg j)))"
    using assms(6,7) by (intro ledger_step.accept) (auto simp: ledger_of_def bound_row_def dest!: om_find_key)
  ultimately show ?thesis by simp
qed

lemma set_state_evolves:
  assumes "ok d" and "set_state E msg st d = (r, d')"
    and "st = PENDING_ACK \<or> st \<in> {DELIVERED, DELIVERY_FAILED} \<and> (\<forall>w. om_find (rows d) (msg_sequenceId msg) = Some w \<longrightarrow>
      (msg_sequenceId msg, entry_of w, phase_of (MessageState_code st)) \<in> Y)"
    and "\<And>w. om_find (rows d) (msg_sequenceId msg) = Some w \<Longrightarrow> r_state w \<in> {1, 2}"
  shows "evolves Y (ledger_of (rows d)) (ledger_of (rows d'))"
proof (cases "r = Inr () \<and> om_find (rows d) (msg_sequenceId msg) \<noteq> None")
  case False
  with set_state_law [OF assms(1,2)] have "om_find (rows d') = om_find (rows d)"
    by (cases r) (auto simp: fun_eq_iff)
  then show ?thesis by (simp add: ledger_of_def)
next
  case True
  then obtain w where w: "om_find (rows d) (msg_sequenceId msg) = Some w" and r: "r = Inr ()" by blast
  from r set_state_law [OF assms(1,2)] obtain date where *: "om_find (rows d') = (\<lambda>k. if k = msg_sequenceId msg
      then map_option (update_row (MessageState_code st) date) (om_find (rows d) k) else om_find (rows d) k)" by auto
  let ?L = "ledger_of (rows d)" and ?e = "entry_of w"
  have e: "?L (msg_sequenceId msg) = Some ?e" "open_entry ?e" using w assms(4) [OF w] by (simp_all add: ledger_of_def)
  have "ledger_of (rows d') = ?L(msg_sequenceId msg \<mapsto> ?e \<lparr> en_phase := phase_of (MessageState_code st) \<rparr>)"
    using w by (simp add: ledger_of_def * fun_eq_iff entry_of_update)
  moreover have "ledger_step Y ?L (?L(msg_sequenceId msg \<mapsto> ?e \<lparr> en_phase := phase_of (MessageState_code st) \<rparr>))"
    using assms(3) w ledger_step.send [of ?L, OF e, of Y] ledger_step.settle [of ?L, OF e, of _ Y] by (auto simp: phase_of_def)
  ultimately show ?thesis by simp
qed

end

end
