(* ===== verification/App_Inv.thy ===== *)
theory App_Inv
  imports App Ledger
begin

text \<open>
  The invariant of the running application and the proof that every slot keeps it: the queues of all
  managers are consistent, hold only live messages, are backed by pending rows of the database
  and never have more than 100 messages waiting for an acknowledgement.  The parameter \<open>G\<close> is the
  ledger of an earlier time and the answers since: the table has evolved from it by steps of the
  specification.  The failures a slot can end in are classified on the way.
\<close>

section \<open>The invariant\<close>

text \<open>The manager of a session; \<^verbatim>\<open>fcm\<close> is the FCM side.\<close>

definition mgr_of :: "string \<Rightarrow> app \<Rightarrow> manager" where
  "mgr_of sid a = (if sid = ''fcm'' then ap_fcmMsgManager a else bs_msgManager (the_session sid a))"

text \<open>A pending row of the session, as the restart looks for it, with the FCM id \<open>f\<close>.\<close>

definition names_fcm :: "string \<Rightarrow> string option \<Rightarrow> bool" where
  "names_fcm f t \<longleftrightarrow> map_option c_str t = Some (c_str f)"

definition pending_row :: "(int, row) omap \<Rightarrow> string \<Rightarrow> int \<Rightarrow> string \<Rightarrow> bool" where
  "pending_row rows sid k f \<longleftrightarrow>
     (\<exists>r. om_find rows k = Some r \<and> r_state r \<in> {1, 2} \<and> r_target_session r = sid \<and> names_fcm f (r_fcm_message_id r))"

text \<open>The entries in \<open>X\<close> are exempt from having a pending row: they are about to be removed.\<close>

definition mgr_ok :: "(string \<times> int) set \<Rightarrow> heap \<Rightarrow> (int, row) omap \<Rightarrow> ptr \<Rightarrow> string \<Rightarrow> manager \<Rightarrow> bool" where
  "mgr_ok X h rows nxt sid m \<longleftrightarrow>
     mm_ok h m \<and> mm_sessionId m = sid \<and> unat (mm_pendingAckCount m) \<le> 100 \<and>
     (\<forall>k p. (k, p) \<in> set (mm_messages m) \<longrightarrow>
        p < nxt \<and> msg_state (h p) \<in> {NEW, PENDING_ACK} \<and> msg_targetSessionId (h p) = sid \<and>
        ((sid, k) \<in> X \<or> pending_row rows sid k (msg_fcmMessageId (h p))))"

text \<open>A message has a payload, and its retry counters are both unset or there is no limit.\<close>

definition msg_good :: "message \<Rightarrow> bool" where
  "msg_good x \<longleftrightarrow> msg_payload x \<noteq> None \<and> msg_maxRetry x = (if msg_nRetry x = None then None else Some (- 1)) \<and>
     bo_distribution (msg_exboff x) = (100, 1000)"

fun timer_ok :: "string set \<Rightarrow> heap \<Rightarrow> ptr \<Rightarrow> app_timer \<Rightarrow> bool" where
  "timer_ok S h nxt (TRetryDownstream p) = (p < nxt)"
| "timer_ok S h nxt (TRetryUpstream p) = (p < nxt \<and> msg_targetSessionId (h p) \<in> S)"
| "timer_ok S h nxt _ = True"

datatype origin = Since (answers_of: answers) (earlier: ledger)

text \<open>The answers settle the message under id \<open>k\<close> of session \<open>sid\<close> with the FCM id \<open>f\<close>.\<close>

definition may_settle :: "origin \<Rightarrow> MessageState \<Rightarrow> string \<Rightarrow> int \<Rightarrow> string \<Rightarrow> bool" where
  "may_settle G st sid k f \<longleftrightarrow>
     (\<forall>e. en_target e = sid \<and> names_fcm f (en_fcm_id e) \<longrightarrow> (k, e, phase_of (MessageState_code st)) \<in> answers_of G)"

text \<open>\<open>G\<close> are the answers that may settle messages and an earlier ledger, \<open>n\<close> a lower bound of the addresses still free, \<open>S\<close> the sessions, \<open>q\<close> the
  queues.\<close>

definition core_ok :: "origin \<Rightarrow> (string \<times> int) set \<Rightarrow> ptr \<Rightarrow> string set \<Rightarrow> (string \<Rightarrow> msg_queue) \<Rightarrow> app \<Rightarrow> bool" where
  "core_ok G X n S q a \<longleftrightarrow>
     db_ok (ap_dbConn a) \<and> int64_min \<le> db_sequenceId (ap_dbConn a) \<and> evolves (answers_of G) (earlier G) (ledger_of (db_rows (ap_dbConn a))) \<and>
     om_wf (ap_balSessionMap a) \<and> fst ` set (ap_balSessionMap a) = S \<and>
     ''fcm'' \<notin> S \<and> (\<forall>sid\<in>S. CHR 0x00 \<notin> set sid) \<and>
     n \<le> ap_next a \<and> (\<forall>p < ap_next a. msg_good (ap_heap a p)) \<and>
     (\<forall>sid\<in>insert ''fcm'' S.
        mgr_ok X (ap_heap a) (db_rows (ap_dbConn a)) (ap_next a) sid (mgr_of sid a) \<and>
        mm_messages (mgr_of sid a) = q sid) \<and>
     (\<forall>sid\<in>S. bs_sessionId (the_session sid a) = sid \<and> bs_ok (the_session sid a)) \<and>
     (\<forall>x\<in>set (ap_timers a). timer_ok S (ap_heap a) (ap_next a) (snd x))"

lemma core_okD:
  assumes "core_ok G X n S q a"
  shows "db_ok (ap_dbConn a)" "int64_min \<le> db_sequenceId (ap_dbConn a)" "om_wf (ap_balSessionMap a)"
    "fst ` set (ap_balSessionMap a) = S" "''fcm'' \<notin> S" "\<And>sid. sid \<in> S \<Longrightarrow> CHR 0x00 \<notin> set sid" "n \<le> ap_next a"
    "\<And>p. p < ap_next a \<Longrightarrow> msg_good (ap_heap a p)"
    "\<And>sid. sid \<in> insert ''fcm'' S \<Longrightarrow>
        mgr_ok X (ap_heap a) (db_rows (ap_dbConn a)) (ap_next a) sid (mgr_of sid a)"
    "\<And>sid. sid \<in> insert ''fcm'' S \<Longrightarrow> mm_messages (mgr_of sid a) = q sid"
    "\<And>sid. sid \<in> S \<Longrightarrow> bs_sessionId (the_session sid a) = sid"
    "\<And>sid. sid \<in> S \<Longrightarrow> bs_ok (the_session sid a)"
    "\<And>d t. (d, t) \<in> set (ap_timers a) \<Longrightarrow> timer_ok S (ap_heap a) (ap_next a) t"
    "evolves (answers_of G) (earlier G) (ledger_of (db_rows (ap_dbConn a)))"
proof -
  note c = assms [unfolded core_ok_def]
  show "db_ok (ap_dbConn a)" "int64_min \<le> db_sequenceId (ap_dbConn a)" "om_wf (ap_balSessionMap a)"
    "fst ` set (ap_balSessionMap a) = S" "''fcm'' \<notin> S" "n \<le> ap_next a" "evolves (answers_of G) (earlier G) (ledger_of (db_rows (ap_dbConn a)))"
    using c by simp_all
  show "CHR 0x00 \<notin> set sid" "bs_sessionId (the_session sid a) = sid" "bs_ok (the_session sid a)" if "sid \<in> S" for sid
    using c that by simp_all
  show "mgr_ok X (ap_heap a) (db_rows (ap_dbConn a)) (ap_next a) sid (mgr_of sid a)" "mm_messages (mgr_of sid a) = q sid"
    if "sid \<in> insert ''fcm'' S" for sid
    using c that by auto
  show "msg_good (ap_heap a p)" if "p < ap_next a" for p
    using c that by simp
  have "\<forall>x\<in>set (ap_timers a). timer_ok S (ap_heap a) (ap_next a) (snd x)" using c by simp
  then show "timer_ok S (ap_heap a) (ap_next a) t" if "(d, t) \<in> set (ap_timers a)" for d t
    using that by fastforce
qed

text \<open>Exactly the newest FCM connection is attached to \<^verbatim>\<open>sendMessage\<close>.\<close>

definition slots_ok :: "app \<Rightarrow> bool" where
  "slots_ok a \<longleftrightarrow>
     om_wf (ap_fcmConnectionsMap a) \<and> (\<forall>i\<in>fst ` set (ap_fcmConnectionsMap a). i \<le> ap_fcmConnCount a) \<and>
     ap_sendSlots a = (if ap_fcmConnectionsMap a = [] then [] else [fst (last (ap_fcmConnectionsMap a))])"

definition app_ok :: "origin \<Rightarrow> (string \<times> int) set \<Rightarrow> ptr \<Rightarrow> string set \<Rightarrow> (string \<Rightarrow> msg_queue) \<Rightarrow> app \<Rightarrow> bool" where
  "app_ok G X n S q a \<longleftrightarrow> core_ok G X n S q a \<and> slots_ok a \<and> ap_fcmConnectionsMap a \<noteq> []"

definition Inv :: "origin \<Rightarrow> ptr \<Rightarrow> string set \<Rightarrow> app \<Rightarrow> bool" where
  "Inv G n S a \<longleftrightarrow> (\<exists>q. app_ok G {} n S q a)"

text \<open>How a call may fail: a thrown exception, the overflow of a counter or of a delay, or the retry of a message
  whose retry counters were never initialised.\<close>

fun benign :: "fault \<Rightarrow> bool" where
  "benign (Throw e) = True"
| "benign (Undefined u) = (u = SignedOverflow \<or> u = DoubleToInt \<or> u = UninitRead)"
| "benign Exit = False"
| "benign OutOfFuel = False"

text \<open>\<open>runs n S P m Q\<close>: from \<open>P\<close>, the call returns with \<open>Q\<close>, or fails benignly; an exception, after which the
  program goes on, leaves the invariant.\<close>

definition runs :: "origin \<Rightarrow> ptr \<Rightarrow> string set \<Rightarrow> (app \<Rightarrow> bool) \<Rightarrow> (app, 'a) M \<Rightarrow> ('a \<Rightarrow> app \<Rightarrow> bool) \<Rightarrow> bool" where
  "runs G n S P m Q \<longleftrightarrow> hoare P m Q (\<lambda>f a. benign f \<and> (\<forall>e. f = Throw e \<longrightarrow> Inv G n S a))"

abbreviation pres :: "origin \<Rightarrow> ptr \<Rightarrow> string set \<Rightarrow> (app, 'a) M \<Rightarrow> bool" where
  "pres G n S m \<equiv> runs G n S (Inv G n S) m (\<lambda>_. Inv G n S)"

section \<open>Rules for runs\<close>

named_theorems runs_intros

lemma runs_weaken:
  "runs G n' S P' m Q' \<Longrightarrow> n \<le> n' \<Longrightarrow> (\<And>s. P s \<Longrightarrow> P' s) \<Longrightarrow> (\<And>x s. Q' x s \<Longrightarrow> Q x s) \<Longrightarrow> runs G n S P m Q"
  unfolding runs_def
  by (erule hoare_weaken) (auto simp: Inv_def app_ok_def core_ok_def)

lemma runs_bindM: "runs G n S P m P' \<Longrightarrow> (\<And>x. runs G n S (P' x) (f x) Q) \<Longrightarrow> runs G n S P (bindM m f) Q"
  unfolding runs_def by (rule hoare_bindM)

lemma runs_thenM: "runs G n S P m (\<lambda>_. P') \<Longrightarrow> runs G n S P' m' Q \<Longrightarrow> runs G n S P (thenM m m') Q"
  unfolding runs_def by (rule hoare_thenM)

lemma runs_ret: "(\<And>a. P a \<Longrightarrow> Q x a) \<Longrightarrow> runs G n S P (ret x) Q"
  by (simp add: runs_def hoare_def ret_def)

lemma runs_gets: "(\<And>a. P a \<Longrightarrow> Q (f a) a) \<Longrightarrow> runs G n S P (gets f) Q"
  by (simp add: runs_def hoare_def gets_def)

lemma runs_getsE:
  "(\<And>a x. P a \<Longrightarrow> f a = Inr x \<Longrightarrow> Q x a) \<Longrightarrow> (\<And>a e. P a \<Longrightarrow> f a = Inl e \<Longrightarrow> benign e \<and> Inv G n S a) \<Longrightarrow>
   runs G n S P (getsE f) Q"
  by (auto simp: runs_def hoare_def getsE_def split: sum.split)

lemma runs_modify: "(\<And>a. P a \<Longrightarrow> Q () (f a)) \<Longrightarrow> runs G n S P (modify f) Q"
  by (simp add: runs_def hoare_def modify_def)

lemma runs_raise: "(\<And>a. P a \<Longrightarrow> benign e \<and> Inv G n S a) \<Longrightarrow> runs G n S P (raise e) Q"
  by (simp add: runs_def hoare_def raise_def)

lemma runs_if: "(b \<Longrightarrow> runs G n S P m Q) \<Longrightarrow> (\<not> b \<Longrightarrow> runs G n S P m' Q) \<Longrightarrow> runs G n S P (if b then m else m') Q"
  by simp

lemma runs_whenM: "(b \<Longrightarrow> runs G n S P m (\<lambda>_. Q)) \<Longrightarrow> (\<And>a. \<not> b \<Longrightarrow> P a \<Longrightarrow> Q a) \<Longrightarrow> runs G n S P (whenM b m) (\<lambda>_. Q)"
  by (simp add: whenM_def runs_ret)

lemma runs_tryM: "runs G n S P m (\<lambda>_. Inv G n S) \<Longrightarrow> runs G n S P (tryM m) (\<lambda>_. Inv G n S)"
  unfolding runs_def
  by (rule hoare_tryM) (erule hoare_weaken, auto split: fault.split)

lemma runs_forM:
  "(\<And>x. x \<in> set xs \<Longrightarrow> runs G n S P (f x) (\<lambda>_. P)) \<Longrightarrow> runs G n S P (forM xs f) (\<lambda>_. P)"
  unfolding runs_def by (rule hoare_forM)

text \<open>A precondition with a parameter, and one with a pure part.\<close>

lemma runs_ex:
  assumes "\<And>y. runs G n S (P y) m Q"
  shows "runs G n S (\<lambda>a. \<exists>y. P y a) m Q"
  unfolding runs_def hoare_def
proof (intro allI impI, elim exE)
  fix s y
  assume y: "P y s"
  from assms [of y, unfolded runs_def hoare_def] have "P y s \<longrightarrow>
      (case m s of (Inl f, t) \<Rightarrow> benign f \<and> (\<forall>e. f = Throw e \<longrightarrow> Inv G n S t) | (Inr x, t) \<Rightarrow> Q x t)" by (rule spec)
  from mp [OF this y]
  show "case m s of (Inl f, t) \<Rightarrow> benign f \<and> (\<forall>e. f = Throw e \<longrightarrow> Inv G n S t) | (Inr x, t) \<Rightarrow> Q x t" .
qed

lemma runs_pure: "(C \<Longrightarrow> runs G n S P m Q) \<Longrightarrow> runs G n S (\<lambda>a. C \<and> P a) m Q"
  by (auto simp: runs_def hoare_def)

lemma runs_Inv: "(\<And>q. runs G n S (app_ok G {} n S q) m Q) \<Longrightarrow> runs G n S (Inv G n S) m Q"
  unfolding Inv_def [abs_def] by (rule runs_ex)

lemma pres_bindM: "pres G n S m \<Longrightarrow> (\<And>x. pres G n S (f x)) \<Longrightarrow> pres G n S (bindM m f)"
  by (rule runs_bindM)

lemma pres_gets: "(\<And>x. pres G n S (f x)) \<Longrightarrow> pres G n S (bindM (gets g) f)"
  by (rule pres_bindM [OF runs_gets])

lemma app_ok_Inv: "app_ok G {} n S q a \<Longrightarrow> Inv G n S a"
  by (auto simp: Inv_def)

section \<open>Changes of the state and the invariant\<close>

lemma core_frame [simp]:
  "core_ok G X n S q (a \<lparr> ap_log := v1 \<rparr>) = core_ok G X n S q a"
  "core_ok G X n S q (a \<lparr> ap_out := v2 \<rparr>) = core_ok G X n S q a"
  "core_ok G X n S q (a \<lparr> ap_wire := v3 \<rparr>) = core_ok G X n S q a"
  "core_ok G X n S q (a \<lparr> ap_fcmConnectionsMap := v4 \<rparr>) = core_ok G X n S q a"
  "core_ok G X n S q (a \<lparr> ap_sendSlots := v5 \<rparr>) = core_ok G X n S q a"
  "core_ok G X n S q (a \<lparr> ap_fcmConnCount := v6 \<rparr>) = core_ok G X n S q a"
  "core_ok G X n S q (a \<lparr> ap_balSessionMapU := v7 \<rparr>) = core_ok G X n S q a"
  "core_ok G X n S q (a \<lparr> ap_conns := v8 \<rparr>) = core_ok G X n S q a"
  "core_ok G X n S q (a \<lparr> ap_nextSock := v9 \<rparr>) = core_ok G X n S q a"
  "core_ok G X n S q (a \<lparr> ap_descriptor := w1 \<rparr>) = core_ok G X n S q a"
  "core_ok G X n S q (a \<lparr> ap_sessionProp := w2 \<rparr>) = core_ok G X n S q a"
  "core_ok G X n S q (a \<lparr> ap_inbuf := w3 \<rparr>) = core_ok G X n S q a"
  "core_ok G X n S q (a \<lparr> ap_blocked := w4 \<rparr>) = core_ok G X n S q a"
  "core_ok G X n S q (a \<lparr> ap_deleteLater := y1 \<rparr>) = core_ok G X n S q a"
  "core_ok G X n S q (a \<lparr> ap_listening := y2 \<rparr>) = core_ok G X n S q a"
  "core_ok G X n S q (a \<lparr> ap_sigintPipe := w5 \<rparr>) = core_ok G X n S q a"
  "core_ok G X n S q (a \<lparr> ap_sigtermPipe := w6 \<rparr>) = core_ok G X n S q a"
  "core_ok G X n S q (a \<lparr> ap_quit := w7 \<rparr>) = core_ok G X n S q a"
  by (simp_all add: core_ok_def mgr_of_def the_session_def)

lemma slots_frame [simp]:
  "slots_ok (a \<lparr> ap_log := v1 \<rparr>) = slots_ok a" "slots_ok (a \<lparr> ap_out := v2 \<rparr>) = slots_ok a"
  "slots_ok (a \<lparr> ap_wire := v3 \<rparr>) = slots_ok a" "slots_ok (a \<lparr> ap_balSessionMapU := v7 \<rparr>) = slots_ok a"
  "slots_ok (a \<lparr> ap_conns := v8 \<rparr>) = slots_ok a" "slots_ok (a \<lparr> ap_nextSock := v9 \<rparr>) = slots_ok a"
  "slots_ok (a \<lparr> ap_descriptor := w1 \<rparr>) = slots_ok a" "slots_ok (a \<lparr> ap_sessionProp := w2 \<rparr>) = slots_ok a"
  "slots_ok (a \<lparr> ap_inbuf := w3 \<rparr>) = slots_ok a" "slots_ok (a \<lparr> ap_blocked := w4 \<rparr>) = slots_ok a"
  "slots_ok (a \<lparr> ap_deleteLater := y1 \<rparr>) = slots_ok a" "slots_ok (a \<lparr> ap_listening := y2 \<rparr>) = slots_ok a"
  "slots_ok (a \<lparr> ap_sigintPipe := w5 \<rparr>) = slots_ok a" "slots_ok (a \<lparr> ap_sigtermPipe := w6 \<rparr>) = slots_ok a"
  "slots_ok (a \<lparr> ap_quit := w7 \<rparr>) = slots_ok a" "slots_ok (a \<lparr> ap_heap := w8 \<rparr>) = slots_ok a"
  "slots_ok (a \<lparr> ap_next := w9 \<rparr>) = slots_ok a" "slots_ok (a \<lparr> ap_dbConn := x1 \<rparr>) = slots_ok a"
  "slots_ok (a \<lparr> ap_fcmMsgManager := x2 \<rparr>) = slots_ok a" "slots_ok (a \<lparr> ap_timers := x3 \<rparr>) = slots_ok a"
  "slots_ok (a \<lparr> ap_balSessionMap := x4 \<rparr>) = slots_ok a"
  by (simp_all add: slots_ok_def)

lemma app_ok_core: "app_ok G X n S q a \<Longrightarrow> core_ok G X n S q a"
  by (simp add: app_ok_def)

text \<open>A change of the parts the slots do not look at.\<close>

lemma app_ok_by_core:
  "app_ok G X n S q a \<Longrightarrow> core_ok G X' n' S' q' a' \<Longrightarrow> ap_fcmConnectionsMap a' = ap_fcmConnectionsMap a \<Longrightarrow>
   ap_fcmConnCount a' = ap_fcmConnCount a \<Longrightarrow> ap_sendSlots a' = ap_sendSlots a \<Longrightarrow> app_ok G X' n' S' q' a'"
  by (simp add: app_ok_def slots_ok_def)

lemma mgr_ok_rows:
  "mgr_ok X h rows nxt sid m \<Longrightarrow>
   (\<And>k f. pending_row rows sid k f \<Longrightarrow> (sid, k) \<in> X' \<or> pending_row rows' sid k f) \<Longrightarrow> X \<subseteq> X' \<Longrightarrow>
   mgr_ok X' h rows' nxt sid m"
  unfolding mgr_ok_def by blast

lemma mgr_ok_heap:
  assumes "mgr_ok X h rows nxt sid m" and "nxt \<le> nxt'"
    and "\<And>p. p < nxt \<Longrightarrow> msg_sequenceId (h' p) = msg_sequenceId (h p) \<and> msg_groupId (h' p) = msg_groupId (h p) \<and>
      msg_fcmMessageId (h' p) = msg_fcmMessageId (h p) \<and> msg_targetSessionId (h' p) = msg_targetSessionId (h p) \<and>
      (msg_state (h p) \<in> {NEW, PENDING_ACK} \<longrightarrow> msg_state (h' p) \<in> {NEW, PENDING_ACK})"
  shows "mgr_ok X h' rows nxt' sid m"
proof -
  have lt: "p < nxt" if "(k, p) \<in> set (mm_messages m)" for k p
    using assms(1) that by (auto simp: mgr_ok_def)
  have "mm_ok h' m"
  proof (rule mm_ok_heap)
    show "mm_ok h m" using assms(1) by (simp add: mgr_ok_def)
    fix p
    assume "p \<in> snd ` set (mm_messages m)"
    then have "p < nxt" using lt by force
    with assms(3) show "msg_sequenceId (h' p) = msg_sequenceId (h p) \<and> msg_groupId (h' p) = msg_groupId (h p) \<and>
        msg_fcmMessageId (h' p) = msg_fcmMessageId (h p)" by blast
  qed
  moreover have "p < nxt' \<and> msg_state (h' p) \<in> {NEW, PENDING_ACK} \<and> msg_targetSessionId (h' p) = sid \<and>
      ((sid, k) \<in> X \<or> pending_row rows sid k (msg_fcmMessageId (h' p)))" if "(k, p) \<in> set (mm_messages m)" for k p
    using assms(1) that assms(3) [OF lt [OF that]] order_less_le_trans [OF lt [OF that] assms(2)]
    unfolding mgr_ok_def by auto
  ultimately show ?thesis
    using assms(1) unfolding mgr_ok_def by blast
qed

text \<open>The manager of a session replaced.\<close>

definition set_mgr :: "string \<Rightarrow> manager \<Rightarrow> app \<Rightarrow> app" where
  "set_mgr sid m a = (if sid = ''fcm'' then a \<lparr> ap_fcmMsgManager := m \<rparr>
     else put_session sid ((the_session sid a) \<lparr> bs_msgManager := m \<rparr>) a)"

lemma on_fcm_mgr_eq: "on_fcm_mgr = zoom (mgr_of ''fcm'') (set_mgr ''fcm'')"
  by (simp add: on_fcm_mgr_def mgr_of_def [abs_def] set_mgr_def [abs_def])

lemma on_bal_mgr_eq: "sid \<noteq> ''fcm'' \<Longrightarrow> on_bal_mgr sid = zoom (mgr_of sid) (set_mgr sid)"
  by (simp add: on_bal_mgr_def mgr_of_def [abs_def] set_mgr_def [abs_def])

lemma the_session_put:
  "om_wf (ap_balSessionMap a) \<Longrightarrow> the_session sid' (put_session sid s a) = (if sid' = sid then s else the_session sid' a)"
  by (simp add: the_session_def put_session_def om_find_store)

lemma core_put_session:
  assumes "core_ok G X n S q a" and "sid \<in> S" and "bs_sessionId s = sid" and "bs_ok s"
    and "mgr_ok X' (ap_heap a) (db_rows (ap_dbConn a)) (ap_next a) sid (bs_msgManager s)"
    and "\<And>sid' k. sid' \<noteq> sid \<Longrightarrow> (sid', k) \<in> X \<Longrightarrow> (sid', k) \<in> X'"
  shows "core_ok G X' n S (q(sid := mm_messages (bs_msgManager s))) (put_session sid s a)"
proof -
  note ok = core_okD [OF assms(1)]
  have wf: "om_wf (ap_balSessionMap a)" and ne: "sid \<noteq> ''fcm''" using ok(3,5) assms(2) by auto
  have mgr: "mgr_of sid' (put_session sid s a) = (if sid' = sid then bs_msgManager s else mgr_of sid' a)" for sid'
    using ne the_session_put [OF wf] by (auto simp: mgr_of_def put_session_def)
  have other: "mgr_ok X' h rows nxt sid' m" if "mgr_ok X h rows nxt sid' m" "sid' \<noteq> sid" for h rows nxt sid' m
    using that assms(6) by (auto simp: mgr_ok_def)
  have fields: "ap_heap (put_session sid s a) = ap_heap a" "ap_next (put_session sid s a) = ap_next a"
    "ap_dbConn (put_session sid s a) = ap_dbConn a" "ap_timers (put_session sid s a) = ap_timers a"
    "ap_balSessionMap (put_session sid s a) = om_store sid s (ap_balSessionMap a)"
    by (simp_all add: put_session_def)
  have keys: "fst ` set (om_store sid s (ap_balSessionMap a)) = S"
    using ok(4) assms(2) by (auto simp: set_keys_store)
  have "\<forall>sid'\<in>insert ''fcm'' S. mgr_ok X' (ap_heap a) (db_rows (ap_dbConn a)) (ap_next a) sid'
        (if sid' = sid then bs_msgManager s else mgr_of sid' a) \<and>
      mm_messages (if sid' = sid then bs_msgManager s else mgr_of sid' a) = (q(sid := mm_messages (bs_msgManager s))) sid'"
    using other [OF ok(9)] ok(10) assms(5) by simp
  moreover have "\<forall>sid'\<in>S. bs_sessionId (the_session sid' (put_session sid s a)) = sid' \<and>
      bs_ok (the_session sid' (put_session sid s a))"
    using ok(11,12) assms(3,4) by (simp add: the_session_put [OF wf])
  ultimately show ?thesis
    using assms(1) unfolding core_ok_def fields mgr keys by (simp add: om_wf_store)
qed

lemma core_set_mgr:
  assumes "core_ok G X n S q a" and "sid \<in> insert ''fcm'' S"
    and "mgr_ok X' (ap_heap a) (db_rows (ap_dbConn a)) (ap_next a) sid m"
    and "\<And>sid' k. sid' \<noteq> sid \<Longrightarrow> (sid', k) \<in> X \<Longrightarrow> (sid', k) \<in> X'"
  shows "core_ok G X' n S (q(sid := mm_messages m)) (set_mgr sid m a)"
proof (cases "sid = ''fcm''")
  case True
  have other: "mgr_ok X' h rows nxt sid' m" if "mgr_ok X h rows nxt sid' m" "sid' \<noteq> sid" for h rows nxt sid' m
    using that assms(4) by (auto simp: mgr_ok_def)
  have ts: "the_session sid' (a \<lparr> ap_fcmMsgManager := m \<rparr>) = the_session sid' a" for sid'
    by (simp add: the_session_def)
  have mgr: "mgr_of sid' (a \<lparr> ap_fcmMsgManager := m \<rparr>) = (if sid' = ''fcm'' then m else mgr_of sid' a)" for sid'
    by (simp add: mgr_of_def ts)
  note ok = core_okD [OF assms(1)]
  have "\<forall>sid'\<in>insert ''fcm'' S. mgr_ok X' (ap_heap a) (db_rows (ap_dbConn a)) (ap_next a) sid'
        (if sid' = ''fcm'' then m else mgr_of sid' a) \<and>
      mm_messages (if sid' = ''fcm'' then m else mgr_of sid' a) = (q(sid := mm_messages m)) sid'"
    using other [OF ok(9)] ok(10) assms(3) True by simp
  then show ?thesis
    using assms(1) True unfolding core_ok_def by (simp add: set_mgr_def mgr ts)
next
  case False
  then have "sid \<in> S" using assms(2) by simp
  then have "bs_sessionId (the_session sid a) = sid" "bs_ok (the_session sid a)" "sid \<in> S"
    using core_okD(11,12) [OF assms(1)] by blast+
  with core_put_session [OF assms(1) _ _ _ _ assms(4), of sid "(the_session sid a) \<lparr> bs_msgManager := m \<rparr>"] assms(3) False
  show ?thesis by (simp add: set_mgr_def bs_ok_def)
qed

section \<open>The elementary operations\<close>

lemma runsI_weak:
  "(\<And>a r a'. P a \<Longrightarrow> m a = (r, a') \<Longrightarrow>
      case r of Inr x \<Rightarrow> Q x a' | Inl f \<Rightarrow> benign f \<and> (\<forall>e. f = Throw e \<longrightarrow> Inv G n S a')) \<Longrightarrow> runs G n S P m Q"
  unfolding runs_def by (rule hoareI) fastforce+

lemma runsI:
  "(\<And>a r a'. P a \<Longrightarrow> m a = (r, a') \<Longrightarrow> case r of Inr x \<Rightarrow> Q x a' | Inl f \<Rightarrow> benign f \<and> Inv G n S a') \<Longrightarrow> runs G n S P m Q"
  by (rule runsI_weak) (force split: sum.splits)

subsection \<open>Signals to FCM\<close>

lemma acts_run: "acts xs c = (Inr (), c \<lparr> fc_acts := fc_acts c @ xs \<rparr>)"
  unfolding acts_def by (induction xs arbitrary: c) (simp_all add: act_def monad_defs)

lemma log_acts_run:
  "(\<And>d t. SingleShot d t \<notin> set xs) \<Longrightarrow> forM xs (log_act i) a = (Inr (), a \<lparr> ap_log := ap_log a @ map (Pair i) xs \<rparr>)"
proof (induction xs arbitrary: a)
  case (Cons x xs)
  have x: "log_act i x a = (Inr (), a \<lparr> ap_log := ap_log a @ [(i, x)] \<rparr>)"
    using Cons.prems by (cases x) (auto simp: log_act_def monad_defs)
  have "\<And>d t. SingleShot d t \<notin> set xs" using Cons.prems by auto
  from Cons.IH [OF this] x show ?case by (simp add: thenM_def bindM_def)
qed (simp add: ret_def)

lemma fcm_call_send:
  "fcm_call i (handleSendMessage E j) a =
     (Inr (), case om_find (ap_fcmConnectionsMap a) i of None \<Rightarrow> a
        | Some c \<Rightarrow> a \<lparr> ap_fcmConnectionsMap := om_store i (c \<lparr> fc_acts := [] \<rparr>) (ap_fcmConnectionsMap a),
                       ap_log := ap_log a @ map (Pair i) (message_stanza E j) \<rparr>)"
proof (cases "om_find (ap_fcmConnectionsMap a) i")
  case None
  then show ?thesis by (simp add: fcm_call_def fcm_run_def bindM_def thenM_def ret_def liftM_def)
next
  case (Some c)
  have no: "\<And>d t. SingleShot d t \<notin> set (message_stanza E j)" by (simp add: message_stanza_def)
  from Some show ?thesis
    by (simp add: fcm_call_def fcm_run_def bindM_def thenM_def liftM_def handleSendMessage_def acts_run
        log_acts_run [OF no])
qed

text \<open>A predicate that does not look at the FCM connections.\<close>

definition off_fcm :: "(app \<Rightarrow> bool) \<Rightarrow> bool" where
  "off_fcm P \<longleftrightarrow> (\<forall>a c l. P (a \<lparr> ap_fcmConnectionsMap := c, ap_log := l \<rparr>) = P a)"

lemma om_store_present: "om_wf m \<Longrightarrow> om_find m k = Some v \<Longrightarrow> map fst (om_store k w m) = map fst m"
proof (induction k w m rule: om_store.induct)
  case (2 k w k' v' m)
  then show ?case
    by (auto simp: om_find_None_iff om_wf_Cons split: if_splits dest!: om_find_key)
qed simp

lemma app_ok_conn:
  assumes "app_ok G X n S q a" and "om_find (ap_fcmConnectionsMap a) i = Some c"
  shows "app_ok G X n S q (a \<lparr> ap_fcmConnectionsMap := om_store i c' (ap_fcmConnectionsMap a), ap_log := l \<rparr>)"
proof -
  let ?m = "ap_fcmConnectionsMap a"
  let ?m' = "om_store i c' ?m"
  have wf: "om_wf ?m" using assms(1) by (simp add: app_ok_def slots_ok_def)
  have keys: "map fst ?m' = map fst ?m" by (rule om_store_present [OF wf assms(2)])
  then have ne: "?m' \<noteq> []" "?m \<noteq> []" using assms by (auto simp: app_ok_def)
  then have "fst (last ?m') = fst (last ?m)" using keys by (metis last_map)
  moreover have "fst ` set ?m' = fst ` set ?m" using keys by (metis list.set_map)
  ultimately show ?thesis
    using assms(1) wf ne by (simp add: app_ok_def slots_ok_def om_wf_store)
qed

lemma runs_sendMessage:
  assumes "off_fcm P"
  shows "runs G n S (\<lambda>a. app_ok G X n' S q a \<and> P a) (sendMessage E j) (\<lambda>_ a. app_ok G X n' S q a \<and> P a)"
  unfolding sendMessage_def
proof (rule runs_bindM [OF runs_gets], assumption, rule runs_forM, rule runsI)
  fix ids i a r a'
  assume pre: "app_ok G X n' S q a \<and> P a" and run: "fcm_call i (handleSendMessage E j) a = (r, a')"
  show "case r of Inr x \<Rightarrow> app_ok G X n' S q a' \<and> P a' | Inl f \<Rightarrow> benign f \<and> Inv G n S a'"
  proof (cases "om_find (ap_fcmConnectionsMap a) i")
    case None
    with run pre show ?thesis by (auto simp: fcm_call_send)
  next
    case (Some c)
    with run pre assms app_ok_conn [OF conjunct1 [OF pre] Some] show ?thesis
      by (auto simp: fcm_call_send off_fcm_def)
  qed
qed

lemma off_fcm_True: "off_fcm (\<lambda>_. True)"
  by (simp add: off_fcm_def)

lemma runs_sendMessage_q: "runs G n S (app_ok G X n' S q) (sendMessage E j) (\<lambda>_. app_ok G X n' S q)"
  using runs_sendMessage [OF off_fcm_True, of G n S X n' q E j] by simp

subsection \<open>Payloads, uploads and writes\<close>

lemma runs_payload:
  assumes "\<And>a. P a \<Longrightarrow> \<exists>X m q. app_ok G X m S q a \<and> p < ap_next a"
  shows "runs G n S P (payload_of p) (\<lambda>_. P)"
proof (unfold payload_of_def, rule runs_getsE, assumption)
  fix a e
  assume "P a" and e: "(case msg_payload (ap_heap a p) of None \<Rightarrow> Inl (Undefined NullDeref) | Some j \<Rightarrow> Inr j) = Inl e"
  then obtain X m q where "core_ok G X m S q a" "p < ap_next a" using assms app_ok_core by meson
  from core_okD(8) [OF this] have "msg_good (ap_heap a p)" .
  with e show "benign e \<and> Inv G n S a" by (auto simp: msg_good_def)
qed

lemma runs_uploadToFcm:
  "runs G n S (\<lambda>a. app_ok G X m S q a \<and> p < ap_next a) (uploadToFcm E p) (\<lambda>_ a. app_ok G X m S q a \<and> p < ap_next a)"
  unfolding uploadToFcm_def
  by (rule runs_bindM [OF runs_payload runs_sendMessage]) (auto simp: off_fcm_def)

lemma runs_write_session:
  assumes "\<And>a. P a \<Longrightarrow> app_ok G {} n S q a" and "\<And>a w. P a \<Longrightarrow> P (a \<lparr> ap_wire := w \<rparr>)" and "bs_ok sess"
  shows "runs G n S P (write_session E sess j) (\<lambda>_. P)"
proof (rule runsI)
  fix a r a'
  assume P: "P a" and run: "write_session E sess j a = (r, a')"
  then obtain w where w: "writeMessage E sess j (ap_wire a) = (r, w)" "a' = a \<lparr> ap_wire := w \<rparr>"
    by (auto simp: write_session_def zoom_def split: prod.splits)
  from writeMessage_cases [OF assms(3) w(1)] have "\<And>f. r = Inl f \<Longrightarrow> benign f" by auto
  moreover have "P a'" using P assms(2) w(2) by simp
  ultimately show "case r of Inr x \<Rightarrow> P a' | Inl f \<Rightarrow> benign f \<and> Inv G n S a'"
    using assms(1) by (auto simp: Inv_def split: sum.split)
qed

subsection \<open>The database\<close>

lemma core_rows:
  assumes "core_ok G X n S q a" and "db_ok d" and "int64_min \<le> db_sequenceId d" and "X \<subseteq> X'"
    and "evolves (answers_of G) (ledger_of (db_rows (ap_dbConn a))) (ledger_of (db_rows d))"
    and "\<And>sid k f. sid \<in> insert ''fcm'' S \<Longrightarrow> pending_row (db_rows (ap_dbConn a)) sid k f \<Longrightarrow>
      (sid, k) \<in> X' \<or> pending_row (db_rows d) sid k f"
  shows "core_ok G X' n S q (a \<lparr> ap_dbConn := d \<rparr>)"
proof -
  have [simp]: "mgr_of sid (a \<lparr> ap_dbConn := d \<rparr>) = mgr_of sid a" "the_session sid (a \<lparr> ap_dbConn := d \<rparr>) = the_session sid a" for sid
    by (simp_all add: mgr_of_def the_session_def)
  have "mgr_ok X' (ap_heap a) (db_rows d) (ap_next a) sid (mgr_of sid a)" if "sid \<in> insert ''fcm'' S" for sid
    using mgr_ok_rows [OF core_okD(9) [OF assms(1) that] assms(6) [OF that] assms(4)] .
  moreover have "evolves (answers_of G) (earlier G) (ledger_of (db_rows d))" using core_okD(14) [OF assms(1)] assms(5) by (rule rtranclp_trans)
  ultimately show ?thesis using assms(1-3) unfolding core_ok_def by simp
qed

lemma update_pending_row:
  assumes "db_ok d" and "updateMsgState E msg st d = (r, d')"
  shows "\<exists>f. r = Inl f \<and> benign f \<and> db_rows d' = db_rows d \<or>
    r = Inr () \<and> (\<forall>sid k f. pending_row (db_rows d) sid k f \<longrightarrow>
      k = msg_sequenceId msg \<and> st \<notin> {NEW, PENDING_ACK} \<or> pending_row (db_rows d') sid k f)"
proof (cases r)
  case (Inl f)
  with dbl.set_state_law [OF assms] show ?thesis by simp
next
  case (Inr u)
  with dbl.set_state_law [OF assms] obtain date where *: "om_find (db_rows d') = (\<lambda>k. if k = msg_sequenceId msg
      then map_option (update_row (MessageState_code st) date) (om_find (db_rows d) k) else om_find (db_rows d) k)"
    by auto
  have "pending_row (db_rows d') sid k f" if "pending_row (db_rows d) sid k f" "k = msg_sequenceId msg \<longrightarrow> st \<in> {NEW, PENDING_ACK}" for sid k f
    using that unfolding pending_row_def * by (auto simp: update_row_def)
  then show ?thesis using Inr by auto
qed

text \<open>A change to a pending state keeps the invariant; any other change exempts the message.  In either case the
  message must be open: it has no row, or one that is not settled.\<close>

definition open_msg :: "ptr \<Rightarrow> app \<Rightarrow> bool" where
  "open_msg p a \<longleftrightarrow> (\<forall>w. om_find (db_rows (ap_dbConn a)) (msg_sequenceId (ap_heap a p)) = Some w \<longrightarrow> r_state w \<in> {1, 2})"

lemma pending_open: "pending_row (db_rows (ap_dbConn a)) sid (msg_sequenceId (ap_heap a p)) f \<Longrightarrow> open_msg p a"
  by (auto simp: pending_row_def open_msg_def)

lemma runs_update:
  assumes "st = PENDING_ACK" and "\<And>a d. P a \<Longrightarrow> P (a \<lparr> ap_dbConn := d \<rparr>)"
    and "\<And>a. app_ok G {} n S q a \<Longrightarrow> P a \<Longrightarrow> open_msg p a"
  shows "runs G n S (\<lambda>a. app_ok G {} n S q a \<and> P a) (update_msg E p st) (\<lambda>_ a. app_ok G {} n S q a \<and> P a)"
proof (rule runsI)
  fix a r a'
  assume pre: "app_ok G {} n S q a \<and> P a" and run: "update_msg E p st a = (r, a')"
  then obtain d where d: "updateMsgState E (ap_heap a p) st (ap_dbConn a) = (r, d)" "a' = a \<lparr> ap_dbConn := d \<rparr>"
    by (auto simp: update_msg_def on_db_def bindM_def gets_def zoom_def split: prod.splits)
  note ok = core_okD [OF app_ok_core [OF conjunct1 [OF pre]]]
  note u = db_ok_update [OF ok(1) d(1)]
  from update_pending_row [OF ok(1) d(1)] assms(1)
  have keep: "pending_row (db_rows (ap_dbConn a)) sid k f \<Longrightarrow> pending_row (db_rows d) sid k f" for sid k f
    by (auto simp: pending_row_def)
  have "evolves (answers_of G) (ledger_of (db_rows (ap_dbConn a))) (ledger_of (db_rows d))"
    using dbl.set_state_evolves [OF ok(1) d(1)] assms(1,3) pre by (auto simp: open_msg_def)
  then have "core_ok G {} n S q a'"
    unfolding d(2) using pre keep u ok(2) by (intro core_rows) (auto simp: app_ok_def)
  then have "app_ok G {} n S q a'"
    using app_ok_by_core [OF conjunct1 [OF pre]] d(2) by simp
  then show "case r of Inr x \<Rightarrow> app_ok G {} n S q a' \<and> P a' | Inl f \<Rightarrow> benign f \<and> Inv G n S a'"
    using update_pending_row [OF ok(1) d(1)] pre assms(2) d(2) by (auto simp: Inv_def)
qed

lemma runs_update_final:
  assumes "sid \<in> insert ''fcm'' S" and "st \<in> {DELIVERED, DELIVERY_FAILED}" and "\<And>a d. P a \<Longrightarrow> P (a \<lparr> ap_dbConn := d \<rparr>)"
    and "\<And>a. app_ok G {} n S q a \<Longrightarrow> P a \<Longrightarrow> may_settle G st sid k (msg_fcmMessageId (ap_heap a p))"
  shows "runs G n S (\<lambda>a. app_ok G {} n S q a \<and> (k, p) \<in> set (q sid) \<and> P a) (update_msg E p st)
     (\<lambda>_ a. app_ok G {(sid, k)} n S q a \<and> P a)"
proof (rule runsI)
  fix a r a'
  assume pre: "app_ok G {} n S q a \<and> (k, p) \<in> set (q sid) \<and> P a" and run: "update_msg E p st a = (r, a')"
  then obtain d where d: "updateMsgState E (ap_heap a p) st (ap_dbConn a) = (r, d)" "a' = a \<lparr> ap_dbConn := d \<rparr>"
    by (auto simp: update_msg_def on_db_def bindM_def gets_def zoom_def split: prod.splits)
  note ok = core_okD [OF app_ok_core [OF conjunct1 [OF pre]]]
  note u = db_ok_update [OF ok(1) d(1)]
  have "mgr_ok {} (ap_heap a) (db_rows (ap_dbConn a)) (ap_next a) sid (mgr_of sid a)" by (rule ok(9) [OF assms(1)])
  with pre ok(10) [OF assms(1)] have e: "msg_sequenceId (ap_heap a p) = k"
      "pending_row (db_rows (ap_dbConn a)) sid k (msg_fcmMessageId (ap_heap a p))"
    by (auto simp: mgr_ok_def dest: mm_okD(4))
  have may: "may_settle G st sid k (msg_fcmMessageId (ap_heap a p))" using assms(4) pre by blast
  have ev: "evolves (answers_of G) (ledger_of (db_rows (ap_dbConn a))) (ledger_of (db_rows d))"
    using dbl.set_state_evolves [OF ok(1) d(1), of "answers_of G"] assms(2) may e
    by (auto simp: pending_row_def may_settle_def entry_of_def)
  have same: "sid' = sid" if "pending_row (db_rows (ap_dbConn a)) sid' k f" for sid' f
    using that e(2) by (auto simp: pending_row_def)
  have "db_rows d = db_rows (ap_dbConn a) \<or> (\<forall>sid k f. pending_row (db_rows (ap_dbConn a)) sid k f \<longrightarrow>
      k = msg_sequenceId (ap_heap a p) \<or> pending_row (db_rows d) sid k f)"
    using update_pending_row [OF ok(1) d(1)] by blast
  then have keep: "pending_row (db_rows (ap_dbConn a)) sid' k' f \<Longrightarrow> (sid', k') \<in> {(sid, k)} \<or> pending_row (db_rows d) sid' k' f" for sid' k' f
    using same e(1) by (metis singletonI)
  have lift: "core_ok G X' n S q a' \<Longrightarrow> app_ok G X' n S q a'" for X'
    using app_ok_by_core [OF conjunct1 [OF pre]] d(2) by simp
  have fail: "app_ok G {} n S q a'" if "r = Inl f" for f
    using pre u ok(2) ev update_pending_row [OF ok(1) d(1)] that
    by (intro lift, unfold d(2), intro core_rows) (auto simp: app_ok_def)
  have "app_ok G {(sid, k)} n S q a'"
    using pre keep u ok(2) ev by (intro lift, unfold d(2), intro core_rows) (auto simp: app_ok_def)
  then show "case r of Inr x \<Rightarrow> app_ok G {(sid, k)} n S q a' \<and> P a' | Inl f \<Rightarrow> benign f \<and> Inv G n S a'"
    using pre fail update_pending_row [OF ok(1) d(1)] d(2) assms(3) by (auto simp: Inv_def split: sum.split)
qed

subsection \<open>Messages and timers\<close>

text \<open>A change of a message that keeps what the queues rely on.\<close>

definition keeps_id :: "message \<Rightarrow> message \<Rightarrow> bool" where
  "keeps_id x y \<longleftrightarrow> msg_sequenceId y = msg_sequenceId x \<and> msg_groupId y = msg_groupId x \<and>
     msg_fcmMessageId y = msg_fcmMessageId x \<and> msg_targetSessionId y = msg_targetSessionId x \<and>
     (msg_state x \<in> {NEW, PENDING_ACK} \<longrightarrow> msg_state y \<in> {NEW, PENDING_ACK}) \<and> (msg_good x \<longrightarrow> msg_good y)"

lemma core_heap:
  assumes "core_ok G X n S q a" and "\<And>p. p < ap_next a \<Longrightarrow> keeps_id (ap_heap a p) (h p)"
  shows "core_ok G X n S q (a \<lparr> ap_heap := h \<rparr>)"
proof -
  note ok = core_okD [OF assms(1)]
  have [simp]: "mgr_of sid (a \<lparr> ap_heap := h \<rparr>) = mgr_of sid a" "the_session sid (a \<lparr> ap_heap := h \<rparr>) = the_session sid a" for sid
    by (simp_all add: mgr_of_def the_session_def)
  have "mgr_ok X h (db_rows (ap_dbConn a)) (ap_next a) sid (mgr_of sid a)" if "sid \<in> insert ''fcm'' S" for sid
    using mgr_ok_heap [OF ok(9) [OF that] order_refl] assms(2) unfolding keeps_id_def by blast
  moreover have "msg_good (h p)" if "p < ap_next a" for p
    using ok(8) [OF that] assms(2) [OF that] by (simp add: keeps_id_def)
  moreover have "timer_ok S h (ap_next a) (snd x)" if "x \<in> set (ap_timers a)" for x
  proof -
    have "timer_ok S (ap_heap a) (ap_next a) (snd x)" using ok(13) [of "fst x" "snd x"] that by simp
    then show ?thesis using assms(2) by (cases "snd x") (auto simp: keeps_id_def)
  qed
  ultimately show ?thesis using assms(1) unfolding core_ok_def by simp
qed

lemma app_ok_heap:
  "app_ok G X n S q a \<Longrightarrow> keeps_id (ap_heap a p) x \<Longrightarrow> app_ok G X n S q (a \<lparr> ap_heap := (ap_heap a)(p := x) \<rparr>)"
  by (rule app_ok_by_core, assumption, rule core_heap) (auto simp: app_ok_def keeps_id_def)

lemma runs_on_msg:
  assumes "\<And>a x r y. P a \<Longrightarrow> x = ap_heap a p \<Longrightarrow> m x = (r, y) \<Longrightarrow> keeps_id x y \<and> (case r of Inl f \<Rightarrow> benign f | Inr v \<Rightarrow> R v)"
    and "\<And>a. P a \<Longrightarrow> app_ok G {} n S q a" and "\<And>a h. P a \<Longrightarrow> (\<And>z. keeps_id (ap_heap a z) (h z)) \<Longrightarrow> P (a \<lparr> ap_heap := h \<rparr>)"
  shows "runs G n S P (on_msg p m) (\<lambda>v a. R v \<and> P a)"
proof (rule runsI)
  fix a r a'
  assume P: "P a" and run: "on_msg p m a = (r, a')"
  then obtain y where y: "m (ap_heap a p) = (r, y)" "a' = a \<lparr> ap_heap := (ap_heap a)(p := y) \<rparr>"
    by (auto simp: on_msg_def zoom_def split: prod.splits)
  from assms(1) [OF P refl y(1)] have k: "keeps_id (ap_heap a p) y" "case r of Inl f \<Rightarrow> benign f | Inr v \<Rightarrow> R v" by blast+
  have refl: "keeps_id z z" for z by (simp add: keeps_id_def)
  have "P a'" unfolding y(2) by (rule assms(3) [OF P]) (simp add: k(1) refl)
  moreover have "app_ok G {} n S q a'" by (rule assms(2)) fact
  ultimately show "case r of Inr v \<Rightarrow> R v \<and> P a' | Inl f \<Rightarrow> benign f \<and> Inv G n S a'"
    using k(2) by (auto simp: Inv_def split: sum.splits)
qed

lemma runs_set_state:
  assumes "\<And>a. P a \<Longrightarrow> app_ok G {} n S q a" and "\<And>a h. P a \<Longrightarrow> (\<And>z. keeps_id (ap_heap a z) (h z)) \<Longrightarrow> P (a \<lparr> ap_heap := h \<rparr>)"
  shows "runs G n S P (set_state p PENDING_ACK) (\<lambda>_. P)" "runs G n S P (set_retry p b) (\<lambda>_. P)"
proof -
  have "runs G n S P (set_state p PENDING_ACK) (\<lambda>_ a. True \<and> P a)"
    unfolding set_state_def
    by (rule runs_on_msg [where q = q]) (auto simp: modify_def keeps_id_def msg_good_def intro: assms)
  moreover have "runs G n S P (set_retry p b) (\<lambda>_ a. True \<and> P a)"
    unfolding set_retry_def
    by (rule runs_on_msg [where q = q]) (auto simp: modify_def keeps_id_def msg_good_def intro: assms)
  ultimately show "runs G n S P (set_state p PENDING_ACK) (\<lambda>_. P)" "runs G n S P (set_retry p b) (\<lambda>_. P)" by simp_all
qed

lemma backoff_next_frame:
  "backoff_next E b = (r, b') \<Longrightarrow> bo_distribution b' = bo_distribution b \<and> bo_maxRetry b' = bo_maxRetry b \<and>
     (case r of Inl f \<Rightarrow> benign f | Inr v \<Rightarrow> True)"
  by (auto simp: backoff_next_def inc32_def Let_def split: if_splits prod.splits)

lemma retry_timeout_id:
  "getNextRetryTimeout E x = (r, y) \<Longrightarrow> keeps_id x y \<and> (case r of Inl f \<Rightarrow> benign f | Inr v \<Rightarrow> True)"
  using backoff_next_frame [of E "msg_exboff x"]
  by (auto simp: getNextRetryTimeout_def inc32_def Let_def zoom_def keeps_id_def msg_good_def
      split: if_splits prod.splits option.splits)

lemma app_ok_timer:
  assumes "app_ok G X n S q a" and "timer_ok S (ap_heap a) (ap_next a) t"
  shows "app_ok G X n S q (a \<lparr> ap_timers := ap_timers a @ [(d, t)] \<rparr>)"
proof -
  have [simp]: "mgr_of sid (a \<lparr> ap_timers := ts \<rparr>) = mgr_of sid a" "the_session sid (a \<lparr> ap_timers := ts \<rparr>) = the_session sid a" for sid ts
    by (simp_all add: mgr_of_def the_session_def)
  have "core_ok G X n S q (a \<lparr> ap_timers := ap_timers a @ [(d, t)] \<rparr>)"
    using app_ok_core [OF assms(1)] assms(2) unfolding core_ok_def by auto
  with assms(1) show ?thesis by (rule app_ok_by_core) simp_all
qed

subsection \<open>The managers\<close>

text \<open>An operation on the manager of session \<open>sid\<close>.\<close>

lemma runs_mgr:
  assumes "sid \<in> insert ''fcm'' S"
    and "\<And>a r m'. P a \<Longrightarrow> m (mgr_of sid a) = (r, m') \<Longrightarrow>
      app_ok G X n S q a \<and> r = Inr () \<and> mm_messages m' = q' \<and>
      mgr_ok X' (ap_heap a) (db_rows (ap_dbConn a)) (ap_next a) sid m' \<and> (\<forall>x k. x \<noteq> sid \<longrightarrow> (x, k) \<in> X \<longrightarrow> (x, k) \<in> X')"
    and "\<And>a m'. P a \<Longrightarrow> Q (set_mgr sid m' a)"
  shows "runs G n S P (zoom (mgr_of sid) (set_mgr sid) m) (\<lambda>_ a. app_ok G X' n S (q(sid := q')) a \<and> Q a)"
proof (rule runsI)
  fix a r a'
  assume P: "P a" and run: "zoom (mgr_of sid) (set_mgr sid) m a = (r, a')"
  then obtain m' where m': "m (mgr_of sid a) = (r, m')" "a' = set_mgr sid m' a"
    by (auto simp: zoom_def split: prod.splits)
  note * = assms(2) [OF P m'(1)]
  have "core_ok G X' n S (q(sid := mm_messages m')) (set_mgr sid m' a)"
    using * by (intro core_set_mgr [OF app_ok_core [OF conjunct1 [OF *]] assms(1)]) auto
  then have core: "core_ok G X' n S (q(sid := q')) a'" using * m'(2) by simp
  have "app_ok G X' n S (q(sid := q')) a'"
    by (rule app_ok_by_core [OF conjunct1 [OF *] core]) (simp_all add: m'(2) set_mgr_def put_session_def)
  with * P assms(3) m'(2) show "case r of Inr x \<Rightarrow> app_ok G X' n S (q(sid := q')) a' \<and> Q a' | Inl f \<Rightarrow> benign f \<and> Inv G n S a'"
    by simp
qed

lemma mgr_ok_count:
  "mgr_ok X h rows nxt sid m \<Longrightarrow> unat c \<le> 100 \<Longrightarrow> mgr_ok X h rows nxt sid (m \<lparr> mm_pendingAckCount := c \<rparr>)"
  by (simp add: mgr_ok_def)

lemma runs_increment:
  assumes "sid \<in> insert ''fcm'' S"
  shows "runs G n S (\<lambda>a. app_ok G X n S q a \<and> unat (mm_pendingAckCount (mgr_of sid a)) < 100)
    (zoom (mgr_of sid) (set_mgr sid) (modify incrementPendingAckCount)) (\<lambda>_. app_ok G X n S q)"
proof -
  have "runs G n S (\<lambda>a. app_ok G X n S q a \<and> unat (mm_pendingAckCount (mgr_of sid a)) < 100)
    (zoom (mgr_of sid) (set_mgr sid) (modify incrementPendingAckCount)) (\<lambda>_ a. app_ok G X n S (q(sid := q sid)) a \<and> True)"
  proof (rule runs_mgr [OF assms])
    fix a r m'
    assume pre: "app_ok G X n S q a \<and> unat (mm_pendingAckCount (mgr_of sid a)) < 100"
      and run: "modify incrementPendingAckCount (mgr_of sid a) = (r, m')"
    note ok = core_okD(9,10) [OF app_ok_core [OF conjunct1 [OF pre]] assms]
    from pre have "unat (mm_pendingAckCount (mgr_of sid a) + 1) \<le> 100" by unat_arith
    with run ok pre show "app_ok G X n S q a \<and> r = Inr () \<and> mm_messages m' = q sid \<and>
        mgr_ok X (ap_heap a) (db_rows (ap_dbConn a)) (ap_next a) sid m' \<and> (\<forall>x k. x \<noteq> sid \<longrightarrow> (x, k) \<in> X \<longrightarrow> (x, k) \<in> X)"
      by (auto simp: modify_def incrementPendingAckCount_def mgr_ok_count)
  qed simp
  then show ?thesis by simp
qed

lemma runs_add:
  assumes "sid \<in> insert ''fcm'' S"
  shows "runs G n S (\<lambda>a. app_ok G {} n S q a \<and> ap_heap a = h \<and> om_find (q sid) k = None \<and> msg_sequenceId (h p) = k \<and>
      p < ap_next a \<and> msg_state (h p) \<in> {NEW, PENDING_ACK} \<and> msg_targetSessionId (h p) = sid \<and>
      pending_row (db_rows (ap_dbConn a)) sid k (msg_fcmMessageId (h p)))
    (zoom (mgr_of sid) (set_mgr sid) (addMessage h k p)) (\<lambda>_. app_ok G {} n S (q(sid := om_emplace k p (q sid))))"
    (is "runs G n S ?P ?m _")
proof -
  have "runs G n S ?P ?m (\<lambda>_ a. app_ok G {} n S (q(sid := om_emplace k p (q sid))) a \<and> True)"
  proof (rule runs_mgr [OF assms])
    fix a r m'
    assume pre: "?P a" and run: "addMessage h k p (mgr_of sid a) = (r, m')"
    note ok = core_okD(9,10) [OF app_ok_core [OF conjunct1 [OF pre]] assms]
    have mm: "mm_ok h (mgr_of sid a)" using ok(1) pre by (auto simp: mgr_ok_def)
    have fr: "om_find (mm_messages (mgr_of sid a)) k = None" using ok(2) pre by simp
    have sq: "msg_sequenceId (h p) = k" using pre by simp
    from addMessage_spec [OF mm fr sq] run have m': "r = Inr ()" "mm_ok h m'"
      "mm_messages m' = om_emplace k p (mm_messages (mgr_of sid a))"
      "mm_pendingAckCount m' = mm_pendingAckCount (mgr_of sid a)" "mm_sessionId m' = mm_sessionId (mgr_of sid a)"
      by auto
    have "mgr_ok {} (ap_heap a) (db_rows (ap_dbConn a)) (ap_next a) sid m'"
      using ok(1) pre m'(2-5) unfolding mgr_ok_def m'(3) om_emplace_set [OF fr] by auto
    then show "app_ok G {} n S q a \<and> r = Inr () \<and> mm_messages m' = om_emplace k p (q sid) \<and>
        mgr_ok {} (ap_heap a) (db_rows (ap_dbConn a)) (ap_next a) sid m' \<and> (\<forall>x k. x \<noteq> sid \<longrightarrow> (x, k) \<in> {} \<longrightarrow> (x, k) \<in> {})"
      using pre m' ok(2) by simp
  qed simp
  then show ?thesis by simp
qed

lemma runs_remove:
  assumes "sid \<in> insert ''fcm'' S" and "om_find (q sid) k = Some p"
  shows "runs G n S (\<lambda>a. app_ok G {(sid, k)} n S q a \<and> ap_heap a = h)
    (zoom (mgr_of sid) (set_mgr sid) (removeMessage h k)) (\<lambda>_. app_ok G {} n S (q(sid := om_erase k (q sid))))"
    (is "runs G n S ?P ?m _")
proof -
  have "runs G n S ?P ?m (\<lambda>_ a. app_ok G {} n S (q(sid := om_erase k (q sid))) a \<and> True)"
  proof (rule runs_mgr [OF assms(1)])
    fix a r m'
    assume pre: "?P a" and run: "removeMessage h k (mgr_of sid a) = (r, m')"
    note ok = core_okD(9,10) [OF app_ok_core [OF conjunct1 [OF pre]] assms(1)]
    have mm: "mm_ok h (mgr_of sid a)" using ok(1) pre by (auto simp: mgr_ok_def)
    have fr: "om_find (mm_messages (mgr_of sid a)) k = Some p" using ok(2) assms(2) by simp
    from removeMessage_spec [OF mm fr] run have m': "r = Inr ()" "mm_ok h m'"
      "mm_messages m' = om_erase k (mm_messages (mgr_of sid a))" "mm_sessionId m' = mm_sessionId (mgr_of sid a)"
      by auto
    have "unat (mm_pendingAckCount m') \<le> 100"
      using mm.remove_law [OF mm fr] run ok(1) by (auto simp: mgr_ok_def split: if_splits)
    then have "mgr_ok {} (ap_heap a) (db_rows (ap_dbConn a)) (ap_next a) sid m'"
      using ok(1) pre m'(2-4) mm_okD(1) [OF mm] unfolding mgr_ok_def by (auto simp: set_erase)
    then show "app_ok G {(sid, k)} n S q a \<and> r = Inr () \<and> mm_messages m' = om_erase k (q sid) \<and>
        mgr_ok {} (ap_heap a) (db_rows (ap_dbConn a)) (ap_next a) sid m' \<and>
        (\<forall>x j. x \<noteq> sid \<longrightarrow> (x, j) \<in> {(sid, k)} \<longrightarrow> (x, j) \<in> {})"
      using pre m' ok(2) by simp
  qed simp
  then show ?thesis by simp
qed

subsection \<open>New messages\<close>

definition fresh_id :: "int \<Rightarrow> app \<Rightarrow> bool" where
  "fresh_id s a \<longleftrightarrow> int64_min \<le> s \<and> s \<le> db_sequenceId (ap_dbConn a) \<and> (\<forall>k\<in>fst ` set (db_rows (ap_dbConn a)). k < s)"

lemma fresh_id_absent: "fresh_id s a \<Longrightarrow> om_find (db_rows (ap_dbConn a)) s = None"
  by (force simp: fresh_id_def om_find_None_iff)

lemma runs_next_id:
  "runs G n S (app_ok G {} n S q) (on_db getNextSequenceId) (\<lambda>s a. app_ok G {} n S q a \<and> fresh_id s a)"
proof (rule runsI)
  fix a r a'
  assume pre: "app_ok G {} n S q a" and run: "on_db getNextSequenceId a = (r, a')"
  then obtain d where d: "getNextSequenceId (ap_dbConn a) = (r, d)" "a' = a \<lparr> ap_dbConn := d \<rparr>"
    by (auto simp: on_db_def zoom_def split: prod.splits)
  note ok = core_okD [OF app_ok_core [OF pre]]
  show "case r of Inr s \<Rightarrow> app_ok G {} n S q a' \<and> fresh_id s a' | Inl f \<Rightarrow> benign f \<and> Inv G n S a'"
  proof (cases r)
    case (Inl f)
    with getNextSequenceId_fail [of "ap_dbConn a" f d] d pre show ?thesis by (auto simp: Inv_def)
  next
    case (Inr s)
    note g = getNextSequenceId_ok [OF ok(1) d(1) [unfolded Inr]]
    have "core_ok G {} n S q a'"
      unfolding d(2) using g ok(2) by (intro core_rows [OF app_ok_core [OF pre]]) auto
    moreover have "\<forall>k\<in>fst ` set (db_rows (ap_dbConn a)). k < s" using ok(1) g(2) by (fastforce simp: db_ok_def)
    ultimately have "app_ok G {} n S q a'" "\<forall>k\<in>fst ` set (db_rows (ap_dbConn a)). k < s"
      using app_ok_by_core [OF pre] d(2) by simp_all
    with Inr g ok(2) d(2) show ?thesis by (simp add: fresh_id_def)
  qed
qed

lemma runs_new_msg:
  assumes "\<And>p. msg_good (f p)"
  shows "runs G n S (\<lambda>a. app_ok G {} n S q a \<and> fresh_id s a) (new_msg f)
    (\<lambda>p a. n \<le> p \<and> (app_ok G {} (Suc p) S q a \<and> fresh_id s a \<and> ap_heap a p = f p))"
proof (rule runsI)
  fix a r a'
  assume pre: "app_ok G {} n S q a \<and> fresh_id s a" and run: "new_msg f a = (r, a')"
  note ok = core_okD [OF app_ok_core [OF conjunct1 [OF pre]]]
  let ?p = "ap_next a" and ?h = "(ap_heap a)(ap_next a := f (ap_next a))"
  have a': "r = Inr ?p" "a' = a \<lparr> ap_heap := ?h, ap_next := Suc ?p \<rparr>" using run by (auto simp: new_msg_def)
  have [simp]: "mgr_of sid (a \<lparr> ap_heap := h, ap_next := k \<rparr>) = mgr_of sid a"
      "the_session sid (a \<lparr> ap_heap := h, ap_next := k \<rparr>) = the_session sid a" for sid h k
    by (simp_all add: mgr_of_def the_session_def)
  have "mgr_ok {} ?h (db_rows (ap_dbConn a)) (Suc ?p) sid (mgr_of sid a)" if "sid \<in> insert ''fcm'' S" for sid
    by (rule mgr_ok_heap [OF ok(9) [OF that]]) auto
  moreover have "timer_ok S ?h (Suc ?p) (snd x)" if "x \<in> set (ap_timers a)" for x
  proof -
    have "timer_ok S (ap_heap a) (ap_next a) (snd x)" using ok(13) [of "fst x" "snd x"] that by simp
    then show ?thesis by (cases "snd x") auto
  qed
  moreover have "msg_good (?h p)" if "p < Suc ?p" for p
    using that assms ok(8) by (cases "p = ?p") auto
  ultimately have "core_ok G {} (Suc ?p) S q a'"
    using app_ok_core [OF conjunct1 [OF pre]] a'(2) unfolding core_ok_def by simp
  then have "app_ok G {} (Suc ?p) S q a'" using app_ok_by_core [OF conjunct1 [OF pre]] a'(2) by simp
  with pre a' ok(7) show "case r of Inr p \<Rightarrow> n \<le> p \<and> (app_ok G {} (Suc p) S q a' \<and> fresh_id s a' \<and> ap_heap a' p = f p)
      | Inl f \<Rightarrow> benign f \<and> Inv G n S a'"
    by (simp add: fresh_id_def)
qed

text \<open>A saved message that is in no queue yet.\<close>

definition ready :: "string set \<Rightarrow> (string \<Rightarrow> msg_queue) \<Rightarrow> ptr \<Rightarrow> app \<Rightarrow> bool" where
  "ready S q p a \<longleftrightarrow>
     msg_state (ap_heap a p) \<in> {NEW, PENDING_ACK} \<and>
     pending_row (db_rows (ap_dbConn a)) (c_str (msg_targetSessionId (ap_heap a p))) (msg_sequenceId (ap_heap a p))
       (msg_fcmMessageId (ap_heap a p)) \<and>
     (\<forall>sid\<in>insert ''fcm'' S. om_find (q sid) (msg_sequenceId (ap_heap a p)) = None)"

lemma pending_code: "MessageState_code st \<in> {1, 2} \<longleftrightarrow> st = NEW \<or> st = PENDING_ACK \<or> st = MS_OTHER 1 \<or> st = MS_OTHER 2"
  by (cases st) auto

lemma runs_save:
  assumes "msg_sequenceId x = s" and "msg_payload x = Some j" and "msg_state x \<in> {NEW, PENDING_ACK}"
  shows "runs G n S (\<lambda>a. app_ok G {} n S q a \<and> fresh_id s a \<and> ap_heap a p = x) (save_msg E p)
    (\<lambda>_ a. app_ok G {} n S q a \<and> ready S q p a \<and> ap_heap a p = x)"
proof (rule runsI)
  fix a r a'
  assume pre: "app_ok G {} n S q a \<and> fresh_id s a \<and> ap_heap a p = x" and run: "save_msg E p a = (r, a')"
  then obtain d where d: "saveMsg E x (ap_dbConn a) = (r, d)" "a' = a \<lparr> ap_dbConn := d \<rparr>"
    by (auto simp: save_msg_def on_db_def bindM_def gets_def zoom_def split: prod.splits)
  note ok = core_okD [OF app_ok_core [OF conjunct1 [OF pre]]]
  have law: "db_ok d \<and> db_sequenceId d = db_sequenceId (ap_dbConn a) \<and>
      (case r of Inr _ \<Rightarrow> \<exists>n. om_find (db_rows d) = (om_find (db_rows (ap_dbConn a)))(msg_sequenceId x \<mapsto> bound_row E n x j)
       | Inl f \<Rightarrow> f = Throw (InsertFailed (msg_sequenceId x)) \<and> db_rows d = db_rows (ap_dbConn a))"
    using dbl.save_law [OF ok(1) assms(2) _ _ d(1)] pre assms(1) by (simp add: fresh_id_def)
  have new: "om_find (db_rows (ap_dbConn a)) s = None" using fresh_id_absent pre by blast
  have ev: "evolves (answers_of G) (ledger_of (db_rows (ap_dbConn a))) (ledger_of (db_rows d))"
    using dbl.save_evolves [OF ok(1) assms(2) _ _ d(1)] pre assms(1,3) by (simp add: fresh_id_def)
  have keep: "pending_row (db_rows d) sid k f" if "pending_row (db_rows (ap_dbConn a)) sid k f" for sid k f
    using law that new assms(1) by (cases r) (auto simp: pending_row_def)
  have "core_ok G {} n S q a'"
    unfolding d(2) using law ok(2) keep ev by (intro core_rows [OF app_ok_core [OF conjunct1 [OF pre]]]) auto
  then have ok': "app_ok G {} n S q a'" using app_ok_by_core [OF conjunct1 [OF pre]] d(2) by simp
  show "case r of Inr u \<Rightarrow> app_ok G {} n S q a' \<and> ready S q p a' \<and> ap_heap a' p = x | Inl f \<Rightarrow> benign f \<and> Inv G n S a'"
  proof (cases r)
    case (Inl f)
    with law ok' show ?thesis by (auto simp: Inv_def)
  next
    case (Inr u)
    have "om_find (q sid) s = None" if "sid \<in> insert ''fcm'' S" for sid
    proof (rule ccontr)
      assume "om_find (q sid) s \<noteq> None"
      then obtain p' where "(s, p') \<in> set (q sid)" using om_find_in_set by fastforce
      with ok(9) [OF that] ok(10) [OF that] have "pending_row (db_rows (ap_dbConn a)) sid s (msg_fcmMessageId (ap_heap a p'))" by (simp add: mgr_ok_def)
      with new show False by (auto simp: pending_row_def)
    qed
    moreover have "pending_row (db_rows d) (c_str (msg_targetSessionId x)) s (msg_fcmMessageId x)"
      using law Inr assms by (auto simp: pending_row_def bound_row_def names_fcm_def)
    ultimately show ?thesis
      using Inr ok' pre d(2) assms by (simp add: ready_def)
  qed
qed

end
