(* ===== verification/App_Slots.thy ===== *)
theory App_Slots
  imports App_Inv
begin

text \<open>
  Every slot, timer and event keeps the invariant of \<open>App_Inv\<close> and fails only benignly.
\<close>

section \<open>Sending the next message\<close>

lemma canSend_cases:
  assumes "mm_ok h m"
  shows "canSendMessage h m p = Inl f \<Longrightarrow> benign f" "canSendMessage h m p = Inr 0 \<Longrightarrow> unat (mm_pendingAckCount m) < 100"
proof -
  have g: "benign f" if "group_rule h m p = Inl f"
    using that mm_okD(6) [OF assms, of "msg_groupId (h p)"]
    by (auto simp: group_rule_def findGroup_def group_canSend_def group_index_def split: option.splits if_splits list.splits)
  then show "canSendMessage h m p = Inl f \<Longrightarrow> benign f" by (auto simp: canSendMessage_def split: if_splits)
  show "canSendMessage h m p = Inr 0 \<Longrightarrow> unat (mm_pendingAckCount m) < 100"
    by (auto simp: canSendMessage_def max_pending_word split: if_splits)
qed

lemma getNext_queued:
  assumes "mm_ok h m"
  shows "\<exists>r. getNext h m = Inr r \<and> (\<forall>p. r = Some p \<longrightarrow> (\<exists>k. (k, p) \<in> set (mm_messages m)))"
  unfolding getNext_find [OF assms] by (auto simp: find_Some_iff) (metis nth_mem)

lemma app_ok_mgr:
  assumes "app_ok G X n S q a" and "sid \<in> insert ''fcm'' S"
  shows "mgr_ok X (ap_heap a) (db_rows (ap_dbConn a)) (ap_next a) sid (mgr_of sid a)"
    "mm_ok (ap_heap a) (mgr_of sid a)" "mm_messages (mgr_of sid a) = q sid"
    "\<And>k p. (k, p) \<in> set (q sid) \<Longrightarrow> p < ap_next a \<and> msg_state (ap_heap a p) \<in> {NEW, PENDING_ACK} \<and>
       msg_targetSessionId (ap_heap a p) = sid \<and> msg_sequenceId (ap_heap a p) = k"
proof -
  note ok = core_okD(9,10) [OF app_ok_core [OF assms(1)] assms(2)]
  show 1: "mgr_ok X (ap_heap a) (db_rows (ap_dbConn a)) (ap_next a) sid (mgr_of sid a)" and
    3: "mm_messages (mgr_of sid a) = q sid" by (rule ok)+
  show 2: "mm_ok (ap_heap a) (mgr_of sid a)" using 1 by (simp add: mgr_ok_def)
  show "p < ap_next a \<and> msg_state (ap_heap a p) \<in> {NEW, PENDING_ACK} \<and>
       msg_targetSessionId (ap_heap a p) = sid \<and> msg_sequenceId (ap_heap a p) = k" if "(k, p) \<in> set (q sid)" for k p
    using 1 that mm_okD(4) [OF 2] unfolding mgr_ok_def 3 by blast
qed

lemma runs_getNext:
  assumes "sid \<in> insert ''fcm'' S"
  shows "runs G n S (app_ok G {} n S q) (getsE (\<lambda>a. getNext (ap_heap a) (mgr_of sid a)))
    (\<lambda>r a. app_ok G {} n S q a \<and> (\<forall>p. r = Some p \<longrightarrow> p < ap_next a))"
proof (rule runs_getsE)
  fix a x
  assume ok: "app_ok G {} n S q a" and x: "getNext (ap_heap a) (mgr_of sid a) = Inr x"
  from getNext_queued [OF app_ok_mgr(2) [OF ok assms]] x app_ok_mgr(3,4) [OF ok assms] ok
  show "app_ok G {} n S q a \<and> (\<forall>p. x = Some p \<longrightarrow> p < ap_next a)" by fastforce
next
  fix a e
  assume ok: "app_ok G {} n S q a" and e: "getNext (ap_heap a) (mgr_of sid a) = Inl e"
  from getNext_queued [OF app_ok_mgr(2) [OF ok assms]] e show "benign e \<and> Inv G n S a" by auto
qed

lemma runs_sendNextDown:
  "runs G n S (app_ok G {} n S q) (sendNextPendingDownstreamMessage E) (\<lambda>_. app_ok G {} n S q)"
proof -
  have g: "runs G n S (app_ok G {} n S q) (getsE (\<lambda>a. getNext (ap_heap a) (ap_fcmMsgManager a)))
      (\<lambda>r a. app_ok G {} n S q a \<and> (\<forall>p. r = Some p \<longrightarrow> p < ap_next a))"
    using runs_getNext [of "''fcm''" S G n q] by (simp add: mgr_of_def)
  show ?thesis
    unfolding sendNextPendingDownstreamMessage_def
  proof (rule runs_bindM [OF g])
    fix x
    show "runs G n S (\<lambda>a. app_ok G {} n S q a \<and> (\<forall>p. x = Some p \<longrightarrow> p < ap_next a))
        (case x of None \<Rightarrow> ret () | Some p \<Rightarrow> uploadToFcm E p) (\<lambda>_. app_ok G {} n S q)"
    proof (cases x)
      case None
      then show ?thesis by (simp add: runs_ret)
    next
      case (Some p)
      have "runs G n S (\<lambda>a. app_ok G {} n S q a \<and> p < ap_next a) (uploadToFcm E p) (\<lambda>_. app_ok G {} n S q)"
        by (rule runs_weaken [OF runs_uploadToFcm [of G n S "{}" n q p]]) auto
      with Some show ?thesis by simp
    qed
  qed
qed

lemma runs_findBalSession:
  assumes "\<And>a. P a \<Longrightarrow> app_ok G {} n S q a"
  shows "runs G n S P (findBalSession sid) (\<lambda>s a. (bs_ok s \<and> sid \<in> S) \<and> P a)"
  unfolding findBalSession_def
proof (rule runs_getsE)
  fix a s
  assume P: "P a" and s: "(case om_find (ap_balSessionMap a) sid of None \<Rightarrow> Inl (Throw (UnknownBalSession sid)) | Some s \<Rightarrow> Inr s) = Inr s"
  note ok = core_okD [OF app_ok_core [OF assms [OF P]]]
  from s have f: "om_find (ap_balSessionMap a) sid = Some s" by (auto split: option.splits)
  then have "sid \<in> S" "s = the_session sid a" using ok(4) om_find_key [OF f] by (auto simp: the_session_def)
  with ok(12) P show "(bs_ok s \<and> sid \<in> S) \<and> P a" by simp
next
  fix a e
  assume "P a" and "(case om_find (ap_balSessionMap a) sid of None \<Rightarrow> Inl (Throw (UnknownBalSession sid)) | Some s \<Rightarrow> Inr s) = Inl e"
  with assms show "benign e \<and> Inv G n S a" by (auto simp: Inv_def split: option.splits)
qed

lemma app_ok_wire: "app_ok G X n S q (a \<lparr> ap_wire := w \<rparr>) = app_ok G X n S q a"
  by (simp add: app_ok_def)

lemma runs_sendNextUp:
  assumes "sid \<in> S"
  shows "runs G n S (app_ok G {} n S q) (sendNextPendingUpstreamMessage E sid) (\<lambda>_. app_ok G {} n S q)"
proof (cases "sid = ''fcm''")
  case True
  have "''fcm'' \<notin> S" if "app_ok G {} n S q a" for a using core_okD(5) [OF app_ok_core [OF that]] .
  with True assms show ?thesis by (auto simp: runs_def hoare_def)
next
  case False
  have g: "runs G n S (app_ok G {} n S q) (getsE (\<lambda>a. getNext (ap_heap a) (bs_msgManager (the_session sid a))))
      (\<lambda>r a. app_ok G {} n S q a \<and> (\<forall>p. r = Some p \<longrightarrow> p < ap_next a))"
    using runs_getNext [of sid S G n q] assms False by (simp add: mgr_of_def)
  show ?thesis
    unfolding sendNextPendingUpstreamMessage_def
  proof (rule runs_bindM [OF g])
    fix x
    show "runs G n S (\<lambda>a. app_ok G {} n S q a \<and> (\<forall>p. x = Some p \<longrightarrow> p < ap_next a))
        (case x of None \<Rightarrow> ret () | Some p \<Rightarrow> bindM (payload_of p) (\<lambda>jdoc.
           bindM (gets (\<lambda>a. msg_targetSessionId (ap_heap a p))) (\<lambda>sessid.
           bindM (findBalSession sessid) (\<lambda>sess. write_session E sess jdoc)))) (\<lambda>_. app_ok G {} n S q)"
    proof (cases x)
      case None
      then show ?thesis by (simp add: runs_ret)
    next
      case (Some p)
      have "runs G n S (\<lambda>a. app_ok G {} n S q a \<and> p < ap_next a) (bindM (payload_of p) (\<lambda>jdoc.
           bindM (gets (\<lambda>a. msg_targetSessionId (ap_heap a p))) (\<lambda>sessid.
           bindM (findBalSession sessid) (\<lambda>sess. write_session E sess jdoc)))) (\<lambda>_. app_ok G {} n S q)"
        by (rule runs_bindM [OF runs_payload], blast, rule runs_bindM [OF runs_gets], rule conjunct1, assumption,
            rule runs_bindM [OF runs_findBalSession], assumption, rule runs_pure, rule runs_write_session)
          (auto simp: app_ok_wire)
      with Some show ?thesis by simp
    qed
  qed
qed

section \<open>Forwarding to a business application\<close>

lemma runs_try_write:
  assumes "bs_ok sess"
  shows "runs G n S (\<lambda>a. app_ok G {} n S q a \<and> P (a \<lparr> ap_wire := w0 \<rparr>)) (tryM (write_session E sess j))
    (\<lambda>_ a. app_ok G {} n S q a \<and> P (a \<lparr> ap_wire := w0 \<rparr>))"
proof (rule runsI)
  fix a r a'
  assume pre: "app_ok G {} n S q a \<and> P (a \<lparr> ap_wire := w0 \<rparr>)" and run: "tryM (write_session E sess j) a = (r, a')"
  obtain r0 w where w: "writeMessage E sess j (ap_wire a) = (r0, w)" by fastforce
  have "r0 = Inr () \<or> (\<exists>e. r0 = Inl (Throw e))" using writeMessage_cases [OF assms w] by blast
  then have "tryM (write_session E sess j) a = (Inr (), a \<lparr> ap_wire := w \<rparr>)"
    by (elim disjE exE) (simp_all add: tryM_def write_session_def zoom_def w)
  with run have "r = Inr ()" "a' = a \<lparr> ap_wire := w \<rparr>" by simp_all
  with pre show "case r of Inr u \<Rightarrow> app_ok G {} n S q a' \<and> P (a' \<lparr> ap_wire := w0 \<rparr>) | Inl f \<Rightarrow> benign f \<and> Inv G n S a'"
    by (simp add: app_ok_wire)
qed

lemma runs_forwardMsg:
  "runs G n S (\<lambda>a. app_ok G {} n S q a \<and> p < ap_next a) (forwardMsg E sid p) (\<lambda>_ a. app_ok G {} n S q a \<and> p < ap_next a)"
  unfolding forwardMsg_def
proof (rule runs_bindM [OF runs_findBalSession], erule conjunct1, rule runs_pure)
  fix sess
  assume s: "bs_ok sess \<and> sid \<in> S"
  have w: "runs G n S (\<lambda>a. app_ok G {} n S q a \<and> p < ap_next a) (tryM (write_session E sess j))
      (\<lambda>_ a. app_ok G {} n S q a \<and> p < ap_next a)" for j
    using runs_try_write [of sess G n S q "\<lambda>a. p < ap_next a" undefined E j] s by simp
  show "runs G n S (\<lambda>a. app_ok G {} n S q a \<and> p < ap_next a)
      (if bs_state sess = UNAUTHENTICATED then ret () else bindM (payload_of p) (\<lambda>jdoc. tryM (write_session E sess jdoc)))
      (\<lambda>_ a. app_ok G {} n S q a \<and> p < ap_next a)"
    by (rule runs_if, simp add: runs_ret, rule runs_bindM [OF runs_payload w], blast)
qed

lemma app_ok_heap_all:
  "app_ok G X n S q a \<Longrightarrow> (\<And>z. keeps_id (ap_heap a z) (h z)) \<Longrightarrow> app_ok G X n S q (a \<lparr> ap_heap := h \<rparr>)"
  by (rule app_ok_by_core, assumption, rule core_heap, erule app_ok_core) simp_all

lemma queued_open:
  assumes "app_ok G {} n S q a" and "sid \<in> insert ''fcm'' S" and "(k, p) \<in> set (q sid)"
  shows "open_msg p a"
proof (rule pending_open)
  have "msg_sequenceId (ap_heap a p) = k" using app_ok_mgr(4) [OF assms(1,2)] assms(3) by blast
  moreover have "pending_row (db_rows (ap_dbConn a)) sid k (msg_fcmMessageId (ap_heap a p))"
    using app_ok_mgr(1,3) [OF assms(1,2)] assms(3) by (simp add: mgr_ok_def)
  ultimately show "pending_row (db_rows (ap_dbConn a)) sid (msg_sequenceId (ap_heap a p)) (msg_fcmMessageId (ap_heap a p))" by simp
qed

text \<open>The four steps of a first send: the row, the message and the count are marked, then it goes out.\<close>

lemma runs_mark:
  assumes "sid \<in> insert ''fcm'' S" and "(k, p) \<in> set (q sid)"
    and "runs G n S (\<lambda>a. app_ok G {} n S q a \<and> p < ap_next a) send (\<lambda>_. Inv G n S)"
  shows "runs G n S (\<lambda>a. app_ok G {} n S q a \<and> p < ap_next a \<and> unat (mm_pendingAckCount (mgr_of sid a)) < 100)
    (thenM (update_msg E p PENDING_ACK) (thenM (set_state p PENDING_ACK)
       (thenM (zoom (mgr_of sid) (set_mgr sid) (modify incrementPendingAckCount)) send))) (\<lambda>_. Inv G n S)"
proof -
  let ?C = "\<lambda>a. p < ap_next a \<and> unat (mm_pendingAckCount (mgr_of sid a)) < 100"
  have mgr: "mgr_of sid (a \<lparr> ap_dbConn := d \<rparr>) = mgr_of sid a" "mgr_of sid (a \<lparr> ap_heap := h \<rparr>) = mgr_of sid a" for a d h
    by (simp_all add: mgr_of_def the_session_def)
  have 1: "runs G n S (\<lambda>a. app_ok G {} n S q a \<and> ?C a) (update_msg E p PENDING_ACK) (\<lambda>_ a. app_ok G {} n S q a \<and> ?C a)"
    by (rule runs_update) (simp_all add: mgr queued_open [where q = q, OF _ assms(1,2)])
  have 2: "runs G n S (\<lambda>a. app_ok G {} n S q a \<and> ?C a) (set_state p PENDING_ACK) (\<lambda>_ a. app_ok G {} n S q a \<and> ?C a)"
  proof (rule runs_set_state(1))
    fix a h
    assume pre: "app_ok G {} n S q a \<and> ?C a" and id: "\<And>z. keeps_id (ap_heap a z) (h z)"
    from app_ok_heap_all [OF conjunct1 [OF pre] id] pre
    show "app_ok G {} n S q (a \<lparr> ap_heap := h \<rparr>) \<and> ?C (a \<lparr> ap_heap := h \<rparr>)" by (simp add: mgr)
  qed (rule conjunct1)
  have 3: "runs G n S (\<lambda>a. app_ok G {} n S q a \<and> ?C a) (zoom (mgr_of sid) (set_mgr sid) (modify incrementPendingAckCount))
      (\<lambda>_ a. app_ok G {} n S q a \<and> p < ap_next a)"
  proof (rule runsI)
    fix a r a'
    assume pre: "app_ok G {} n S q a \<and> ?C a"
      and run: "zoom (mgr_of sid) (set_mgr sid) (modify incrementPendingAckCount) a = (r, a')"
    have "ap_next a' = ap_next a" "r = Inr ()" using run by (auto simp: zoom_def modify_def set_mgr_def put_session_def)
    moreover from hoareD_ok [OF runs_increment [OF assms(1), of G n "{}" q, unfolded runs_def] _ run [unfolded \<open>r = Inr ()\<close>]] pre
    have "app_ok G {} n S q a'" by simp
    ultimately show "case r of Inr u \<Rightarrow> app_ok G {} n S q a' \<and> p < ap_next a' | Inl f \<Rightarrow> benign f \<and> Inv G n S a'"
      using pre by simp
  qed
  show ?thesis
    by (rule runs_thenM [OF 1 runs_thenM [OF 2 runs_thenM [OF 3 assms(3)]]])
qed

lemma runs_canSend:
  assumes "sid \<in> insert ''fcm'' S"
  shows "runs G n S (\<lambda>a. app_ok G {} n S q a \<and> p < ap_next a) (getsE (\<lambda>a. canSendMessage (ap_heap a) (mgr_of sid a) p))
    (\<lambda>rc a. app_ok G {} n S q a \<and> p < ap_next a \<and> (rc = 0 \<longrightarrow> unat (mm_pendingAckCount (mgr_of sid a)) < 100))"
  by (rule runs_getsE) (auto dest: canSend_cases(1,2) [OF app_ok_mgr(2) [OF _ assms]] simp: Inv_def)

text \<open>A saved message enters its queue and is sent if the test allows it.\<close>

lemma runs_enqueue:
  assumes sid: "sid \<in> insert ''fcm'' S" and nul: "CHR 0x00 \<notin> set sid"
    and send: "\<And>q'. runs G n S (\<lambda>a. app_ok G {} n S q' a \<and> p < ap_next a) send (\<lambda>_. Inv G n S)"
  shows "runs G n S (\<lambda>a. (app_ok G {} n S q a \<and> ready S q p a \<and> msg_targetSessionId (ap_heap a p) = sid \<and> p < ap_next a) \<and> ap_heap a = h)
    (thenM (zoom (mgr_of sid) (set_mgr sid) (addMessage h (msg_sequenceId (h p)) p))
      (bindM (getsE (\<lambda>a. canSendMessage (ap_heap a) (mgr_of sid a) p))
        (\<lambda>rcode. if rcode = 0 then thenM (update_msg E p PENDING_ACK) (thenM (set_state p PENDING_ACK)
           (thenM (zoom (mgr_of sid) (set_mgr sid) (modify incrementPendingAckCount)) send)) else ret ())))
    (\<lambda>_. Inv G n S)"
proof -
  let ?P = "\<lambda>a. (app_ok G {} n S q a \<and> ready S q p a \<and> msg_targetSessionId (ap_heap a p) = sid \<and> p < ap_next a) \<and> ap_heap a = h"
  let ?k = "msg_sequenceId (h p)"
  let ?q = "q(sid := om_emplace ?k p (q sid))"
  have add: "runs G n S ?P (zoom (mgr_of sid) (set_mgr sid) (addMessage h ?k p)) (\<lambda>_ a. app_ok G {} n S ?q a \<and> p < ap_next a)"
  proof (rule runsI_weak)
    fix a r a'
    assume P: "?P a" and run: "zoom (mgr_of sid) (set_mgr sid) (addMessage h ?k p) a = (r, a')"
    have pre: "app_ok G {} n S q a \<and> ap_heap a = h \<and> om_find (q sid) ?k = None \<and> msg_sequenceId (h p) = ?k \<and>
        p < ap_next a \<and> msg_state (h p) \<in> {NEW, PENDING_ACK} \<and> msg_targetSessionId (h p) = sid \<and>
        pending_row (db_rows (ap_dbConn a)) sid ?k (msg_fcmMessageId (h p))"
      using P sid c_str_id [OF nul] by (auto simp: ready_def)
    have nx: "ap_next a' = ap_next a" using run by (auto simp: zoom_def set_mgr_def put_session_def split: prod.splits)
    note h = runs_add [OF sid, of G n q h ?k p, unfolded runs_def]
    show "case r of Inr u \<Rightarrow> app_ok G {} n S ?q a' \<and> p < ap_next a' | Inl f \<Rightarrow> benign f \<and> (\<forall>e. f = Throw e \<longrightarrow> Inv G n S a')"
      using hoareD_ok [OF h pre] hoareD_fail [OF h pre] run nx pre by (cases r) auto
  qed
  show ?thesis
  proof (cases "om_find (q sid) ?k")
    case None
    then have inq: "(?k, p) \<in> set (?q sid)" by (simp add: om_emplace_set)
    show ?thesis
      by (rule runs_thenM [OF add], rule runs_bindM [OF runs_canSend [OF sid]], rule runs_if,
          rule runs_weaken [OF runs_mark [where q = ?q, OF sid inq send]])
        (auto simp: Inv_def intro!: runs_ret)
  next
    case (Some p')
    then show ?thesis using sid by (auto simp: runs_def hoare_def ready_def)
  qed
qed

lemma runs_forwardToBal:
  "runs G n S (\<lambda>a. app_ok G {} n S q a \<and> ready S q p a \<and> msg_targetSessionId (ap_heap a p) = sid \<and> p < ap_next a)
    (forwardMsgToBalsession E sid p) (\<lambda>_. Inv G n S)"
    (is "runs G n S ?P _ _")
proof -
  have find: "runs G n S ?P (findBalMessageManager sid) (\<lambda>_ a. (sid \<in> S \<and> sid \<noteq> ''fcm'' \<and> CHR 0x00 \<notin> set sid) \<and> ?P a)"
    unfolding findBalMessageManager_def
  proof (rule runs_getsE)
    fix a x
    assume P: "?P a" and "(case om_find (ap_balSessionMap a) sid of None \<Rightarrow> Inl (Throw (NoMessageManager sid)) | Some _ \<Rightarrow> Inr ()) = Inr x"
    then obtain s where "om_find (ap_balSessionMap a) sid = Some s" by (auto split: option.splits)
    note ok = core_okD [OF app_ok_core [OF conjunct1 [OF P]]]
    from om_find_key [OF \<open>om_find _ _ = Some s\<close>] have "sid \<in> S" using ok(4) by auto
    with P ok(5,6) show "(sid \<in> S \<and> sid \<noteq> ''fcm'' \<and> CHR 0x00 \<notin> set sid) \<and> ?P a" by blast
  qed (auto simp: Inv_def split: option.splits)
  have send: "runs G n S (\<lambda>a. app_ok G {} n S q' a \<and> p < ap_next a) (forwardMsg E sid p) (\<lambda>_. Inv G n S)" for q'
    by (rule runs_weaken [OF runs_forwardMsg]) (auto simp: Inv_def)
  show ?thesis
    unfolding forwardMsgToBalsession_def
  proof (rule runs_thenM [OF find], rule runs_pure, rule runs_bindM [OF runs_gets [where Q = "\<lambda>h a. ?P a \<and> ap_heap a = h"]], simp)
    fix h
    assume sid: "sid \<in> S \<and> sid \<noteq> ''fcm'' \<and> CHR 0x00 \<notin> set sid"
    then have ne: "sid \<noteq> ''fcm''" by blast
    have can: "(\<lambda>a. canSendMessage (ap_heap a) (bs_msgManager (the_session sid a)) p) =
        (\<lambda>a. canSendMessage (ap_heap a) (mgr_of sid a) p)" using ne by (simp add: mgr_of_def)
    show "runs G n S (\<lambda>a. ?P a \<and> ap_heap a = h)
       (thenM (on_bal_mgr sid (addMessage h (msg_sequenceId (h p)) p))
         (bindM (getsE (\<lambda>a. canSendMessage (ap_heap a) (bs_msgManager (the_session sid a)) p))
           (\<lambda>rcode. if rcode = 0 then thenM (update_msg E p PENDING_ACK) (thenM (set_state p PENDING_ACK)
              (thenM (on_bal_mgr sid (modify incrementPendingAckCount)) (forwardMsg E sid p))) else ret ())))
       (\<lambda>_. Inv G n S)"
      unfolding on_bal_mgr_eq [OF ne] can using sid by (intro runs_enqueue send) auto
  qed
qed

section \<open>Messages the program makes\<close>

lemma Inv_mono: "Inv G m S a \<Longrightarrow> n \<le> m \<Longrightarrow> Inv G n S a"
  by (auto simp: Inv_def app_ok_def core_ok_def)

lemma runs_print:
  "(\<And>a. P a \<Longrightarrow> msg_payload (ap_heap a p) \<noteq> None) \<Longrightarrow> runs G n S P (print_msg E p) (\<lambda>_. P)"
  by (rule runsI) (fastforce simp: print_msg_def message_print_def bindM_def getsE_def ret_def split: option.splits)

lemma runs_new_saved:
  assumes "\<And>p. msg_good (f p)" "\<And>p. msg_sequenceId (f p) = s" "\<And>p. msg_payload (f p) = Some j"
    "\<And>p. msg_state (f p) \<in> {NEW, PENDING_ACK}"
    and g: "\<And>p. runs G (Suc p) S (\<lambda>a. app_ok G {} (Suc p) S q a \<and> ready S q p a \<and> ap_heap a p = f p) (g p) (\<lambda>_. Inv G (Suc p) S)"
  shows "runs G n S (\<lambda>a. app_ok G {} n S q a \<and> fresh_id s a) (bindM (new_msg f) (\<lambda>p. thenM (save_msg E p) (g p))) (\<lambda>_. Inv G n S)"
    and "runs G n S (\<lambda>a. app_ok G {} n S q a \<and> fresh_id s a)
      (bindM (new_msg f) (\<lambda>p. thenM (print_msg E p) (thenM (save_msg E p) (g p)))) (\<lambda>_. Inv G n S)"
proof -
  have save: "runs G (Suc p) S (\<lambda>a. app_ok G {} (Suc p) S q a \<and> fresh_id s a \<and> ap_heap a p = f p)
      (thenM (save_msg E p) (g p)) (\<lambda>_. Inv G (Suc p) S)" for p
    by (rule runs_thenM [OF runs_save g]) (use assms in auto)
  have print: "runs G (Suc p) S (\<lambda>a. app_ok G {} (Suc p) S q a \<and> fresh_id s a \<and> ap_heap a p = f p)
      (thenM (print_msg E p) (thenM (save_msg E p) (g p))) (\<lambda>_. Inv G (Suc p) S)" for p
    by (rule runs_thenM [OF runs_print save]) (simp add: assms(3))
  show "runs G n S (\<lambda>a. app_ok G {} n S q a \<and> fresh_id s a) (bindM (new_msg f) (\<lambda>p. thenM (save_msg E p) (g p))) (\<lambda>_. Inv G n S)"
    by (rule runs_bindM [OF runs_new_msg [OF assms(1)]], rule runs_pure, rule runs_weaken [OF save])
      (auto intro: Inv_mono)
  show "runs G n S (\<lambda>a. app_ok G {} n S q a \<and> fresh_id s a)
      (bindM (new_msg f) (\<lambda>p. thenM (print_msg E p) (thenM (save_msg E p) (g p)))) (\<lambda>_. Inv G n S)"
    by (rule runs_bindM [OF runs_new_msg [OF assms(1)]], rule runs_pure, rule runs_weaken [OF print])
      (auto intro: Inv_mono)
qed

lemma msg_good_new [simp]: "msg_good (Message_new E p s t f g src tgt (Some j) st)"
  by (simp add: msg_good_def Message_new_def ExponentialBackoff_def)

lemma msg_good_default:
  "msg_good ((Message_default E p) \<lparr> msg_sequenceId := s, msg_type := t, msg_fcmMessageId := f,
     msg_targetSessionId := sid, msg_state := st, msg_payload := Some j \<rparr>)"
  "msg_good ((Message_default E p) \<lparr> msg_sequenceId := s, msg_type := t, msg_fcmMessageId := f,
     msg_sourceSessionId := src, msg_targetSessionId := sid, msg_payload := Some j, msg_state := st \<rparr>)"
  by (simp_all add: msg_good_def Message_default_def ExponentialBackoff_def)

lemma ready_next: "app_ok G X (Suc p) S q a \<Longrightarrow> p < ap_next a"
  by (drule app_ok_core, drule core_okD(7)) simp

lemma runs_notify:
  "runs G n S (\<lambda>a. app_ok G {} n S q a \<and> p < ap_next a) (notifyDownstreamUploadFailure E p) (\<lambda>_. Inv G n S)"
  unfolding notifyDownstreamUploadFailure_def
proof (rule runs_bindM [OF runs_payload], blast, rule runs_tryM,
    rule runs_weaken [where n' = n and P' = "app_ok G {} n S q" and Q' = "\<lambda>_. Inv G n S"])
  fix jdoc
  show "runs G n S (app_ok G {} n S q)
    (bindM (on_db getNextSequenceId) (\<lambda>nextseqid. bindM (gets (\<lambda>a. ap_heap a p)) (\<lambda>msg.
         let sessid = msg_sourceSessionId msg;
             root = om_store G_FCM_DATA (JObject (doc_object jdoc))
                   (om_store G_ERROR_DESC (JString ''Max retry reached.'')
                   (om_store G_SESSION_ID (JString (c_str sessid))
                   (om_store G_MESSAGE_TYPE (JString ''DOWNSTREAM_REJECT'')
                   (om_store G_SEQUENCE_ID (j_of_int64 nextseqid) []))))
         in bindM (new_msg (\<lambda>q. (Message_default E q)
                    \<lparr> msg_sequenceId := nextseqid, msg_type := DOWNSTREAM_REJECT,
                      msg_fcmMessageId := msg_fcmMessageId msg, msg_targetSessionId := sessid,
                      msg_state := PENDING_ACK, msg_payload := Some (JObject root) \<rparr>)) (\<lambda>q.
            thenM (save_msg E q)
           (bindM (findBalSession sessid) (\<lambda>sess. write_session E sess jdoc)))))) (\<lambda>_. Inv G n S)"
  proof (unfold Let_def, rule runs_bindM [OF runs_next_id], rule runs_bindM [OF runs_gets], assumption,
      rule runs_new_saved(1))
    fix s msg q'
    show "runs G (Suc q') S (\<lambda>a. app_ok G {} (Suc q') S q a \<and> ready S q q' a \<and> ap_heap a q' = y)
       (bindM (findBalSession (msg_sourceSessionId msg)) (\<lambda>sess. write_session E sess jdoc)) (\<lambda>_. Inv G (Suc q') S)" for y
      by (rule runs_weaken [where n' = "Suc q'" and P' = "app_ok G {} (Suc q') S q" and Q' = "\<lambda>_. app_ok G {} (Suc q') S q"],
          rule runs_bindM [OF runs_findBalSession], assumption, rule runs_pure, rule runs_write_session)
        (auto simp: app_ok_wire Inv_def)
  qed (simp_all add: msg_good_default)
qed simp_all

section \<open>Retries\<close>

lemma retry_timeout_value:
  assumes "draws_in_range E" and "msg_good x" and "getNextRetryTimeout E x = (Inr v, y)"
  shows "v \<noteq> - 1"
proof -
  have "bo_distribution (msg_exboff x) = (100, 1000)" using assms(2) by (simp add: msg_good_def)
  from backoff_next_ge [OF assms(1) this] assms(2,3) show ?thesis
    by (fastforce simp: getNextRetryTimeout_def zoom_def Let_def msg_good_def split: sum.splits prod.splits if_splits option.splits)
qed

lemma runs_retry_timeout:
  assumes "draws_in_range E" and "\<And>a. P a \<Longrightarrow> app_ok G {} n S q a \<and> p < ap_next a"
    and "\<And>a h. P a \<Longrightarrow> (\<And>z. keeps_id (ap_heap a z) (h z)) \<Longrightarrow> P (a \<lparr> ap_heap := h \<rparr>)"
  shows "runs G n S P (on_msg p (getNextRetryTimeout E)) (\<lambda>v a. v \<noteq> - 1 \<and> P a)"
proof (rule runs_on_msg [where q = q])
  fix a x r y
  assume P: "P a" and x: "x = ap_heap a p" and run: "getNextRetryTimeout E x = (r, y)"
  have "msg_good x" using core_okD(8) [OF app_ok_core] assms(2) [OF P] x by blast
  with retry_timeout_id [OF run] retry_timeout_value [OF assms(1), of x] run
  show "keeps_id x y \<and> (case r of Inl f \<Rightarrow> benign f | Inr v \<Rightarrow> v \<noteq> - 1)" by (cases r) auto
next
  show "app_ok G {} n S q a" if "P a" for a using assms(2) [OF that] by blast
  show "P (a \<lparr> ap_heap := h \<rparr>)" if "P a" "\<And>z. keeps_id (ap_heap a z) (h z)" for a h using that by (rule assms(3))
qed

lemma runs_start_timer:
  assumes "\<And>a. P a \<Longrightarrow> app_ok G {} n S q a \<and> timer_ok S (ap_heap a) (ap_next a) t" and "\<And>a ts. P a \<Longrightarrow> Q (a \<lparr> ap_timers := ts \<rparr>)"
  shows "runs G n S P (start_timer d t) (\<lambda>_ a. app_ok G {} n S q a \<and> Q a)"
  unfolding start_timer_def
proof (rule runs_modify)
  fix a
  assume P: "P a"
  with assms(1) [OF P] assms(2) [OF P] app_ok_timer
  show "app_ok G {} n S q (a \<lparr> ap_timers := ap_timers a @ [(d, t)] \<rparr>) \<and> Q (a \<lparr> ap_timers := ap_timers a @ [(d, t)] \<rparr>)" by blast
qed

lemma runs_retryDown:
  assumes "draws_in_range E"
  shows "runs G n S (\<lambda>a. app_ok G {} n S q a \<and> p < ap_next a) (retryDownstreamWithExponentialBackoff E p)
    (\<lambda>_ a. app_ok G {} n S q a \<and> p < ap_next a)"
proof -
  let ?P = "\<lambda>a. app_ok G {} n S q a \<and> p < ap_next a"
  have heap: "?P (a \<lparr> ap_heap := h \<rparr>)" if "?P a" "\<And>z. keeps_id (ap_heap a z) (h z)" for a h
    using that by (simp add: app_ok_heap_all)
  have rt: "runs G n S ?P (on_msg p (getNextRetryTimeout E)) (\<lambda>v a. v \<noteq> - 1 \<and> ?P a)"
    by (rule runs_retry_timeout [where q = q, OF assms]) (blast, rule heap)
  have sr: "runs G n S ?P (set_retry p True) (\<lambda>_. ?P)"
    by (rule runs_set_state(2) [where q = q]) (blast, rule heap)
  have t: "runs G n S ?P (start_timer msec (TRetryDownstream p)) (\<lambda>_. ?P)" for msec
    by (rule runs_start_timer) auto
  show ?thesis
    unfolding retryDownstreamWithExponentialBackoff_def
  proof (rule runs_bindM [OF rt], rule runs_pure)
    fix msec :: int
    assume "msec \<noteq> - 1"
    have "runs G n S ?P (thenM (set_retry p True) (start_timer msec (TRetryDownstream p))) (\<lambda>_. ?P)"
      by (rule runs_thenM [OF sr t])
    with \<open>msec \<noteq> - 1\<close> show "runs G n S ?P (if msec \<noteq> - 1 then thenM (set_retry p True) (start_timer msec (TRetryDownstream p))
       else thenM (update_msg E p DELIVERY_FAILED) (bindM (gets ap_heap) (\<lambda>h.
         thenM (on_fcm_mgr (removeMessageWithFcmMsgId h (msg_fcmMessageId (h p)))) (notifyDownstreamUploadFailure E p)))) (\<lambda>_. ?P)"
      by simp
  qed
qed

lemma runs_retryUp:
  assumes "draws_in_range E" and "sid \<in> S"
  shows "runs G n S (\<lambda>a. app_ok G {} n S q a \<and> p < ap_next a \<and> msg_targetSessionId (ap_heap a p) = sid)
    (retryUpstreamWithExponentialBackoff E p) (\<lambda>_. app_ok G {} n S q)"
proof -
  let ?P = "\<lambda>a. app_ok G {} n S q a \<and> p < ap_next a \<and> msg_targetSessionId (ap_heap a p) = sid"
  have heap: "?P (a \<lparr> ap_heap := h \<rparr>)" if "?P a" "\<And>z. keeps_id (ap_heap a z) (h z)" for a h
    using that by (simp add: app_ok_heap_all keeps_id_def)
  have rt: "runs G n S ?P (on_msg p (getNextRetryTimeout E)) (\<lambda>v a. v \<noteq> - 1 \<and> ?P a)"
    by (rule runs_retry_timeout [where q = q, OF assms(1)]) (blast, rule heap)
  have sr: "runs G n S ?P (set_retry p True) (\<lambda>_. ?P)"
    by (rule runs_set_state(2) [where q = q]) (blast, rule heap)
  have t: "runs G n S ?P (start_timer msec (TRetryUpstream p)) (\<lambda>_ a. app_ok G {} n S q a \<and> True)" for msec
    by (rule runs_start_timer) (auto simp: assms(2))
  show ?thesis
    unfolding retryUpstreamWithExponentialBackoff_def
  proof (rule runs_bindM [OF rt], rule runs_pure)
    fix msec :: int
    assume "msec \<noteq> - 1"
    have "runs G n S ?P (thenM (set_retry p True) (start_timer msec (TRetryUpstream p))) (\<lambda>_. app_ok G {} n S q)"
      by (rule runs_thenM [OF sr t [simplified]])
    with \<open>msec \<noteq> - 1\<close> show "runs G n S ?P (if msec \<noteq> - 1 then thenM (set_retry p True) (start_timer msec (TRetryUpstream p))
       else thenM (update_msg E p DELIVERY_FAILED) (bindM (gets ap_heap) (\<lambda>h.
         let sid = msg_targetSessionId (h p) in thenM (findBalMessageManager sid)
           (on_bal_mgr sid (removeMessageWithFcmMsgId h (msg_fcmMessageId (h p))))))) (\<lambda>_. app_ok G {} n S q)"
      by simp
  qed
qed

section \<open>The resend loops\<close>

lemma runs_queue_turn:
  assumes "sid \<in> insert ''fcm'' S" and "\<And>a. mgr a = mgr_of sid a" and "(k, p) \<in> set (q sid)"
    and "runs G n S (app_ok G {} n S q) (body p) (\<lambda>_. app_ok G {} n S q)"
  shows "runs G n S (app_ok G {} n S q) (bindM (gets (\<lambda>a. om_find (mm_messages (mgr a)) k)) (\<lambda>here.
      if here = None then ret () else thenM (body p) (bindM (gets (\<lambda>a. om_find (mm_messages (mgr a)) k)) (\<lambda>still.
        if still = None then raise (Undefined IteratorInvalidated) else ret ())))) (\<lambda>_. app_ok G {} n S q)"
proof -
  have q: "mm_messages (mgr a) = q sid" if "app_ok G {} n S q a" for a
    unfolding assms(2) by (rule app_ok_mgr(3) [OF that assms(1)])
  have here: "runs G n S (app_ok G {} n S q) (gets (\<lambda>a. om_find (mm_messages (mgr a)) k))
      (\<lambda>x a. x = om_find (q sid) k \<and> app_ok G {} n S q a)"
    by (rule runs_gets) (simp add: q)
  show ?thesis
    by (rule runs_bindM [OF here], rule runs_pure, rule runs_if, simp add: runs_ret,
        rule runs_thenM [OF assms(4)], rule runs_bindM [OF here], rule runs_pure)
      (use assms(3) in \<open>auto simp: runs_ret\<close>)
qed

lemma runs_queue:
  assumes "sid \<in> insert ''fcm'' S" and "\<And>a. mgr a = mgr_of sid a"
  shows "runs G n S (app_ok G {} n S q) (gets (\<lambda>a. mm_messages (mgr a))) (\<lambda>x a. x = q sid \<and> app_ok G {} n S q a)"
  by (rule runs_gets) (simp add: assms(2) app_ok_mgr(3) [OF _ assms(1)])

lemma runs_for_queue:
  assumes "sid \<in> insert ''fcm'' S" and "\<And>a. mgr a = mgr_of sid a"
    and "\<And>k p. (k, p) \<in> set (q sid) \<Longrightarrow> runs G n S (app_ok G {} n S q) (body p) (\<lambda>_. app_ok G {} n S q)"
  shows "runs G n S (app_ok G {} n S q) (for_queue mgr body) (\<lambda>_. app_ok G {} n S q)"
  unfolding for_queue_def
  by (rule runs_bindM [OF runs_queue [OF assms(1,2)]], rule runs_pure, rule runs_forM)
    (use runs_queue_turn [where q = q, OF assms(1,2) _ assms(3)] in auto)

lemma runs_canResend:
  assumes "sid \<in> insert ''fcm'' S" and "(k, p) \<in> set (q sid)"
  shows "runs G n S (app_ok G {} n S q) (getsE (\<lambda>a. canSendMessageOnReconnect (ap_heap a) (mgr_of sid a) p))
    (\<lambda>rc a. rc \<in> {0, 2, 3} \<and> app_ok G {} n S q a \<and> p < ap_next a \<and> msg_targetSessionId (ap_heap a p) = sid \<and>
       (rc = 0 \<longrightarrow> unat (mm_pendingAckCount (mgr_of sid a)) < 100))"
proof -
  have c: "canSendMessageOnReconnect (ap_heap a) (mgr_of sid a) p =
      Inr (send_code {NEW, PENDING_ACK} (ap_heap a) (q sid) (unat (mm_pendingAckCount (mgr_of sid a))) p)"
    if "app_ok G {} n S q a" for a
    using canSendMessageOnReconnect_spec [OF app_ok_mgr(2) [OF that assms(1)], of k p] app_ok_mgr(3) [OF that assms(1)] assms(2) by simp
  have m: "p < ap_next a \<and> msg_state (ap_heap a p) \<in> {NEW, PENDING_ACK} \<and> msg_targetSessionId (ap_heap a p) = sid"
    if "app_ok G {} n S q a" for a using app_ok_mgr(4) [OF that assms(1), of k p] assms(2) by blast
  show ?thesis
  proof (rule runs_getsE)
    fix a x
    assume ok: "app_ok G {} n S q a" and x: "canSendMessageOnReconnect (ap_heap a) (mgr_of sid a) p = Inr x"
    from c [OF ok] m [OF ok] x have "x = send_code {NEW, PENDING_ACK} (ap_heap a) (q sid) (unat (mm_pendingAckCount (mgr_of sid a))) p"
      by simp
    with m [OF ok] ok show "x \<in> {0, 2, 3} \<and> app_ok G {} n S q a \<and> p < ap_next a \<and> msg_targetSessionId (ap_heap a p) = sid \<and>
        (x = 0 \<longrightarrow> unat (mm_pendingAckCount (mgr_of sid a)) < 100)"
      by (simp add: send_code_def)
  qed (simp add: c)
qed

lemma runs_canResend_fcm:
  assumes "(k, p) \<in> set (q ''fcm'')"
  shows "runs G n S (app_ok G {} n S q) (getsE (\<lambda>a. canSendMessageOnReconnect (ap_heap a) (ap_fcmMsgManager a) p))
    (\<lambda>rc a. rc \<in> {0, 2, 3} \<and> app_ok G {} n S q a \<and> p < ap_next a)"
  using runs_canResend [of "''fcm''" S k p q G n] assms by (simp add: mgr_of_def) (erule runs_weaken; auto)

lemma runs_resend_downstream:
  assumes "draws_in_range E" and kp: "(k, p) \<in> set (q ''fcm'')"
  shows "runs G n S (app_ok G {} n S q) (resend_downstream E p) (\<lambda>_. app_ok G {} n S q)"
proof -
  have send: "runs G n S (\<lambda>a. app_ok G {} n S q a \<and> p < ap_next a) (bindM (payload_of p) (sendMessage E)) (\<lambda>_. app_ok G {} n S q)"
    by (rule runs_bindM [OF runs_payload], blast, rule runs_weaken [OF runs_sendMessage_q]) auto
  have retry: "runs G n S (\<lambda>a. app_ok G {} n S q a \<and> p < ap_next a) (retryDownstreamWithExponentialBackoff E p) (\<lambda>_. app_ok G {} n S q)"
    by (rule runs_weaken [OF runs_retryDown [OF assms(1)]]) auto
  show ?thesis
    unfolding resend_downstream_def
    by (rule runs_bindM [OF runs_gets], assumption, rule runs_if, simp add: runs_ret,
        rule runs_bindM [OF runs_canResend_fcm [where q = q, OF kp]], rule runs_pure, rule runs_if, rule send, rule runs_if, rule retry)
      (auto intro: runs_ret)
qed

lemma runs_resendDown:
  assumes "draws_in_range E"
  shows "runs G n S (app_ok G {} n S q) (resendAllPendingDownstreamMessages E) (\<lambda>_. app_ok G {} n S q)"
  unfolding resendAllPendingDownstreamMessages_def
  by (rule runs_for_queue [where sid = "''fcm''"]) (use runs_resend_downstream [OF assms] in \<open>auto simp: mgr_of_def\<close>)

lemma runs_resend_upstream:
  assumes "draws_in_range E" and inS: "sid \<in> S" and ne: "sid \<noteq> ''fcm''" and kp: "(k, p) \<in> set (q sid)"
  shows "runs G n S (app_ok G {} n S q) (resend_upstream E sid p) (\<lambda>_. app_ok G {} n S q)"
proof -
  have sid: "sid \<in> insert ''fcm'' S" using inS by simp
  have m: "bs_msgManager (the_session sid a) = mgr_of sid a" for a using ne by (simp add: mgr_of_def)
  let ?C = "\<lambda>a. p < ap_next a \<and> msg_targetSessionId (ap_heap a p) = sid"
  let ?N = "\<lambda>a. unat (mm_pendingAckCount (mgr_of sid a)) < 100"
  have mgr: "mgr_of sid (a \<lparr> ap_dbConn := d \<rparr>) = mgr_of sid a" for a d
    by (simp add: mgr_of_def the_session_def)
  have 1: "runs G n S (\<lambda>a. app_ok G {} n S q a \<and> ?C a \<and> ?N a) (update_msg E p PENDING_ACK) (\<lambda>_ a. app_ok G {} n S q a \<and> ?C a \<and> ?N a)"
    by (rule runs_update) (simp_all add: mgr queued_open [where q = q, OF _ sid kp])
  have 2: "runs G n S (\<lambda>a. app_ok G {} n S q a \<and> ?C a \<and> ?N a) (on_bal_mgr sid (modify incrementPendingAckCount)) (\<lambda>_ . app_ok G {} n S q)"
    unfolding on_bal_mgr_eq [OF ne] by (rule runs_weaken [OF runs_increment [OF sid]]) auto
  have 3: "runs G n S (app_ok G {} n S q) (forwardMsg E sid p) (\<lambda>_. app_ok G {} n S q)"
    by (rule runs_weaken [OF runs_forwardMsg [of G n S q p]]) (use app_ok_mgr(4) [of G "{}" n S q _ sid k p] sid kp in auto)
  have 4: "runs G n S (\<lambda>a. app_ok G {} n S q a \<and> ?C a) (retryUpstreamWithExponentialBackoff E p) (\<lambda>_. app_ok G {} n S q)"
    by (rule runs_retryUp [OF assms(1) inS])
  have zero: "runs G n S (\<lambda>a. app_ok G {} n S q a \<and> ?C a \<and> ?N a) (thenM (whenM b
       (thenM (update_msg E p PENDING_ACK) (on_bal_mgr sid (modify incrementPendingAckCount)))) (forwardMsg E sid p))
       (\<lambda>_. app_ok G {} n S q)" for b
    by (rule runs_thenM [OF runs_whenM 3], rule runs_thenM [OF 1 2]) auto
  show ?thesis
    unfolding resend_upstream_def m
    by (rule runs_bindM [OF runs_gets], assumption, rule runs_if, simp add: runs_ret,
        rule runs_bindM [OF runs_canResend [where q = q, OF sid kp]], rule runs_pure, rule runs_if,
        rule runs_weaken [OF zero], simp, simp, simp, rule runs_if, rule runs_weaken [OF 4], simp, simp, simp)
      (auto intro: runs_ret)
qed

lemma runs_resendUp:
  assumes "draws_in_range E"
  shows "runs G n S (app_ok G {} n S q) (resendPendingUpstreamMessages E sid) (\<lambda>_. app_ok G {} n S q)"
proof (cases "sid \<in> S \<and> sid \<noteq> ''fcm''")
  case False
  have "mm_messages (bs_msgManager (the_session sid a)) = []" if "app_ok G {} n S q a" for a
  proof -
    have "sid \<notin> S" using False core_okD(5) [OF app_ok_core [OF that]] by blast
    then have "om_find (ap_balSessionMap a) sid = None"
      using core_okD(4) [OF app_ok_core [OF that]] by (auto simp: om_find_None_iff)
    then show ?thesis
      by (simp add: the_session_def BALSession_def MessageManager_default_def MessageManager_def)
  qed
  then show ?thesis
    unfolding resendPendingUpstreamMessages_def for_queue_def
    by (auto simp: runs_def hoare_def bindM_def gets_def ret_def)
next
  case True
  then have sid: "sid \<in> insert ''fcm'' S" by simp
  have m: "bs_msgManager (the_session sid a) = mgr_of sid a" for a using True by (simp add: mgr_of_def)
  show ?thesis
    unfolding resendPendingUpstreamMessages_def
    by (rule runs_for_queue [OF sid m]) (use True runs_resend_upstream [OF assms] in blast)
qed

section \<open>The slots for FCM\<close>

lemma app_ok_raise: "app_ok G X n S q a \<Longrightarrow> p < ap_next a \<Longrightarrow> app_ok G X (max n (Suc p)) S q a"
  by (auto simp: app_ok_def core_ok_def)

lemma app_ok_lt: "app_ok G X m S q a \<Longrightarrow> p < m \<Longrightarrow> p < ap_next a"
  by (drule app_ok_core, drule core_okD(7)) simp

lemma runs_raise_next:
  assumes "runs G (max n (Suc p)) S (\<lambda>a. app_ok G X (max n (Suc p)) S q a \<and> P a) m (\<lambda>_. Inv G (max n (Suc p)) S)"
  shows "runs G n S (\<lambda>a. app_ok G X n S q a \<and> p < ap_next a \<and> P a) m (\<lambda>_. Inv G n S)"
  by (rule runs_weaken [OF assms]) (auto intro: app_ok_raise Inv_mono)

lemma find_fcm_cases:
  assumes "app_ok G {} n S q a"
  shows "findMessageWithFcmMsgId (ap_fcmMsgManager a) mid = Inr p \<Longrightarrow>
      p < ap_next a \<and> (\<exists>k. om_find (q ''fcm'') k = Some p \<and> om_find (mm_sequenceIdMap (ap_fcmMsgManager a)) mid = Some k)"
    and "findMessageWithFcmMsgId (ap_fcmMsgManager a) mid = Inl e \<Longrightarrow> benign e"
proof -
  have m: "mm_messages (ap_fcmMsgManager a) = q ''fcm''" using app_ok_mgr(3) [OF assms, of "''fcm''"] by (simp add: mgr_of_def)
  show "benign e" if "findMessageWithFcmMsgId (ap_fcmMsgManager a) mid = Inl e"
    using that by (auto simp: findMessageWithFcmMsgId_def findSequenceId_def findMessage_def split: option.splits)
  assume f: "findMessageWithFcmMsgId (ap_fcmMsgManager a) mid = Inr p"
  then obtain k where "om_find (q ''fcm'') k = Some p" "om_find (mm_sequenceIdMap (ap_fcmMsgManager a)) mid = Some k"
    by (auto simp: findMessageWithFcmMsgId_def findSequenceId_def findMessage_def m split: option.splits)
  moreover from this app_ok_mgr(4) [OF assms, of "''fcm''" k p] om_find_in_set have "p < ap_next a" by fastforce
  ultimately show "p < ap_next a \<and> (\<exists>k. om_find (q ''fcm'') k = Some p \<and> om_find (mm_sequenceIdMap (ap_fcmMsgManager a)) mid = Some k)"
    by blast
qed

text \<open>The message found under an FCM id has that id.\<close>

lemma named_by_fcm:
  assumes "app_ok G {} n S q a" and "om_find (mm_sequenceIdMap (ap_fcmMsgManager a)) mid = Some k" and "om_find (q ''fcm'') k = Some p"
  shows "msg_fcmMessageId (ap_heap a p) = mid"
  using mm_okD(7) [OF app_ok_mgr(2) [OF assms(1) insertI1], of mid k] app_ok_mgr(3) [OF assms(1) insertI1] assms(2,3)
  by (simp add: mgr_of_def)

text \<open>A message leaves the queue of FCM: its row gets a final state, then it is removed.\<close>

lemma runs_settle_fcm:
  assumes q: "om_find (q ''fcm'') k = Some p" and st: "st \<in> {DELIVERED, DELIVERY_FAILED}" and Y: "may_settle G st ''fcm'' k mid"
    and rest: "\<And>q'. runs G n S (app_ok G {} n S q') rest (\<lambda>_. Inv G n S)"
  shows "runs G n S (\<lambda>a. app_ok G {} n S q a \<and> om_find (mm_sequenceIdMap (ap_fcmMsgManager a)) mid = Some k)
    (thenM (update_msg E p st) (bindM (gets ap_heap) (\<lambda>h. thenM (on_fcm_mgr (removeMessageWithFcmMsgId h mid)) rest)))
    (\<lambda>_. Inv G n S)"
proof -
  let ?M = "\<lambda>a. om_find (mm_sequenceIdMap (ap_fcmMsgManager a)) mid = Some k"
  have may: "may_settle G st ''fcm'' k (msg_fcmMessageId (ap_heap a p))" if "app_ok G {} n S q a" "?M a" for a
    using named_by_fcm [OF that q] Y by simp
  have upd: "runs G n S (\<lambda>a. app_ok G {} n S q a \<and> ?M a) (update_msg E p st) (\<lambda>_ a. app_ok G {(''fcm'', k)} n S q a \<and> ?M a)"
    using runs_update_final [of "''fcm''" S st ?M G n q k p E] st may om_find_in_set [OF q] by simp
  have rem: "runs G n S (\<lambda>a. (app_ok G {(''fcm'', k)} n S q a \<and> ?M a) \<and> ap_heap a = h) (on_fcm_mgr (removeMessageWithFcmMsgId h mid))
      (\<lambda>_. app_ok G {} n S (q(''fcm'' := om_erase k (q ''fcm''))))" for h
  proof (rule runsI_weak)
    fix a r a'
    assume pre: "(app_ok G {(''fcm'', k)} n S q a \<and> ?M a) \<and> ap_heap a = h"
      and run: "on_fcm_mgr (removeMessageWithFcmMsgId h mid) a = (r, a')"
    have "removeMessageWithFcmMsgId h mid (ap_fcmMsgManager a) = removeMessage h k (ap_fcmMsgManager a)"
      using pre by (simp add: removeMessageWithFcmMsgId_def bindM_def getsE_def findSequenceId_def)
    with run have run': "zoom (mgr_of ''fcm'') (set_mgr ''fcm'') (removeMessage h k) a = (r, a')"
      by (simp add: on_fcm_mgr_eq zoom_def mgr_of_def)
    have f: "''fcm'' \<in> insert ''fcm'' S" by simp
    from pre have pre': "app_ok G {(''fcm'', k)} n S q a \<and> ap_heap a = h" by blast
    note h = runs_remove [of "''fcm''" S q k p G n h, OF f q, unfolded runs_def]
    show "case r of Inr u \<Rightarrow> app_ok G {} n S (q(''fcm'' := om_erase k (q ''fcm''))) a' | Inl f \<Rightarrow> benign f \<and> (\<forall>e. f = Throw e \<longrightarrow> Inv G n S a')"
      using hoareD_ok [OF h pre'] hoareD_fail [OF h pre'] run' by (cases r) auto
  qed
  show ?thesis
    by (rule runs_thenM [OF upd], rule runs_bindM [OF runs_gets [where Q = "\<lambda>h a. (app_ok G {(''fcm'', k)} n S q a \<and> ?M a) \<and> ap_heap a = h"]],
        simp, rule runs_thenM [OF rem rest])
qed

lemma pres_upstream: "pres G n S (handleFcmNewUpstreamMessage E i j)"
proof -
  let ?o = "doc_object j"
  let ?sid = "j_string ?o F_CATEGORY" and ?mid = "j_string ?o F_MESSAGE_ID"
  let ?f = "\<lambda>s p. Message_new E p s UPSTREAM ?mid [] ''fcm'' ?sid (Some (gimmm_msg s ''UPSTREAM'' ?sid ?o)) NEW"
  have g: "runs G (Suc p) S (\<lambda>a. app_ok G {} (Suc p) S q a \<and> ready S q p a \<and> ap_heap a p = ?f s p)
      (thenM (sendFcmAckMessage E j) (forwardMsgToBalsession E ?sid p)) (\<lambda>_. Inv G (Suc p) S)" for s p q
  proof (rule runs_thenM)
    show "runs G (Suc p) S (\<lambda>a. app_ok G {} (Suc p) S q a \<and> ready S q p a \<and> ap_heap a p = ?f s p) (sendFcmAckMessage E j)
        (\<lambda>_ a. app_ok G {} (Suc p) S q a \<and> ready S q p a \<and> ap_heap a p = ?f s p)"
      unfolding sendFcmAckMessage_def Let_def by (rule runs_sendMessage) (simp add: off_fcm_def ready_def)
    show "runs G (Suc p) S (\<lambda>a. app_ok G {} (Suc p) S q a \<and> ready S q p a \<and> ap_heap a p = ?f s p)
        (forwardMsgToBalsession E ?sid p) (\<lambda>_. Inv G (Suc p) S)"
      by (rule runs_weaken [OF runs_forwardToBal [of G "Suc p" S q p ?sid]]) (auto simp: Message_new_def dest: ready_next)
  qed
  have "runs G n S (app_ok G {} n S q) (bindM (on_db getNextSequenceId) (\<lambda>s. bindM (new_msg (?f s)) (\<lambda>p.
      thenM (print_msg E p) (thenM (save_msg E p) (thenM (sendFcmAckMessage E j) (forwardMsgToBalsession E ?sid p)))))) (\<lambda>_. Inv G n S)" for q
    by (rule runs_bindM [OF runs_next_id], rule runs_new_saved(2)) (simp_all add: g, simp_all add: Message_new_def)
  then show ?thesis
    unfolding handleFcmNewUpstreamMessage_def Let_def by (intro runs_tryM runs_Inv)
qed

lemma pres_receipt:
  "pres G n S (handleFcmReceiptMessage E i j)"
proof -
  let ?o = "doc_object j"
  let ?sid = "j_string ?o F_CATEGORY" and ?mid = "j_string ?o F_MESSAGE_ID"
  let ?f = "\<lambda>s p. (Message_default E p)
                 \<lparr> msg_sequenceId := s, msg_type := DOWNSTREAM_RECEIPT, msg_fcmMessageId := ?mid,
                   msg_sourceSessionId := ''fcm'', msg_targetSessionId := ?sid,
                   msg_payload := Some (gimmm_msg s ''DOWNSTREAM_RECEIPT'' ?sid ?o), msg_state := NEW \<rparr>"
  have g: "runs G (Suc p) S (\<lambda>a. app_ok G {} (Suc p) S q a \<and> ready S q p a \<and> ap_heap a p = ?f s p)
        (forwardMsgToBalsession E ?sid p) (\<lambda>_. Inv G (Suc p) S)" for s p q
    by (rule runs_weaken [OF runs_forwardToBal [of G "Suc p" S q p ?sid]]) (auto dest: ready_next)
  have "runs G n S (app_ok G {} n S q) (bindM (on_db getNextSequenceId) (\<lambda>s. bindM (new_msg (?f s)) (\<lambda>p.
      thenM (print_msg E p) (thenM (save_msg E p) (forwardMsgToBalsession E ?sid p))))) (\<lambda>_. Inv G n S)" for q
    by (rule runs_bindM [OF runs_next_id], rule runs_new_saved(2)) (simp_all add: g msg_good_default)
  then show ?thesis
    unfolding handleFcmReceiptMessage_def Let_def by (intro runs_tryM runs_Inv)
qed

text \<open>The message an acknowledgement names, and what follows under the knowledge that it is queued.\<close>

lemma runs_find_fcm:
  assumes "\<And>m p k. om_find (q ''fcm'') k = Some p \<Longrightarrow> p < m \<Longrightarrow> n \<le> m \<Longrightarrow>
      runs G m S (\<lambda>a. app_ok G {} m S q a \<and> om_find (mm_sequenceIdMap (ap_fcmMsgManager a)) mid = Some k) (f p) (\<lambda>_. Inv G m S)"
  shows "runs G n S (app_ok G {} n S q) (bindM (getsE (\<lambda>a. findMessageWithFcmMsgId (ap_fcmMsgManager a) mid)) f) (\<lambda>_. Inv G n S)"
proof (rule runs_bindM)
  let ?P = "\<lambda>p k a. app_ok G {} n S q a \<and> p < ap_next a \<and> om_find (mm_sequenceIdMap (ap_fcmMsgManager a)) mid = Some k"
  show "runs G n S (app_ok G {} n S q) (getsE (\<lambda>a. findMessageWithFcmMsgId (ap_fcmMsgManager a) mid))
      (\<lambda>p a. \<exists>k. om_find (q ''fcm'') k = Some p \<and> ?P p k a)"
  proof (rule runs_getsE)
    fix a p
    assume "app_ok G {} n S q a" "findMessageWithFcmMsgId (ap_fcmMsgManager a) mid = Inr p"
    with find_fcm_cases(1) [OF this] show "\<exists>k. om_find (q ''fcm'') k = Some p \<and> ?P p k a" by blast
  next
    fix a e
    assume "app_ok G {} n S q a" "findMessageWithFcmMsgId (ap_fcmMsgManager a) mid = Inl e"
    with find_fcm_cases(2) [OF this] show "benign e \<and> Inv G n S a" by (blast intro: app_ok_Inv)
  qed
  show "runs G n S (\<lambda>a. \<exists>k. om_find (q ''fcm'') k = Some p \<and> ?P p k a) (f p) (\<lambda>_. Inv G n S)" for p
    by (rule runs_ex, rule runs_pure, rule runs_raise_next, rule assms) simp_all
qed

lemma pres_ack:
  assumes "\<And>k. may_settle G DELIVERED ''fcm'' k (j_string (doc_object j) F_MESSAGE_ID)"
  shows "pres G n S (handleFcmAckMessage E i j)"
proof -
  let ?o = "doc_object j"
  let ?mid = "j_string ?o F_MESSAGE_ID"
  let ?f = "\<lambda>sid s p. Message_new E p s DOWNSTREAM_ACK ?mid [] ''fcm'' sid (Some (gimmm_msg s ''DOWNSTREAM_ACK'' sid ?o)) NEW"
  let ?tail = "\<lambda>sid. bindM (on_db getNextSequenceId) (\<lambda>s. bindM (new_msg (?f sid s)) (\<lambda>q. thenM (save_msg E q) (forwardMsgToBalsession E sid q)))"
  have g: "runs G (Suc p) S (\<lambda>a. app_ok G {} (Suc p) S q a \<and> ready S q p a \<and> ap_heap a p = ?f sid s p)
        (forwardMsgToBalsession E sid p) (\<lambda>_. Inv G (Suc p) S)" for s p q sid
    by (rule runs_weaken [OF runs_forwardToBal [of G "Suc p" S q p sid]]) (auto simp: Message_new_def dest: ready_next)
  have tail: "runs G m S (app_ok G {} m S q) (?tail sid) (\<lambda>_. Inv G m S)" for m q sid
    by (rule runs_bindM [OF runs_next_id], rule runs_new_saved(1)) (simp_all add: g, simp_all add: Message_new_def)
  have rest: "runs G m S (app_ok G {} m S q) (thenM (sendNextPendingDownstreamMessage E) (?tail sid)) (\<lambda>_. Inv G m S)" for m q sid
    by (rule runs_thenM [OF runs_sendNextDown tail])
  have "runs G n S (app_ok G {} n S q) (bindM (getsE (\<lambda>a. findMessageWithFcmMsgId (ap_fcmMsgManager a) ?mid)) (\<lambda>p.
        bindM (gets (\<lambda>a. msg_sourceSessionId (ap_heap a p))) (\<lambda>sessid.
          thenM (update_msg E p DELIVERED) (bindM (gets ap_heap) (\<lambda>h.
          thenM (on_fcm_mgr (removeMessageWithFcmMsgId h ?mid))
                (thenM (sendNextPendingDownstreamMessage E) (?tail sessid))))))) (\<lambda>_. Inv G n S)" for q
    by (rule runs_find_fcm, rule runs_bindM [OF runs_gets], assumption, rule runs_settle_fcm, assumption, simp, rule assms, rule rest)
  then show ?thesis
    unfolding handleFcmAckMessage_def Let_def by (intro runs_tryM runs_Inv)
qed

lemma pres_nack:
  assumes "draws_in_range E"
    and "\<And>k. retriable_nack (j_string (doc_object j) F_ERROR) \<or> may_settle G DELIVERY_FAILED ''fcm'' k (j_string (doc_object j) F_MESSAGE_ID)"
  shows "pres G n S (handleFcmNackMessage E i j)"
proof -
  let ?mid = "j_string (doc_object j) F_MESSAGE_ID" and ?b = "retriable_nack (j_string (doc_object j) F_ERROR)"
  have rest: "runs G m S (app_ok G {} m S q) (thenM (sendNextPendingDownstreamMessage E) (notifyDownstreamUploadFailure E p)) (\<lambda>_. Inv G m S)"
    if "p < m" for m q p
    by (rule runs_thenM [OF runs_sendNextDown], rule runs_weaken [OF runs_notify [of G m S q p]])
      (auto intro: app_ok_lt that)
  have retry: "runs G m S (\<lambda>a. app_ok G {} m S q a \<and> P a) (retryDownstreamWithExponentialBackoff E p) (\<lambda>_. Inv G m S)"
    if "p < m" for m q p P
    by (rule runs_weaken [OF runs_retryDown [OF assms(1), of G m S q p]])
      (auto intro: app_ok_lt app_ok_Inv that)
  have "runs G n S (app_ok G {} n S q) (bindM (getsE (\<lambda>a. findMessageWithFcmMsgId (ap_fcmMsgManager a) ?mid)) (\<lambda>p.
        if ?b then retryDownstreamWithExponentialBackoff E p
        else thenM (update_msg E p DELIVERY_FAILED) (bindM (gets ap_heap) (\<lambda>h.
          thenM (on_fcm_mgr (removeMessageWithFcmMsgId h ?mid))
                (thenM (sendNextPendingDownstreamMessage E) (notifyDownstreamUploadFailure E p)))))) (\<lambda>_. Inv G n S)" for q
    by (rule runs_find_fcm, rule runs_if, rule retry, assumption, rule runs_settle_fcm, assumption, simp, use assms(2) in blast, rule rest)
  then show ?thesis
    unfolding handleFcmNackMessage_def Let_def by (intro runs_tryM runs_Inv)
qed

lemma pres_say: "pres G n S (say t)"
  unfolding say_def by (rule runs_modify) (auto simp: Inv_def app_ok_def)

section \<open>Events at an FCM connection\<close>

lemma connectToFcm_run:
  "connectToFcm i k h p c =
     (Inr (), c \<lparr> fc_serverId := i, fc_serverKey := k, fc_hostAddress := h, fc_portNo := p,
        fc_acts := fc_acts c @ [Emit (connectionStarted (fc_id c)), ConnectToHostEncrypted h p] \<rparr>)"
  by (simp add: connectToFcm_def connectToFirebase_def emit_def act_def monad_defs)

text \<open>Opening a connection while none is attached attaches it, and it is the newest.\<close>

lemma runs_open:
  "runs G n S (\<lambda>a. core_ok G X n S q a \<and> om_wf (ap_fcmConnectionsMap a) \<and>
      (\<forall>i\<in>fst ` set (ap_fcmConnectionsMap a). i \<le> ap_fcmConnCount a) \<and> ap_sendSlots a = [])
    (openFcmHandle E) (\<lambda>_. app_ok G X n S q)"
proof (rule runsI_weak)
  fix a r a'
  assume pre: "core_ok G X n S q a \<and> om_wf (ap_fcmConnectionsMap a) \<and>
      (\<forall>i\<in>fst ` set (ap_fcmConnectionsMap a). i \<le> ap_fcmConnCount a) \<and> ap_sendSlots a = []"
    and run: "openFcmHandle E a = (r, a')"
  let ?i = "ap_fcmConnCount a + 1"
  let ?c = "FcmConnection (std_seed E (nat ?i)) 0 ?i"
  let ?m = "om_emplace ?i ?c (ap_fcmConnectionsMap a)"
  show "case r of Inr u \<Rightarrow> app_ok G X n S q a' | Inl f \<Rightarrow> benign f \<and> (\<forall>e. f = Throw e \<longrightarrow> Inv G n S a')"
  proof (cases "ap_fcmConnCount a = int32_max")
    case True
    with run have "r = Inl (Undefined SignedOverflow)"
      by (auto simp: openFcmHandle_def createFcmHandle_def getNextFcmConnectionId_def bindM_def getsE_def inc32_def)
    then show ?thesis by simp
  next
    case False
    have new: "\<forall>i\<in>fst ` set (ap_fcmConnectionsMap a). i < ?i" using pre by fastforce
    then have "om_find (ap_fcmConnectionsMap a) ?i = None" by (auto simp: om_find_None_iff)
    then have find: "om_find ?m ?i = Some ?c" using pre by (simp add: om_find_emplace)
    have m: "?m = ap_fcmConnectionsMap a @ [(?i, ?c)]" by (rule om_emplace_last) (use new in auto)
    have wf: "om_wf ?m" using pre by (simp add: om_wf_emplace)
    obtain c' l t where a': "r = Inr ()" "a' = a \<lparr> ap_fcmConnCount := ?i, ap_sendSlots := [?i],
        ap_fcmConnectionsMap := om_store ?i c' ?m, ap_log := l, ap_out := t \<rparr>"
      using run False pre find
      by (auto simp: openFcmHandle_def createFcmHandle_def getNextFcmConnectionId_def setupFcmHandle_def inc32_def
          fcm_call_def fcm_run_def connectToFcm_run log_act_def say_def handleFcmConnectionStarted_def monad_defs)
    have keys: "map fst (om_store ?i c' ?m) = map fst ?m" by (rule om_store_present [OF wf find])
    then have last: "fst (last (om_store ?i c' ?m)) = ?i"
      by (metis Nil_is_map_conv fst_conv last_map last_snoc m snoc_eq_iff_butlast)
    moreover have "om_store ?i c' ?m \<noteq> []" using keys m by (metis Nil_is_map_conv snoc_eq_iff_butlast)
    moreover have "\<forall>i\<in>fst ` set (om_store ?i c' ?m). i \<le> ?i"
    proof -
      have "fst ` set (om_store ?i c' ?m) = fst ` set ?m" using keys by (metis list.set_map)
      then show ?thesis using new m by auto
    qed
    moreover have "core_ok G X n S q a'" unfolding a'(2) using pre by simp
    ultimately have "app_ok G X n S q a'"
      using wf a'(2) by (simp add: app_ok_def slots_ok_def om_wf_store)
    with a'(1) show ?thesis by simp
  qed
qed

lemma pres_draining: "pres G n S (handleFcmConnectionDrainingStarted E i)"
  unfolding handleFcmConnectionDrainingStarted_def
proof (rule runs_Inv, rule runs_bindM)
  fix q
  show "runs G n S (app_ok G {} n S q) (getsE (\<lambda>a. if ap_fcmConnectionsMap a = [] then Inl (Undefined EndDeref)
      else Inr (fst (last (ap_fcmConnectionsMap a))))) (\<lambda>x a. app_ok G {} n S q a \<and> x = fst (last (ap_fcmConnectionsMap a)))"
    by (rule runs_getsE) (auto simp: app_ok_def)
  have det: "runs G n S (\<lambda>a. app_ok G {} n S q a \<and> x = fst (last (ap_fcmConnectionsMap a)))
      (modify (\<lambda>a. a \<lparr> ap_sendSlots := filter (\<lambda>k. k \<noteq> x) (ap_sendSlots a) \<rparr>))
      (\<lambda>_ a. core_ok G {} n S q a \<and> om_wf (ap_fcmConnectionsMap a) \<and>
        (\<forall>i\<in>fst ` set (ap_fcmConnectionsMap a). i \<le> ap_fcmConnCount a) \<and> ap_sendSlots a = [])" for x
    by (rule runs_modify) (simp add: app_ok_def slots_ok_def)
  show "runs G n S (\<lambda>a. app_ok G {} n S q a \<and> x = fst (last (ap_fcmConnectionsMap a)))
      (thenM (modify (\<lambda>a. a \<lparr> ap_sendSlots := filter (\<lambda>k. k \<noteq> x) (ap_sendSlots a) \<rparr>)) (openFcmHandle E)) (\<lambda>_. Inv G n S)" for x
    by (rule runs_thenM [OF det], rule runs_weaken [OF runs_open]) (auto intro: app_ok_Inv)
qed

text \<open>The settlements a signal of a connection answers: those of messages for FCM with the id it names.\<close>

definition fcm_entries :: "json \<Rightarrow> entry set" where
  "fcm_entries j = {e. en_target e = ''fcm'' \<and> names_fcm (j_string (doc_object j) F_MESSAGE_ID) (en_fcm_id e)}"

fun grants :: "fcm_signal \<Rightarrow> answers" where
  "grants (newAckMessage i j) = UNIV \<times> fcm_entries j \<times> {Delivered}"
| "grants (newNackMessage i j) = (if retriable_nack (j_string (doc_object j) F_ERROR) then {} else UNIV \<times> fcm_entries j \<times> {Failed})"
| "grants _ = {}"

lemma phase_of_final [simp]: "phase_of 3 = Delivered" "phase_of 4 = Failed"
  by (simp_all add: phase_of_def)

lemma pres_slot:
  assumes "draws_in_range E" and "grants s \<subseteq> answers_of G"
  shows "pres G n S (fcm_slot E what s)"
proof -
  have resend: "pres G n S (handleFcmSessionEstablished E i)" for i
    unfolding handleFcmSessionEstablished_def
    by (rule runs_Inv, rule runs_weaken [OF runs_resendDown [OF assms(1)]]) (auto intro: app_ok_Inv)
  note says = handleFcmConnectionStarted_def handleFcmConnectionEstablished_def handleFcmConnectionShutdownStarted_def
    handleFcmConnectionShutdownCompleted_def handleFcmConnectionLost_def handleFcmXmppHandshakeStarted_def
    handleFcmStreamClosed_def handleFcmHeartbeatRecieved_def handleFcmConnectionError_def
  show ?thesis
    using assms(2)
    by (cases s) (auto simp: says subset_iff may_settle_def fcm_entries_def split: if_splits
        intro!: pres_say resend pres_draining pres_upstream pres_ack pres_nack [OF assms(1)] pres_receipt runs_ret)
qed

lemma pres_log_act: "pres G n S (log_act i x)"
proof -
  have log: "pres G n S (modify (\<lambda>a. a \<lparr> ap_log := ap_log a @ [(i, x)] \<rparr>))"
    by (rule runs_modify) (auto simp: Inv_def app_ok_def)
  have t: "pres G n S (start_timer d (TFcm i t))" for d t
  proof (rule runs_Inv)
    fix q
    have "runs G n S (app_ok G {} n S q) (start_timer d (TFcm i t)) (\<lambda>_ a. app_ok G {} n S q a \<and> True)"
      by (rule runs_start_timer) auto
    then show "runs G n S (app_ok G {} n S q) (start_timer d (TFcm i t)) (\<lambda>_. Inv G n S)"
      by (rule runs_weaken) (auto intro: app_ok_Inv)
  qed
  show ?thesis
    unfolding log_act_def by (rule runs_thenM [OF log]) (cases x; simp add: t runs_ret)
qed

text \<open>The signals of a call on connection \<open>i\<close> answer only what \<open>G\<close> has.\<close>

definition fcm_signals :: "int \<Rightarrow> (fcmconn, unit) M \<Rightarrow> app \<Rightarrow> fcm_signal set" where
  "fcm_signals i m a =
     (case om_find (ap_fcmConnectionsMap a) i of
        None \<Rightarrow> {}
      | Some c \<Rightarrow> {s. Emit s \<in> set (fc_acts (snd (m (c \<lparr> fc_acts := [] \<rparr>))))})"

text \<open>The call itself; what it fails with is in the result.\<close>

lemma runs_fcm_run:
  assumes "\<And>c f c'. m c = (Inl f, c') \<Longrightarrow> B f"
  shows "runs G n S (\<lambda>a. Inv G n S a \<and> (\<forall>s \<in> fcm_signals i m a. grants s \<subseteq> answers_of G)) (fcm_run i m)
    (\<lambda>x a. ((\<forall>f. fst x = Inl f \<longrightarrow> B f) \<and> (\<forall>s. Emit s \<in> set (snd x) \<longrightarrow> grants s \<subseteq> answers_of G)) \<and> Inv G n S a)"
    (is "runs G n S ?P _ _")
proof (rule runsI)
  fix a r a'
  assume pre: "?P a" and run: "fcm_run i m a = (r, a')"
  then obtain q where ok: "app_ok G {} n S q a" by (auto simp: Inv_def)
  show "case r of Inr x \<Rightarrow> ((\<forall>f. fst x = Inl f \<longrightarrow> B f) \<and> (\<forall>s. Emit s \<in> set (snd x) \<longrightarrow> grants s \<subseteq> answers_of G)) \<and> Inv G n S a'
      | Inl f \<Rightarrow> benign f \<and> Inv G n S a'"
  proof (cases "om_find (ap_fcmConnectionsMap a) i")
    case None
    with run ok show ?thesis by (auto simp: fcm_run_def intro: app_ok_Inv)
  next
    case (Some c)
    obtain z c' where zc: "m (c \<lparr> fc_acts := [] \<rparr>) = (z, c')" by fastforce
    have a': "a' = a \<lparr> ap_fcmConnectionsMap := om_store i (c' \<lparr> fc_acts := [] \<rparr>) (ap_fcmConnectionsMap a) \<rparr>"
      using run Some zc by (simp add: fcm_run_def)
    have "app_ok G {} n S q a'"
      unfolding a' using app_ok_conn [OF ok Some, where c' = "c' \<lparr> fc_acts := [] \<rparr>" and l = "[]"] by (simp add: app_ok_def slots_ok_def)
    moreover have "\<forall>s. Emit s \<in> set (fc_acts c') \<longrightarrow> grants s \<subseteq> answers_of G"
      using pre Some zc by (simp add: fcm_signals_def)
    ultimately show ?thesis
      using run Some zc assms by (auto simp: fcm_run_def intro: app_ok_Inv)
  qed
qed

lemma pres_deliver:
  assumes "draws_in_range E" and "\<And>s. x = Emit s \<Longrightarrow> grants s \<subseteq> answers_of G"
  shows "pres G n S (deliver E what i x)"
  unfolding deliver_def
  by (rule runs_thenM [OF pres_log_act]) (cases x; simp add: pres_slot [OF assms(1) assms(2)] runs_ret)

lemma runs_event_at:
  assumes "draws_in_range E" and "\<And>c f c'. m c = (Inl f, c') \<Longrightarrow> benign f"
  shows "runs G n S (\<lambda>a. Inv G n S a \<and> (\<forall>s \<in> fcm_signals i m a. grants s \<subseteq> answers_of G)) (fcm_event_at E what i m) (\<lambda>_. Inv G n S)"
proof -
  have fin: "runs G n S (Inv G n S) (liftM z) (\<lambda>_. Inv G n S)" if "\<forall>f. z = Inl f \<longrightarrow> benign f" for z :: "fault + unit"
    using that by (auto simp: runs_def hoare_def liftM_def split: sum.splits)
  show ?thesis
    unfolding fcm_event_at_def
    by (rule runs_bindM [OF runs_fcm_run [where B = benign, OF assms(2)]], assumption, rule runs_pure)
      (auto intro!: runs_thenM [OF runs_forM fin] pres_deliver [OF assms(1)])
qed

end
