(* ===== verification/App_Events.thy ===== *)
theory App_Events
  imports App_Slots
begin

text \<open>
  The slots for the business applications, the timers, the read loop of a business socket and the
  dispatch of the events keep the invariant of \<open>App_Inv\<close>; \<open>pres_app_handle\<close> is the sum of it.
  What the proofs assume of Qt, of the random engine and of the engine is \<open>platform_ok\<close>.
\<close>

section \<open>Sessions\<close>

text \<open>A change of a session that leaves its manager and its id.\<close>

lemma runs_put_session:
  assumes "sid \<in> S"
    and "\<And>s. bs_msgManager (f s) = bs_msgManager s \<and> bs_sessionId (f s) = bs_sessionId s" and "\<And>s. bs_ok s \<Longrightarrow> bs_ok (f s)"
  shows "pres G n S (modify (\<lambda>a. put_session sid (f (the_session sid a)) a))"
proof (rule runs_Inv, rule runs_modify)
  fix q a
  assume ok: "app_ok G {} n S q a"
  note c = core_okD [OF app_ok_core [OF ok]]
  have m: "bs_msgManager (the_session sid a) = mgr_of sid a" using assms(1) c(5) by (auto simp: mgr_of_def)
  have "core_ok G {} n S (q(sid := mm_messages (bs_msgManager (f (the_session sid a))))) (put_session sid (f (the_session sid a)) a)"
    by (rule core_put_session [OF app_ok_core [OF ok] assms(1)])
      (use assms c(9,11,12) m in auto)
  then have "app_ok G {} n S (q(sid := mm_messages (bs_msgManager (f (the_session sid a))))) (put_session sid (f (the_session sid a)) a)"
    by (rule app_ok_by_core [OF ok]) (simp_all add: put_session_def)
  then show "Inv G n S (put_session sid (f (the_session sid a)) a)" by (rule app_ok_Inv)
qed

lemma pres_frame:
  assumes "\<And>a q. core_ok G {} n S q (f a) = core_ok G {} n S q a" and "\<And>a. slots_ok (f a) = slots_ok a"
    and "\<And>a. ap_fcmConnectionsMap (f a) = ap_fcmConnectionsMap a"
  shows "pres G n S (modify f)"
  by (rule runs_modify) (simp add: Inv_def app_ok_def assms)

lemma pres_timer:
  assumes "\<And>a. Inv G n S a \<Longrightarrow> timer_ok S (ap_heap a) (ap_next a) t"
  shows "pres G n S (start_timer d t)"
proof (rule runs_Inv)
  fix q
  have "runs G n S (app_ok G {} n S q) (start_timer d t) (\<lambda>_ a. app_ok G {} n S q a \<and> True)"
    by (rule runs_start_timer) (auto intro: assms app_ok_Inv)
  then show "runs G n S (app_ok G {} n S q) (start_timer d t) (\<lambda>_. Inv G n S)"
    by (rule runs_weaken) (auto intro: app_ok_Inv)
qed

lemma pres_thenM: "pres G n S m \<Longrightarrow> pres G n S m' \<Longrightarrow> pres G n S (thenM m m')"
  by (rule runs_thenM)

lemma pres_newConnection: "pres G n S (handleNewBALConnection d)"
  unfolding handleNewBALConnection_def
  by (rule pres_gets) (intro pres_thenM pres_frame pres_timer; simp)

text \<open>Dropping a reference to a connection object touches no queue and no session.\<close>

lemma release_frame:
  "core_ok G X n S q (if conn_owned s a then a else BALConn_destroy s a) = core_ok G X n S q a"
  "slots_ok (if conn_owned s a then a else BALConn_destroy s a) = slots_ok a"
  "ap_fcmConnectionsMap (if conn_owned s a then a else BALConn_destroy s a) = ap_fcmConnectionsMap a"
  "the_session sid (if conn_owned s a then a else BALConn_destroy s a) = the_session sid a"
  by (simp_all add: BALConn_destroy_def the_session_def)

lemma pres_release: "pres G n S (release_conn s)" "pres G n S (release_opt c)"
proof -
  show r: "pres G n S (release_conn s)" for s
    unfolding release_conn_def by (rule pres_frame) (rule release_frame)+
  show "pres G n S (release_opt c)" unfolding release_opt_def by (cases c) (simp_all add: r runs_ret)
qed

lemma runs_release_opt:
  "runs G n S (\<lambda>a. Inv G n S a \<and> P (the_session sid a)) (release_opt c) (\<lambda>_ a. Inv G n S a \<and> P (the_session sid a))"
proof (cases c)
  case (Some s)
  have "Inv G n S (if conn_owned s a then a else BALConn_destroy s a) = Inv G n S a" for a
    unfolding Inv_def app_ok_def release_frame ..
  then have "runs G n S (\<lambda>a. Inv G n S a \<and> P (the_session sid a)) (release_conn s) (\<lambda>_ a. Inv G n S a \<and> P (the_session sid a))"
    unfolding release_conn_def by (intro runs_modify) (simp only: release_frame)
  with Some show ?thesis by (simp add: release_opt_def)
qed (simp add: release_opt_def runs_ret)

lemma BALConn_destroy_frame [simp]:
  "ap_heap (BALConn_destroy s a) = ap_heap a" "ap_next (BALConn_destroy s a) = ap_next a"
  "ap_dbConn (BALConn_destroy s a) = ap_dbConn a" "ap_fcmMsgManager (BALConn_destroy s a) = ap_fcmMsgManager a"
  "ap_balSessionMap (BALConn_destroy s a) = ap_balSessionMap a" "ap_inbuf (BALConn_destroy s a) = ap_inbuf a"
  "ap_wire (BALConn_destroy s a) = ap_wire a" "ap_timers (BALConn_destroy s a) = ap_timers a"
  "ap_sessionProp (BALConn_destroy s a) = ap_sessionProp a" "ap_log (BALConn_destroy s a) = ap_log a"
  "ap_sendSlots (BALConn_destroy s a) = ap_sendSlots a" "ap_quit (BALConn_destroy s a) = ap_quit a"
  "ap_sigintPipe (BALConn_destroy s a) = ap_sigintPipe a" "ap_sigtermPipe (BALConn_destroy s a) = ap_sigtermPipe a"
  "ap_fcmConnectionsMap (BALConn_destroy s a) = ap_fcmConnectionsMap a" "the_session sid (BALConn_destroy s a) = the_session sid a"
  by (simp_all add: BALConn_destroy_def the_session_def)

lemma keeps_release [keeps_intros]:
  assumes "\<And>s a. P a \<Longrightarrow> P (BALConn_destroy s a)"
  shows "keeps P (release_conn s)" "keeps P (release_opt c)"
proof -
  show r: "keeps P (release_conn s)" for s
    unfolding release_conn_def by (rule keeps_modify) (simp add: assms)
  show "keeps P (release_opt c)" unfolding release_opt_def by (cases c) (simp_all add: r keeps_intros)
qed

lemma pres_authTimeout: "pres G n S (handleBalAuthenticationTimeout s)"
  unfolding handleBalAuthenticationTimeout_def by (rule pres_gets) (intro pres_thenM pres_release pres_frame; simp)

lemma Inv_dom: "Inv G n S a \<Longrightarrow> om_find (ap_balSessionMap a) sid = Some s \<Longrightarrow> sid \<in> S"
  using core_okD(4) [OF app_ok_core] om_find_key by (fastforce simp: Inv_def)

lemma runs_find_session:
  assumes "pres G n S m" and "\<And>x. sid \<in> S \<Longrightarrow> pres G n S (m' x)"
  shows "pres G n S (bindM (gets (\<lambda>a. om_find (ap_balSessionMap a) sid)) (\<lambda>it. case it of None \<Rightarrow> m | Some x \<Rightarrow> m' x))"
proof (rule runs_bindM [OF runs_gets [where Q = "\<lambda>x a. (x \<noteq> None \<longrightarrow> sid \<in> S) \<and> Inv G n S a"]])
  show "(om_find (ap_balSessionMap a) sid \<noteq> None \<longrightarrow> sid \<in> S) \<and> Inv G n S a" if "Inv G n S a" for a
    using that Inv_dom by blast
  show "runs G n S (\<lambda>a. (x \<noteq> None \<longrightarrow> sid \<in> S) \<and> Inv G n S a) (case x of None \<Rightarrow> m | Some z \<Rightarrow> m' z) (\<lambda>_. Inv G n S)" for x
    by (rule runs_pure) (use assms in \<open>cases x; simp\<close>)
qed

lemma pres_disconnected: "pres G n S (handleBALSocketDisconnected s)"
proof -
  have 1: "pres G n S (thenM (modify (\<lambda>a. a \<lparr> ap_conns := (ap_conns a)(conn := deleteTimerContext (ap_conns a conn)) \<rparr>))
      (thenM (modify (\<lambda>a. a \<lparr> ap_balSessionMapU := om_erase (ap_descriptor a s) (ap_balSessionMapU a) \<rparr>)) (release_conn conn)))" for conn
    by (intro pres_thenM pres_release pres_frame; simp)
  have 2: "pres G n S (bindM (gets (\<lambda>a. om_find (ap_balSessionMap a) sid)) (\<lambda>it1. case it1 of None \<Rightarrow> ret ()
      | Some _ \<Rightarrow> modify (\<lambda>a. put_session sid ((the_session sid a) \<lparr> bs_state := UNAUTHENTICATED \<rparr>) a)))" for sid
    by (rule runs_find_session [OF runs_ret runs_put_session]) (auto simp: bs_ok_def)
  show ?thesis
    unfolding handleBALSocketDisconnected_def
    by (rule pres_gets) (auto split: option.split intro: 1 pres_gets 2)
qed

lemma pres_write_found:
  "pres G n S (bindM (findBalSession sid) (\<lambda>sess. write_session E sess j))"
proof (rule runs_Inv)
  fix q
  show "runs G n S (app_ok G {} n S q) (bindM (findBalSession sid) (\<lambda>sess. write_session E sess j)) (\<lambda>_. Inv G n S)"
    by (rule runs_weaken [where n' = n and P' = "app_ok G {} n S q" and Q' = "\<lambda>_. app_ok G {} n S q"],
        rule runs_bindM [OF runs_findBalSession], assumption, rule runs_pure, rule runs_write_session)
      (auto simp: app_ok_wire intro: app_ok_Inv)
qed

lemma pres_logon: "pres G n S (handleBalLogonRequest E s sid)"
proof -
  have put_conn: "pres G n S (modify (\<lambda>a. put_session sid ((the_session sid a) \<lparr> bs_balConn := Some conn \<rparr>) a))" if "sid \<in> S" for conn
    by (rule runs_put_session [OF that]) (auto simp: bs_ok_def)
  have auth: "runs G n S (\<lambda>a. Inv G n S a \<and> bs_balConn (the_session sid a) \<noteq> None)
      (modify (\<lambda>a. put_session sid ((the_session sid a) \<lparr> bs_state := AUTHENTICATED \<rparr>) a)) (\<lambda>_. Inv G n S)" if "sid \<in> S"
  proof (rule runs_modify)
    fix a
    assume "Inv G n S a \<and> bs_balConn (the_session sid a) \<noteq> None"
    then obtain q where ok: "app_ok G {} n S q a" and c: "bs_balConn (the_session sid a) \<noteq> None" by (auto simp: Inv_def)
    note k = core_okD [OF app_ok_core [OF ok]]
    let ?s = "(the_session sid a) \<lparr> bs_state := AUTHENTICATED \<rparr>"
    have m: "bs_msgManager ?s = mgr_of sid a" using that k(5) by (auto simp: mgr_of_def)
    have "core_ok G {} n S (q(sid := mm_messages (bs_msgManager ?s))) (put_session sid ?s a)"
      by (rule core_put_session [OF app_ok_core [OF ok] that]) (use c k(9,11) that m in \<open>auto simp: bs_ok_def\<close>)
    then have "app_ok G {} n S (q(sid := mm_messages (bs_msgManager ?s))) (put_session sid ?s a)"
      by (rule app_ok_by_core [OF ok]) (simp_all add: put_session_def)
    then show "Inv G n S (put_session sid ?s a)" by (rule app_ok_Inv)
  qed
  have conn: "runs G n S (Inv G n S) (modify (\<lambda>a. put_session sid ((the_session sid a) \<lparr> bs_balConn := Some conn \<rparr>) a))
      (\<lambda>_ a. Inv G n S a \<and> bs_balConn (the_session sid a) \<noteq> None)" if "sid \<in> S" for conn
  proof (rule runs_modify)
    fix a
    assume inv: "Inv G n S a"
    then have "om_wf (ap_balSessionMap a)" using core_okD(3) [OF app_ok_core] by (auto simp: Inv_def)
    moreover have "Inv G n S (put_session sid ((the_session sid a) \<lparr> bs_balConn := Some conn \<rparr>) a)"
      using put_conn [OF that, of conn] inv by (simp add: runs_def hoare_def modify_def)
    ultimately show "Inv G n S (put_session sid ((the_session sid a) \<lparr> bs_balConn := Some conn \<rparr>) a) \<and>
        bs_balConn (the_session sid (put_session sid ((the_session sid a) \<lparr> bs_balConn := Some conn \<rparr>) a)) \<noteq> None"
      by (simp add: the_session_put)
  qed
  have prp: "runs G n S (\<lambda>a. Inv G n S a \<and> bs_balConn (the_session sid a) \<noteq> None)
      (modify (\<lambda>a. a \<lparr> ap_sessionProp := (ap_sessionProp a)(conn := c_str sid) \<rparr>))
      (\<lambda>_ a. Inv G n S a \<and> bs_balConn (the_session sid a) \<noteq> None)" for conn
    by (rule runs_modify) (auto simp: Inv_def app_ok_def the_session_def)
  have acc: "pres G n S (thenM (modify (\<lambda>a. put_session sid ((the_session sid a) \<lparr> bs_balConn := Some conn \<rparr>) a))
      (thenM (release_opt c)
      (thenM (modify (\<lambda>a. a \<lparr> ap_sessionProp := (ap_sessionProp a)(conn := c_str sid) \<rparr>))
      (thenM (modify (\<lambda>a. put_session sid ((the_session sid a) \<lparr> bs_state := AUTHENTICATED \<rparr>) a))
      (thenM (bindM (findBalSession sid) (\<lambda>sess. write_session E sess (logon_reply sid)))
             (start_timer 1000 (TResendUpstream sid)))))))" if "sid \<in> S" for conn c
    by (rule runs_thenM [OF conn [OF that] runs_thenM [OF runs_release_opt
          runs_thenM [OF prp runs_thenM [OF auth [OF that] runs_thenM [OF pres_write_found pres_timer]]]]])
      simp
  have all: "pres G n S (thenM (modify (\<lambda>a. a \<lparr> ap_conns := (ap_conns a)(conn := deleteTimerContext (ap_conns a conn)) \<rparr>))
      (thenM (modify (\<lambda>a. a \<lparr> ap_balSessionMapU := om_erase (ap_descriptor a s) (ap_balSessionMapU a) \<rparr>)) m))"
    if "pres G n S m" for conn m
    by (intro pres_thenM pres_frame that; simp)
  show ?thesis
    unfolding handleBalLogonRequest_def
    by (rule pres_gets) (auto split: option.split intro!: all runs_find_session acc pres_release runs_ret)
qed

section \<open>Messages from the business applications\<close>

lemma pres_balAck:
  assumes Y: "\<And>f. sid \<in> S \<Longrightarrow> sid \<noteq> ''fcm'' \<Longrightarrow> may_settle G DELIVERED sid k f"
  shows "pres G n S (handleBalAckMsg E sid k)"
proof -
  have inner: "pres G n S (bindM (getsE (\<lambda>a. findMessage (bs_msgManager (the_session sid a)) k)) (\<lambda>p.
       thenM (update_msg E p DELIVERED) (bindM (gets ap_heap) (\<lambda>h.
       thenM (on_bal_mgr sid (removeMessage h k)) (sendNextPendingUpstreamMessage E sid)))))" if sid: "sid \<in> S"
  proof (rule runs_Inv, rule runs_bindM)
    fix q
    show "runs G n S (app_ok G {} n S q) (getsE (\<lambda>a. findMessage (bs_msgManager (the_session sid a)) k))
        (\<lambda>p a. (om_find (q sid) k = Some p \<and> sid \<noteq> ''fcm'') \<and> app_ok G {} n S q a)"
    proof (rule runs_getsE)
      fix a p
      assume ok: "app_ok G {} n S q a" and f: "findMessage (bs_msgManager (the_session sid a)) k = Inr p"
      have ne: "sid \<noteq> ''fcm''" using core_okD(5) [OF app_ok_core [OF ok]] sid by blast
      then have "mm_messages (bs_msgManager (the_session sid a)) = q sid"
        using app_ok_mgr(3) [OF ok, of sid] sid by (simp add: mgr_of_def)
      with f ok ne show "(om_find (q sid) k = Some p \<and> sid \<noteq> ''fcm'') \<and> app_ok G {} n S q a"
        by (auto simp: findMessage_def split: option.splits)
    qed (auto simp: findMessage_def split: option.splits intro: app_ok_Inv)
    show "runs G n S (\<lambda>a. (om_find (q sid) k = Some p \<and> sid \<noteq> ''fcm'') \<and> app_ok G {} n S q a)
       (thenM (update_msg E p DELIVERED) (bindM (gets ap_heap) (\<lambda>h.
       thenM (on_bal_mgr sid (removeMessage h k)) (sendNextPendingUpstreamMessage E sid)))) (\<lambda>_. Inv G n S)" for p
    proof (rule runs_pure)
      assume p: "om_find (q sid) k = Some p \<and> sid \<noteq> ''fcm''"
      have sidi: "sid \<in> insert ''fcm'' S" using sid by simp
      let ?q = "q(sid := om_erase k (q sid))"
      have upd: "runs G n S (app_ok G {} n S q) (update_msg E p DELIVERED) (\<lambda>_ a. app_ok G {(sid, k)} n S q a \<and> True)"
        using runs_update_final [OF sidi, of DELIVERED "\<lambda>_. True" G n q k p E] Y [OF sid] p om_find_in_set [of "q sid" k p] by simp
      have rem: "runs G n S (\<lambda>a. app_ok G {(sid, k)} n S q a \<and> ap_heap a = h) (on_bal_mgr sid (removeMessage h k)) (\<lambda>_. app_ok G {} n S ?q)" for h
        using runs_remove [of sid S q k p G n h] sidi p by (simp add: on_bal_mgr_eq)
      have nxt: "runs G n S (app_ok G {} n S ?q) (sendNextPendingUpstreamMessage E sid) (\<lambda>_. Inv G n S)"
        by (rule runs_weaken [OF runs_sendNextUp [OF sid, of G n ?q]]) (auto intro: app_ok_Inv)
      show "runs G n S (app_ok G {} n S q) (thenM (update_msg E p DELIVERED) (bindM (gets ap_heap) (\<lambda>h.
          thenM (on_bal_mgr sid (removeMessage h k)) (sendNextPendingUpstreamMessage E sid)))) (\<lambda>_. Inv G n S)"
        by (rule runs_thenM [OF upd], rule runs_bindM [OF runs_gets [where Q = "\<lambda>h a. app_ok G {(sid, k)} n S q a \<and> ap_heap a = h"]],
            simp, rule runs_thenM [OF rem nxt])
    qed
  qed
  have find: "runs G n S (Inv G n S) (findBalMessageManager sid) (\<lambda>_ a. sid \<in> S \<and> Inv G n S a)"
    unfolding findBalMessageManager_def
    by (rule runs_getsE) (auto split: option.splits dest: Inv_dom)
  show ?thesis
    unfolding handleBalAckMsg_def
    by (rule runs_tryM, rule runs_thenM [OF find], rule runs_pure, rule inner)
qed

lemma pres_upload: "pres G n S (handleBalDownstreamUploadRequest E sid j)"
proof -
  let ?data = "j_object (doc_object j) G_FCM_DATA"
  let ?f = "\<lambda>s p. Message_new E p s DOWNSTREAM (j_string ?data F_MESSAGE_ID) (j_string (doc_object j) G_GROUP_ID) sid ''fcm'' (Some (JObject ?data)) NEW"
  have send: "runs G m S (\<lambda>a. app_ok G {} m S q' a \<and> p < ap_next a) (uploadToFcm E p) (\<lambda>_. Inv G m S)" for m q' p
    by (rule runs_weaken [OF runs_uploadToFcm [of G m S "{}" m q' p]]) (auto intro: app_ok_Inv)
  have g: "runs G (Suc p) S (\<lambda>a. app_ok G {} (Suc p) S q a \<and> ready S q p a \<and> ap_heap a p = ?f s p)
      (bindM (gets ap_heap) (\<lambda>h. thenM (on_fcm_mgr (addMessage h s p))
        (bindM (getsE (\<lambda>a. canSendMessage (ap_heap a) (ap_fcmMsgManager a) p)) (\<lambda>rcode.
           if rcode = 0 then thenM (update_msg E p PENDING_ACK) (thenM (set_state p PENDING_ACK)
              (thenM (on_fcm_mgr (modify incrementPendingAckCount)) (uploadToFcm E p))) else ret ())))) (\<lambda>_. Inv G (Suc p) S)" for s p q
  proof (rule runs_bindM [OF runs_gets [where Q = "\<lambda>h a. msg_sequenceId (h p) = s \<and>
        ((app_ok G {} (Suc p) S q a \<and> ready S q p a \<and> msg_targetSessionId (ap_heap a p) = ''fcm'' \<and> p < ap_next a) \<and> ap_heap a = h)"]])
    fix a
    assume "app_ok G {} (Suc p) S q a \<and> ready S q p a \<and> ap_heap a p = ?f s p"
    then show "msg_sequenceId (ap_heap a p) = s \<and>
        ((app_ok G {} (Suc p) S q a \<and> ready S q p a \<and> msg_targetSessionId (ap_heap a p) = ''fcm'' \<and> p < ap_next a) \<and> ap_heap a = ap_heap a)"
      by (auto simp: Message_new_def dest: ready_next)
  next
    fix h :: heap
    have m: "ap_fcmMsgManager a = mgr_of ''fcm'' a" for a by (simp add: mgr_of_def)
    show "runs G (Suc p) S (\<lambda>a. msg_sequenceId (h p) = s \<and>
        ((app_ok G {} (Suc p) S q a \<and> ready S q p a \<and> msg_targetSessionId (ap_heap a p) = ''fcm'' \<and> p < ap_next a) \<and> ap_heap a = h))
        (thenM (on_fcm_mgr (addMessage h s p))
        (bindM (getsE (\<lambda>a. canSendMessage (ap_heap a) (ap_fcmMsgManager a) p)) (\<lambda>rcode.
           if rcode = 0 then thenM (update_msg E p PENDING_ACK) (thenM (set_state p PENDING_ACK)
              (thenM (on_fcm_mgr (modify incrementPendingAckCount)) (uploadToFcm E p))) else ret ()))) (\<lambda>_. Inv G (Suc p) S)"
      unfolding on_fcm_mgr_eq m by (rule runs_pure, drule sym, simp only:, rule runs_enqueue) (simp_all add: send)
  qed
  have "runs G n S (app_ok G {} n S q) (bindM (on_db getNextSequenceId) (\<lambda>s. bindM (new_msg (?f s)) (\<lambda>p.
      thenM (print_msg E p) (thenM (save_msg E p) (bindM (gets ap_heap) (\<lambda>h. thenM (on_fcm_mgr (addMessage h s p))
        (bindM (getsE (\<lambda>a. canSendMessage (ap_heap a) (ap_fcmMsgManager a) p)) (\<lambda>rcode.
           if rcode = 0 then thenM (update_msg E p PENDING_ACK) (thenM (set_state p PENDING_ACK)
              (thenM (on_fcm_mgr (modify incrementPendingAckCount)) (uploadToFcm E p))) else ret ())))))))) (\<lambda>_. Inv G n S)" for q
    by (rule runs_bindM [OF runs_next_id], rule runs_new_saved(2)) (simp_all add: g, simp_all add: Message_new_def)
  then show ?thesis
    unfolding handleBalDownstreamUploadRequest_def Let_def by (rule runs_Inv)
qed

text \<open>The settlement a document of a business application answers: never that of a message for FCM.\<close>

definition doc_grants :: "env \<Rightarrow> json \<Rightarrow> answers" where
  "doc_grants E j =
     (if j_string (doc_object j) G_MESSAGE_TYPE = ''ACK'' then {j_int E (doc_object j) G_SEQUENCE_ID} \<times> {e. en_target e \<noteq> ''fcm''} \<times> {Delivered} else {})"

lemma pres_balmsg: "doc_grants E j \<subseteq> answers_of G \<Longrightarrow> pres G n S (handleBALmsg E s j)"
  unfolding handleBALmsg_def Let_def doc_grants_def
  by (auto simp: may_settle_def subset_iff intro!: pres_logon pres_gets pres_upload pres_balAck runs_raise)

subsection \<open>The loop over the frames\<close>

text \<open>\<open>QDataStream\<close> takes at least one byte of a complete frame.\<close>

definition unframe_consumes :: "env \<Rightarrow> bool" where
  "unframe_consumes E \<longleftrightarrow> (\<forall>b x r. qt_unframe E b = Some (x, r) \<longrightarrow> length r < length b)"

text \<open>No slot touches the unread bytes of the sockets.\<close>

lemma keeps_inbuf_parts [keeps_intros]:
  fixes b :: "sock \<Rightarrow> string"
  shows "keeps (\<lambda>a. ap_inbuf a = b) (on_db m1)" "keeps (\<lambda>a. ap_inbuf a = b) (on_fcm_mgr m2)"
    "keeps (\<lambda>a. ap_inbuf a = b) (on_bal_mgr sid m2)" "keeps (\<lambda>a. ap_inbuf a = b) (on_msg p m3)"
    "keeps (\<lambda>a. ap_inbuf a = b) (new_msg f)" "keeps (\<lambda>a. ap_inbuf a = b) (write_session E sess j)"
    "keeps (\<lambda>a. ap_inbuf a = b) (start_timer ms t)" "keeps (\<lambda>a. ap_inbuf a = b) (fcm_run i m4)"
    "keeps (\<lambda>a. ap_inbuf a = b) (payload_of p)" "keeps (\<lambda>a. ap_inbuf a = b) (findBalSession sid)"
    "keeps (\<lambda>a. ap_inbuf a = b) (findBalMessageManager sid)"
  by (auto simp: on_db_def on_fcm_mgr_def on_bal_mgr_def on_msg_def write_session_def put_session_def
      start_timer_def payload_of_def findBalSession_def findBalMessageManager_def new_msg_def fcm_run_def keeps_def
      zoom_def modify_def getsE_def split: option.splits prod.splits)

lemma keeps_inbuf_send [keeps_intros]:
  fixes b :: "sock \<Rightarrow> string"
  shows "keeps (\<lambda>a. ap_inbuf a = b) (uploadToFcm E p)"
  unfolding uploadToFcm_def sendMessage_def fcm_call_def log_act_def
  by (auto intro!: keeps_intros keeps_forM keeps_modify split: fcm_act.split)

lemma keeps_inbuf_msg: "keeps (\<lambda>a. ap_inbuf a = b) (handleBALmsg E s j)"
  unfolding handleBALmsg_def handleBalLogonRequest_def handleBalDownstreamUploadRequest_def handleBalAckMsg_def
    save_msg_def update_msg_def print_msg_def set_state_def sendNextPendingUpstreamMessage_def Let_def
  by (auto intro!: keeps_intros keeps_modify simp: put_session_def split: option.split)

text \<open>The documents in the complete frames of a buffer.\<close>

inductive buffered :: "env \<Rightarrow> string \<Rightarrow> json \<Rightarrow> bool" for E where
  frame_first: "buf \<noteq> [] \<Longrightarrow> qt_unframe E buf = Some (bytes, rest) \<Longrightarrow> buffered E buf (qt_fromBinaryData E bytes)"
| frame_later: "buf \<noteq> [] \<Longrightarrow> qt_unframe E buf = Some (bytes, rest) \<Longrightarrow> buffered E rest j \<Longrightarrow> buffered E buf j"

definition buffer_grants :: "env \<Rightarrow> string \<Rightarrow> answers" where
  "buffer_grants E buf = \<Union> {doc_grants E j | j. buffered E buf j}"

lemma buffer_grants_frame:
  "buf \<noteq> [] \<Longrightarrow> qt_unframe E buf = Some (bytes, rest) \<Longrightarrow> buffer_grants E buf \<subseteq> Y \<Longrightarrow>
   doc_grants E (qt_fromBinaryData E bytes) \<subseteq> Y \<and> buffer_grants E rest \<subseteq> Y"
  unfolding buffer_grants_def by (blast intro: frame_first frame_later)

lemma runs_read_loop:
  assumes "unframe_consumes E"
  shows "runs G n S (\<lambda>a. (length (ap_inbuf a s) < k \<and> buffer_grants E (ap_inbuf a s) \<subseteq> answers_of G) \<and> Inv G n S a)
    (bal_read_loop k E s) (\<lambda>_. Inv G n S)"
proof (induction k)
  case 0
  show ?case by (simp add: runs_def hoare_def)
next
  case (Suc k)
  let ?B = "\<lambda>b. length b < k \<and> buffer_grants E b \<subseteq> answers_of G"
  have msg: "runs G n S (\<lambda>a. ?B (ap_inbuf a s) \<and> Inv G n S a) (tryM (handleBALmsg E s j)) (\<lambda>_ a. ?B (ap_inbuf a s) \<and> Inv G n S a)"
    if j: "doc_grants E j \<subseteq> answers_of G" for j
    unfolding runs_def
  proof (rule hoareI)
    fix a f t
    assume pre: "?B (ap_inbuf a s) \<and> Inv G n S a" and run: "tryM (handleBALmsg E s j) a = (Inl f, t)"
    show "benign f \<and> (\<forall>e. f = Throw e \<longrightarrow> Inv G n S t)"
      using hoareD_fail [OF runs_tryM [OF pres_balmsg [OF j], unfolded runs_def] conjunct2 [OF pre] run] .
  next
    fix a x t
    assume pre: "?B (ap_inbuf a s) \<and> Inv G n S a" and run: "tryM (handleBALmsg E s j) a = (Inr x, t)"
    have "ap_inbuf t = ap_inbuf a" using keepsD [OF keeps_tryM [OF keeps_inbuf_msg] _ run] by simp
    with pre hoareD_ok [OF runs_tryM [OF pres_balmsg [OF j], unfolded runs_def] conjunct2 [OF pre] run]
    show "?B (ap_inbuf t s) \<and> Inv G n S t" by simp
  qed
  have frame: "Inv G n S (a \<lparr> ap_inbuf := b \<rparr>) = Inv G n S a" for a b by (simp add: Inv_def app_ok_def)
  show ?case
    unfolding bal_read_loop.simps
  proof (rule runs_bindM [OF runs_gets [where Q = "\<lambda>buf a. (length buf < Suc k \<and> buffer_grants E buf \<subseteq> answers_of G) \<and> Inv G n S a"]],
      simp, rule runs_pure)
    fix buf :: string
    assume buf: "length buf < Suc k \<and> buffer_grants E buf \<subseteq> answers_of G"
    have step: "runs G n S (Inv G n S) (thenM (modify (\<lambda>a. a \<lparr> ap_inbuf := (ap_inbuf a)(s := rest) \<rparr>))
        (thenM (tryM (handleBALmsg E s (qt_fromBinaryData E bytes))) (bal_read_loop k E s))) (\<lambda>_. Inv G n S)"
      if ne: "buf \<noteq> []" and u: "qt_unframe E buf = Some (bytes, rest)" for bytes rest
    proof (rule runs_thenM [OF runs_modify [where Q = "\<lambda>_ a. ?B (ap_inbuf a s) \<and> Inv G n S a"]])
      note g = buffer_grants_frame [OF ne u conjunct2 [OF buf]]
      show "?B (ap_inbuf (a \<lparr> ap_inbuf := (ap_inbuf a)(s := rest) \<rparr>) s) \<and>
          Inv G n S (a \<lparr> ap_inbuf := (ap_inbuf a)(s := rest) \<rparr>)" if "Inv G n S a" for a
        using that assms u buf g by (fastforce simp: frame unframe_consumes_def)
      show "runs G n S (\<lambda>a. ?B (ap_inbuf a s) \<and> Inv G n S a)
          (thenM (tryM (handleBALmsg E s (qt_fromBinaryData E bytes))) (bal_read_loop k E s)) (\<lambda>_. Inv G n S)"
        by (rule runs_thenM [OF msg [OF conjunct1 [OF g]] Suc.IH])
    qed
    show "pres G n S (if buf = [] then ret () else (case qt_unframe E buf of None \<Rightarrow> ret ()
        | Some (bytes, rest) \<Rightarrow> thenM (modify (\<lambda>a. a \<lparr> ap_inbuf := (ap_inbuf a)(s := rest) \<rparr>))
            (thenM (tryM (handleBALmsg E s (qt_fromBinaryData E bytes))) (bal_read_loop k E s))))"
      by (auto intro!: runs_ret step split: option.split)
  qed
qed

lemma runs_balReadyRead:
  "unframe_consumes E \<Longrightarrow> runs G n S (\<lambda>a. buffer_grants E (ap_inbuf a s) \<subseteq> answers_of G \<and> Inv G n S a)
    (handleBALSocketReadyRead E s) (\<lambda>_. Inv G n S)"
  unfolding handleBALSocketReadyRead_def
  by (rule runs_bindM [OF runs_gets [where Q = "\<lambda>k a. (length (ap_inbuf a s) < Suc k \<and> buffer_grants E (ap_inbuf a s) \<subseteq> answers_of G) \<and> Inv G n S a"]])
     (simp, rule runs_read_loop)

section \<open>Events of a connection\<close>

text \<open>The calls on an FCM connection that can only fail benignly.\<close>

definition calm :: "(fcmconn, 'a) M \<Rightarrow> bool" where
  "calm m \<longleftrightarrow> (\<forall>c f c'. m c = (Inl f, c') \<longrightarrow> benign f)"

named_theorems calm_intros

lemma calm_bindM [calm_intros]: "calm m \<Longrightarrow> (\<And>x. calm (f x)) \<Longrightarrow> calm (bindM m f)"
  by (fastforce simp: calm_def bindM_def split: prod.splits sum.splits)

lemma calm_thenM [calm_intros]: "calm m \<Longrightarrow> calm m' \<Longrightarrow> calm (thenM m m')"
  unfolding thenM_def by (rule calm_bindM)

lemma calm_forM [calm_intros]: "(\<And>x. calm (f x)) \<Longrightarrow> calm (forM xs f)"
  by (induction xs) (auto intro: calm_thenM simp: calm_def [of "ret ()"] ret_def)

lemma calm_prims [calm_intros]:
  "calm (ret x)" "calm (gets g)" "calm (modify h)" "calm (act x1)"
  by (simp_all add: calm_def ret_def gets_def modify_def act_def)

lemma calm_acts [calm_intros]: "calm (emit s)" "calm (acts xs)"
  unfolding emit_def acts_def by (intro calm_intros)+

lemma calm_slots:
  "calm socketEncrypted" "calm (handleSslErrors es)" "calm (fcm_timer_fires E t)" "calm (handleDisconnected E)"
proof -
  show "calm socketEncrypted" unfolding socketEncrypted_def by (intro calm_intros)
  show "calm (handleSslErrors es)" unfolding handleSslErrors_def by (intro calm_intros)
  show "calm (fcm_timer_fires E t)"
    by (cases t) (auto simp: connectToFirebase_def sendAuthenticationInfo_def sendIQBind_def startNewStream_def Let_def
        intro!: calm_intros)
  have "calm (zoom fc_expBoff (\<lambda>b c. c \<lparr> fc_expBoff := b \<rparr>) (backoff_next E))"
    using backoff_next_frame by (fastforce simp: calm_def zoom_def split: prod.splits)
  then show "calm (handleDisconnected E)" unfolding handleDisconnected_def by (auto intro!: calm_intros)
qed

lemma calm_readyRead:
  assumes "xml_progress X left" and "\<And>r. left r < fuel r"
  shows "calm (fcm_readyRead E fuel X bytes)"
proof -
  have loop: "calm (bindM (gets (\<lambda>c. fuel (x_addData X b (fc_reader c)))) (\<lambda>k. handleReadyRead E k X b))" for b
    unfolding calm_def
  proof (intro allI impI)
    fix c f c'
    assume "bindM (gets (\<lambda>c. fuel (x_addData X b (fc_reader c)))) (\<lambda>k. handleReadyRead E k X b) c = (Inl f, c')"
    then have "handleReadyRead E (fuel (x_addData X b (fc_reader c))) X b c = (Inl f, c')" by (simp add: bindM_def gets_def)
    then show "benign f" using handleReadyRead_agree(2) [OF assms(1), of b c _ "fuel (x_addData X b (fc_reader c))" E] assms(2) by fastforce
  qed
  show ?thesis unfolding fcm_readyRead_def by (rule calm_bindM [OF calm_prims(2)], rule calm_forM, rule loop)
qed

text \<open>The calls that signal nothing that settles a message: all but the reading.\<close>

definition unanswered :: "fcmconn \<Rightarrow> bool" where
  "unanswered c \<longleftrightarrow> (\<forall>s. Emit s \<in> set (fc_acts c) \<longrightarrow> grants s = {})"

lemma keeps_unanswered_act [keeps_intros]: "(\<And>s. x = Emit s \<Longrightarrow> grants s = {}) \<Longrightarrow> keeps unanswered (act x)"
  unfolding act_def by (rule keeps_modify) (auto simp: unanswered_def)

lemma keeps_unanswered_emit [keeps_intros]: "(\<And>i. grants (s i) = {}) \<Longrightarrow> keeps unanswered (emit s)"
  by (auto simp: keeps_def emit_def act_def monad_defs unanswered_def)

lemma keeps_unanswered_acts [keeps_intros]: "(\<And>x s. x \<in> set xs \<Longrightarrow> x = Emit s \<Longrightarrow> grants s = {}) \<Longrightarrow> keeps unanswered (acts xs)"
  unfolding acts_def by (induction xs) (simp_all add: keeps_intros)

lemma keeps_unanswered_slots:
  "keeps unanswered socketEncrypted" "keeps unanswered (handleSslErrors es)" "keeps unanswered (fcm_timer_fires E t)"
  "keeps unanswered (handleDisconnected E)"
proof -
  show "keeps unanswered socketEncrypted"
    unfolding socketEncrypted_def stream_header_def
    by (intro keeps_intros keeps_modify) (auto simp: unanswered_def)
  show "keeps unanswered (handleSslErrors es)"
    unfolding handleSslErrors_def by (intro keeps_forM keeps_intros) simp
  show "keeps unanswered (fcm_timer_fires E t)"
    by (cases t) (auto simp: connectToFirebase_def sendAuthenticationInfo_def sendIQBind_def startNewStream_def
        stream_header_def Let_def intro!: keeps_intros)
  show "keeps unanswered (handleDisconnected E)"
    by (auto simp: keeps_def handleDisconnected_def emit_def act_def monad_defs unanswered_def split: prod.splits sum.splits)
qed

lemma unanswered_signals: "keeps unanswered m \<Longrightarrow> s \<in> fcm_signals i m a \<Longrightarrow> grants s = {}"
proof -
  assume k: "keeps unanswered m" and s: "s \<in> fcm_signals i m a"
  from s obtain c where c: "Emit s \<in> set (fc_acts (snd (m (c \<lparr> fc_acts := [] \<rparr>))))" by (auto simp: fcm_signals_def split: option.splits)
  have "unanswered (snd (m (c \<lparr> fc_acts := [] \<rparr>)))"
    using keepsD [OF k, of "c \<lparr> fc_acts := [] \<rparr>"] by (simp add: unanswered_def) (metis prod.collapse)
  with c show ?thesis by (simp add: unanswered_def)
qed

lemma pres_event_at:
  assumes "draws_in_range E" and "calm m" and "keeps unanswered m"
  shows "pres G n S (fcm_event_at E what i m)"
  by (rule runs_weaken [OF runs_event_at [OF assms(1)]])
    (use assms(2) unanswered_signals [OF assms(3)] in \<open>auto simp: calm_def\<close>)

section \<open>Timers\<close>

lemma pres_timer_fires:
  assumes "draws_in_range E"
  shows "runs G n S (\<lambda>a. app_ok G {} n S q a \<and> timer_ok S (ap_heap a) (ap_next a) t) (timer_fires E what t) (\<lambda>_. Inv G n S)"
proof -
  have unset: "runs G n S (\<lambda>a. app_ok G {} n S q a \<and> p < ap_next a) (set_retry p b) (\<lambda>_. Inv G n S)" for p b
  proof -
    have "runs G n S (app_ok G {} n S q) (set_retry p b) (\<lambda>_. app_ok G {} n S q)"
      by (rule runs_set_state(2)) (auto intro: app_ok_heap_all)
    then show ?thesis by (rule runs_weaken) (auto intro: app_ok_Inv)
  qed
  have ev: "runs G n S (\<lambda>a. app_ok G {} n S q a \<and> timer_ok S (ap_heap a) (ap_next a) t) m (\<lambda>_. Inv G n S)" if "pres G n S m" for m t
    by (rule runs_weaken [OF that]) (auto intro: app_ok_Inv)
  show ?thesis
  proof (cases t)
    case (TRetryDownstream p)
    then show ?thesis by (simp, intro runs_thenM [OF runs_uploadToFcm unset])
  next
    case (TRetryUpstream p)
    have "runs G n S (\<lambda>a. app_ok G {} n S q a \<and> p < ap_next a) (bindM (gets (\<lambda>a. msg_targetSessionId (ap_heap a p))) (\<lambda>sid. forwardMsg E sid p))
        (\<lambda>_ a. app_ok G {} n S q a \<and> p < ap_next a)"
      by (rule runs_bindM [OF runs_gets runs_forwardMsg])
    with TRetryUpstream show ?thesis
      by simp (rule runs_weaken [OF runs_thenM [OF _ unset]], assumption, auto)
  next
    case (TResendUpstream sid)
    then show ?thesis by simp (rule runs_weaken [OF runs_resendUp [OF assms(1)]], auto intro: app_ok_Inv)
  next
    case (TLogonTimeout s)
    have "pres G n S (bindM (gets (\<lambda>a. bc_timerContext (ap_conns a s))) (\<lambda>alive. whenM alive (handleBalAuthenticationTimeout s)))"
      by (rule pres_gets, rule runs_whenM) (auto intro: pres_authTimeout)
    from ev [OF this, of t] TLogonTimeout show ?thesis by simp
  next
    case (TFcm i t')
    have "pres G n S (fcm_event_at E what i (fcm_timer_fires E t'))"
      by (intro pres_event_at assms calm_slots keeps_unanswered_slots)
    from ev [OF this, of t] TFcm show ?thesis by simp
  qed
qed

lemma app_ok_drop_timer: "app_ok G X n S q a \<Longrightarrow> set ts \<subseteq> set (ap_timers a) \<Longrightarrow> app_ok G X n S q (a \<lparr> ap_timers := ts \<rparr>)"
proof -
  assume ok: "app_ok G X n S q a" and ts: "set ts \<subseteq> set (ap_timers a)"
  have [simp]: "mgr_of sid (a \<lparr> ap_timers := ts \<rparr>) = mgr_of sid a" "the_session sid (a \<lparr> ap_timers := ts \<rparr>) = the_session sid a" for sid
    by (simp_all add: mgr_of_def the_session_def)
  have "core_ok G X n S q (a \<lparr> ap_timers := ts \<rparr>)"
    using app_ok_core [OF ok] ts unfolding core_ok_def by auto
  then show ?thesis by (rule app_ok_by_core [OF ok]) simp_all
qed

lemma pres_ATimer:
  assumes "draws_in_range E"
  shows "pres G n S (app_handle E what fuel X (ATimer k))"
  unfolding app_handle.simps
proof (rule runs_Inv, rule runs_bindM [OF runs_gets [where Q = "\<lambda>ts a. app_ok G {} n S q a \<and> ts = ap_timers a" for q]], simp)
  fix q and ts :: "(int \<times> app_timer) list"
  let ?t = "snd (ts ! k)"
  have drop: "runs G n S (\<lambda>a. app_ok G {} n S q a \<and> ts = ap_timers a) (modify (\<lambda>a. a \<lparr> ap_timers := take k ts @ drop (Suc k) ts \<rparr>))
      (\<lambda>_ a. app_ok G {} n S q a \<and> timer_ok S (ap_heap a) (ap_next a) ?t)" if k: "k < length ts"
  proof (rule runs_modify)
    fix a
    assume pre: "app_ok G {} n S q a \<and> ts = ap_timers a"
    have "(fst (ts ! k), ?t) \<in> set (ap_timers a)" using pre k by simp
    then have "timer_ok S (ap_heap a) (ap_next a) ?t" using core_okD(13) [OF app_ok_core] pre by blast
    moreover have "set (take k ts @ drop (Suc k) ts) \<subseteq> set (ap_timers a)"
      using pre by (auto dest: in_set_takeD in_set_dropD)
    ultimately show "app_ok G {} n S q (a \<lparr> ap_timers := take k ts @ drop (Suc k) ts \<rparr>) \<and>
        timer_ok S (ap_heap (a \<lparr> ap_timers := take k ts @ drop (Suc k) ts \<rparr>)) (ap_next (a \<lparr> ap_timers := take k ts @ drop (Suc k) ts \<rparr>)) ?t"
      using pre app_ok_drop_timer by simp
  qed
  show "runs G n S (\<lambda>a. app_ok G {} n S q a \<and> ts = ap_timers a) (if k < length ts then
      thenM (modify (\<lambda>a. a \<lparr> ap_timers := take k ts @ drop (Suc k) ts \<rparr>)) (timer_fires E what ?t) else ret ()) (\<lambda>_. Inv G n S)"
    by (rule runs_if, erule runs_thenM [OF drop], rule pres_timer_fires [OF assms], rule runs_ret, blast intro: app_ok_Inv)
qed

text \<open>What the program relies on: the random numbers are in their range, Qt takes bytes for every frame, and the reader moves forward.\<close>

definition platform_ok :: "env \<Rightarrow> (nat \<Rightarrow> nat) \<Rightarrow> xml_api \<Rightarrow> bool" where
  "platform_ok E fuel X \<longleftrightarrow>
     draws_in_range E \<and> unframe_consumes E \<and> (\<exists>left. xml_progress X left \<and> (\<forall>r. left r < fuel r))"

text \<open>The settlements an event answers: those of the signals its packet makes a connection emit, and of the
  documents that are complete in the buffer of a socket.\<close>

fun event_answers :: "env \<Rightarrow> (nat \<Rightarrow> nat) \<Rightarrow> xml_api \<Rightarrow> app_event \<Rightarrow> app \<Rightarrow> answers" where
  "event_answers E fuel X (AFcmReadyRead i bytes) a = \<Union> (grants ` fcm_signals i (fcm_readyRead E fuel X bytes) a)"
| "event_answers E fuel X (ABalReadyRead s bytes) a = buffer_grants E (ap_inbuf a s @ bytes)"
| "event_answers E fuel X _ a = {}"

lemma runs_app_handle:
  assumes "platform_ok E fuel X"
  shows "runs G n S (\<lambda>a. Inv G n S a \<and> event_answers E fuel X ev a \<subseteq> answers_of G) (app_handle E what fuel X ev) (\<lambda>_. Inv G n S)"
proof -
  from assms obtain left where a: "draws_in_range E" "unframe_consumes E"
    "xml_progress X left" "\<And>r. left r < fuel r" by (auto simp: platform_ok_def)
  have at: "pres G n S (fcm_event_at E what i m)" if "calm m" "keeps unanswered m" for i m
    by (rule pres_event_at [OF a(1) that])
  have w: "pres G n S (bindM (gets g) (\<lambda>b. whenM (P b) m))" if "pres G n S m" for g :: "app \<Rightarrow> 'b" and P m
    by (rule pres_gets, rule runs_whenM) (auto intro: that)
  have any: "runs G n S (\<lambda>a. Inv G n S a \<and> Q a) m (\<lambda>_. Inv G n S)" if "pres G n S m" for Q m
    by (rule runs_weaken [OF that]) simp_all
  have frame: "Inv G n S (a \<lparr> ap_inbuf := b \<rparr>) = Inv G n S a" for a b by (simp add: Inv_def app_ok_def)
  show ?thesis
  proof (cases ev)
    case (AFcmReadyRead i bytes)
    have "benign f" if "fcm_readyRead E fuel X bytes c = (Inl f, c')" for c f c'
      using calm_readyRead [OF a(3,4), of E bytes] that unfolding calm_def by blast
    from runs_event_at [OF a(1) this] AFcmReadyRead show ?thesis by (simp add: UN_subset_iff)
  next
    case (ABalReadyRead s bytes)
    show ?thesis
      unfolding ABalReadyRead app_handle.simps
    proof (rule runs_thenM [OF runs_modify [where Q = "\<lambda>_ a. buffer_grants E (ap_inbuf a s) \<subseteq> answers_of G \<and> Inv G n S a"]])
      show "runs G n S (\<lambda>a. buffer_grants E (ap_inbuf a s) \<subseteq> answers_of G \<and> Inv G n S a)
          (bindM (gets (\<lambda>a. ap_blocked a s)) (\<lambda>b. whenM (\<not> b) (handleBALSocketReadyRead E s))) (\<lambda>_. Inv G n S)"
        by (rule runs_bindM [OF runs_gets [where Q = "\<lambda>_ a. buffer_grants E (ap_inbuf a s) \<subseteq> answers_of G \<and> Inv G n S a"]], simp)
          (auto simp: whenM_def intro!: runs_balReadyRead [OF a(2)] runs_ret)
    qed (simp add: frame)
  next
    case (ATimer k)
    then show ?thesis by (simp only: any [OF pres_ATimer [OF a(1)]])
  qed (auto simp: hupSignalHandler_def termSignalHandler_def handleSigInt_def handleSigTerm_def
      intro!: any at calm_slots keeps_unanswered_slots pres_newConnection pres_thenM pres_frame w pres_disconnected)
qed

end
