(* ===== verification/App_Start.thy ===== *)
theory App_Start
  imports App_Events
begin

text \<open>
  The constructor of the application: from a database file the program wrote and a usable
  configuration it either ends the process or establishes the invariant, with every undelivered
  row of the file back in its queue.
\<close>

section \<open>What the start relies on\<close>

text \<open>The file: keys in order, and rows as the program writes them.\<close>

definition file_ok :: "(int, row) omap \<Rightarrow> bool" where
  "file_ok rows \<longleftrightarrow> om_wf rows \<and> (\<forall>(k, r)\<in>set rows. row_ok k r)"

text \<open>The configured session is not named like the FCM side, and its id can stand in a statement.\<close>

definition the_client :: "host \<Rightarrow> string" where
  "the_client H = ini_string H ''BAL_SECTION/session_id''"

definition config_ok :: "host \<Rightarrow> bool" where
  "config_ok H \<longleftrightarrow> the_client H \<noteq> ''fcm'' \<and> CHR 0x27 \<notin> set (the_client H) \<and> CHR 0x00 \<notin> set (the_client H)"

section \<open>The steps\<close>

lemma readConfigFile_cases:
  assumes "readConfigFile H a = (r, a')"
  shows "r = Inl Exit \<or> (r = Inr () \<and> a' = a \<lparr> ap_fcmServerId := ini_string H ''FCM_SECTION/server_id'',
     ap_fcmServerKey := ini_string H ''FCM_SECTION/server_key'', ap_fcmPortNo := ini_port H ''FCM_SECTION/port_no'',
     ap_fcmHostAddress := ini_string H ''FCM_SECTION/host_address'', ap_serverPortNo := ini_port H ''SERVER_SECTION/port_no'',
     ap_serverHostAddress := ini_string H ''SERVER_SECTION/host_address'',
     ap_balSessionMap := om_emplace (the_client H) (BALSession (the_client H) UNAUTHENTICATED) (ap_balSessionMap a) \<rparr>)"
  using assms unfolding readConfigFile_def Let_def
  by (auto simp: exit_if_def the_client_def monad_defs split: if_splits)

text \<open>Growth of the heap by good messages.\<close>

lemma core_grow:
  assumes "core_ok G X n S q a" and "\<And>p. p < ap_next a \<Longrightarrow> h' p = ap_heap a p" and "ap_next a \<le> nxt'"
    and "\<And>p. ap_next a \<le> p \<Longrightarrow> p < nxt' \<Longrightarrow> msg_good (h' p)"
  shows "core_ok G X n S q (a \<lparr> ap_heap := h', ap_next := nxt' \<rparr>)"
proof -
  note ok = core_okD [OF assms(1)]
  have [simp]: "mgr_of sid (a \<lparr> ap_heap := h, ap_next := k \<rparr>) = mgr_of sid a"
      "the_session sid (a \<lparr> ap_heap := h, ap_next := k \<rparr>) = the_session sid a" for sid h k
    by (simp_all add: mgr_of_def the_session_def)
  have "mgr_ok X h' (db_rows (ap_dbConn a)) nxt' sid (mgr_of sid a)" if "sid \<in> insert ''fcm'' S" for sid
    by (rule mgr_ok_heap [OF ok(9) [OF that] assms(3)]) (use assms(2) in auto)
  moreover have "timer_ok S h' nxt' (snd x)" if "x \<in> set (ap_timers a)" for x
  proof -
    have "timer_ok S (ap_heap a) (ap_next a) (snd x)" using ok(13) [of "fst x" "snd x"] that by simp
    then show ?thesis using assms(2,3) by (cases "snd x") auto
  qed
  moreover have "msg_good (h' p)" if "p < nxt'" for p
    using that assms(2,4) ok(8) by (cases "p < ap_next a") auto
  ultimately show ?thesis
    using assms(1,3) unfolding core_ok_def by simp
qed

lemma loaded_good: "msg_good (loaded_msg E p k r)"
  by (simp add: msg_good_def loaded_msg_def Message_default_def ExponentialBackoff_def)

lemma loaded_pending: "r_state r \<in> {1, 2} \<Longrightarrow> msg_state (loaded_msg E p k r) \<in> {NEW, PENDING_ACK}"
  by (auto simp: loaded_msg_def MessageState_of_int_def to_char_def)

text \<open>Loading the rows of session \<open>sid\<close> into its empty manager.\<close>

definition load_mgr :: "env \<Rightarrow> string \<Rightarrow> (app, unit) M" where
  "load_mgr E sid =
     zoom (\<lambda>a. (ap_dbConn a, ap_heap a, ap_next a, mgr_of sid a))
          (\<lambda>(d, h, p, m) a. set_mgr sid m (a \<lparr> ap_dbConn := d, ap_heap := h, ap_next := p \<rparr>))
          (loadPendingMessages E)"

lemma load_mgr_eq: "load_fcm E = load_mgr E ''fcm''" "sid \<noteq> ''fcm'' \<Longrightarrow> load_bal E sid = load_mgr E sid"
  by (simp_all add: load_fcm_def load_bal_def load_mgr_def mgr_of_def [abs_def] set_mgr_def [abs_def] the_session_def
      split_def fun_eq_iff)

lemma load_mgr_step:
  assumes "core_ok G {} n S q a" and "file_ok (db_rows (ap_dbConn a))"
    and "sid \<in> insert ''fcm'' S" and "q sid = []" and "CHR 0x27 \<notin> set sid"
  shows "\<exists>a' q'. load_mgr E sid a = (Inr (), a') \<and> core_ok G {} n S q' a' \<and> (\<forall>s. s \<noteq> sid \<longrightarrow> q' s = q s) \<and>
    (\<not> sq_fails E (db_steps (ap_dbConn a)) \<longrightarrow> fst ` set (q' sid) = fst ` set (pending_rows sid (db_rows (ap_dbConn a)))) \<and>
    db_rows (ap_dbConn a') = db_rows (ap_dbConn a) \<and> ap_fcmConnectionsMap a' = ap_fcmConnectionsMap a \<and>
    ap_fcmConnCount a' = ap_fcmConnCount a \<and> ap_sendSlots a' = ap_sendSlots a \<and> map fst (ap_balSessionMap a') = map fst (ap_balSessionMap a)"
proof -
  note ok = core_okD [OF assms(1)]
  let ?m = "mgr_of sid a" and ?rows = "db_rows (ap_dbConn a)"
  have m: "mm_ok (ap_heap a) ?m" "mm_sessionId ?m = sid" "mm_messages ?m = []" "unat (mm_pendingAckCount ?m) \<le> 100"
    using ok(9,10) [OF assms(3)] assms(4) by (simp_all add: mgr_ok_def)
  have nul: "CHR 0x00 \<notin> set sid" using assms(3) ok(6) by auto
  have rok: "\<forall>(k, r)\<in>set (pending_rows (mm_sessionId ?m) ?rows). row_ok k r"
    using assms(2) by (auto simp: file_ok_def pending_rows_def)
  have wf: "om_wf ?rows" using assms(2) by (simp add: file_ok_def)
  have ids: "CHR 0x27 \<notin> set (mm_sessionId ?m)" "CHR 0x00 \<notin> set (mm_sessionId ?m)" using assms(5) nul m(2) by simp_all
  obtain d' h' p' m' where l: "loadPendingMessages E (ap_dbConn a, (ap_heap a, ap_next a, ?m)) = (Inr (), (d', (h', p', m')))"
    "db_rows d' = ?rows" "db_sequenceId d' = db_sequenceId (ap_dbConn a)" "ap_next a \<le> p'" "\<And>q. q < ap_next a \<Longrightarrow> h' q = ap_heap a q"
    "\<And>q. ap_next a \<le> q \<Longrightarrow> q < p' \<Longrightarrow> \<exists>k r. h' q = loaded_msg E q k r" "mm_ok h' m'"
    "mm_pendingAckCount m' = mm_pendingAckCount ?m" "mm_sessionId m' = mm_sessionId ?m"
    "\<And>k q. (k, q) \<in> set (mm_messages m') \<Longrightarrow> q < p' \<and> (\<exists>r. (k, r) \<in> set (pending_rows (mm_sessionId ?m) ?rows) \<and> h' q = loaded_msg E q k r)"
    "\<not> sq_fails E (db_steps (ap_dbConn a)) \<Longrightarrow> fst ` set (mm_messages m') = fst ` set (pending_rows (mm_sessionId ?m) ?rows)"
    by (rule loadPendingMessages_cases [OF wf rok ids m(1,3), of E "ap_next a"]) (rule that)
  note l = l [unfolded m(2)]
  let ?a = "a \<lparr> ap_dbConn := d', ap_heap := h', ap_next := p' \<rparr>"
  have "core_ok G {} n S q (a \<lparr> ap_dbConn := d' \<rparr>)"
    by (rule core_rows [OF assms(1)]) (use l(2,3) ok(1,2) in \<open>auto simp: db_ok_def\<close>)
  from core_grow [OF this, of h' p'] have core: "core_ok G {} n S q ?a"
    using l(4-6) loaded_good by force
  have "p < p' \<and> msg_state (h' p) \<in> {NEW, PENDING_ACK} \<and> msg_targetSessionId (h' p) = sid \<and>
      pending_row ?rows sid k (msg_fcmMessageId (h' p))"
    if kp: "(k, p) \<in> set (mm_messages m')" for k p
  proof -
    from l(10) [OF kp] obtain r where r: "p < p'" "(k, r) \<in> set (pending_rows sid ?rows)" "h' p = loaded_msg E p k r" by blast
    then have st: "r_state r \<in> {1, 2}" "r_target_session r = sid" "(k, r) \<in> set ?rows" by (auto simp: pending_rows_def)
    moreover have "r_fcm_message_id r \<noteq> None" using rok r(2) m(2) by (auto simp: row_ok_def)
    ultimately have "pending_row ?rows sid k (msg_fcmMessageId (h' p))"
      using om_find_iff [OF wf, of k r] by (auto simp: pending_row_def names_fcm_def r(3) loaded_msg_def)
    with r st loaded_pending [OF st(1), of E p k] show ?thesis by (simp add: loaded_msg_def c_str_id [OF nul])
  qed
  then have "mgr_ok {} h' (db_rows d') p' sid m'"
    using l m(4) by (simp add: mgr_ok_def)
  then have core': "core_ok G {} n S (q(sid := mm_messages m')) (set_mgr sid m' ?a)"
    by (intro core_set_mgr [OF core assms(3)]) auto
  have keys: "map fst (ap_balSessionMap (set_mgr sid m' ?a)) = map fst (ap_balSessionMap a)"
  proof (cases "sid = ''fcm''")
    case False
    then obtain s where "om_find (ap_balSessionMap a) sid = Some s"
      using assms(3) ok(4) by (metis insert_iff not_None_eq om_find_None_iff)
    with False show ?thesis by (simp add: set_mgr_def put_session_def om_store_present [OF ok(3)])
  qed (simp add: set_mgr_def)
  have "load_mgr E sid a = (Inr (), set_mgr sid m' ?a)" using l(1) by (simp add: load_mgr_def zoom_def)
  with core' keys l(2,11) show ?thesis
    by (intro exI [of _ "set_mgr sid m' ?a"] exI [of _ "q(sid := mm_messages m')"]) (simp add: set_mgr_def put_session_def)
qed

section \<open>The constructor\<close>

lemma mgr_ok_new: "mgr_ok X h rows nxt sid (MessageManager_default sid)" "mm_messages (MessageManager_default sid) = []"
  by (simp add: mgr_ok_def MessageManager_default_def mm_ok_init) (simp_all add: MessageManager_default_def MessageManager_def)

lemma core_initial:
  assumes "config_ok H" and "db_ok (ap_dbConn a)" and "int64_min \<le> db_sequenceId (ap_dbConn a)"
    and "ap_balSessionMap a = [(the_client H, BALSession (the_client H) UNAUTHENTICATED)]"
    and "ap_fcmMsgManager a = MessageManager_default ''fcm''" and "ap_timers a = []" and "ap_next a = 0"
    and "evolves (answers_of G) (earlier G) (ledger_of (db_rows (ap_dbConn a)))"
  shows "core_ok G {} 0 {the_client H} (\<lambda>_. []) a"
  using assms
  by (auto simp: core_ok_def config_ok_def mgr_of_def the_session_def BALSession_def bs_ok_def om_wf_def mgr_ok_new)

lemma open_first:
  "ap_fcmConnectionsMap a = [] \<Longrightarrow> ap_fcmConnCount a = 0 \<Longrightarrow> \<exists>a'. openFcmHandle E a = (Inr (), a')"
  by (simp add: openFcmHandle_def createFcmHandle_def getNextFcmConnectionId_def setupFcmHandle_def inc32_def int32_max_def
      fcm_call_def fcm_run_def connectToFcm_run log_act_def say_def handleFcmConnectionStarted_def monad_defs)

lemma open_keeps_db: "keeps (\<lambda>a. ap_dbConn a = d) (openFcmHandle E)"
proof -
  have "keeps (\<lambda>a. ap_dbConn a = d) (fcm_run i m)" for i m
    by (auto simp: keeps_def fcm_run_def split: option.splits prod.splits)
  then show ?thesis
    unfolding openFcmHandle_def createFcmHandle_def getNextFcmConnectionId_def setupFcmHandle_def fcm_call_def log_act_def
      handleFcmConnectionStarted_def say_def start_timer_def
    by (auto intro!: keeps_intros keeps_forM keeps_modify split: fcm_act.split)
qed

text \<open>The queue of a session holds the undelivered rows of the session.\<close>

definition resumed :: "(int, row) omap \<Rightarrow> string \<Rightarrow> app \<Rightarrow> bool" where
  "resumed rows sid a \<longleftrightarrow> fst ` set (mm_messages (mgr_of sid a)) = fst ` set (pending_rows sid rows)"

lemma thenM_assoc: "thenM (thenM m m1) m2 = thenM m (thenM m1 m2)"
  by (auto simp: thenM_def bindM_def fun_eq_iff split: prod.splits sum.splits)

lemma thenM_ok: "m s = (Inr x, t) \<Longrightarrow> thenM m m' s = m' t"
  by (simp add: thenM_def bindM_def)

lemma thenM_fail: "m s = (Inl f, t) \<Longrightarrow> thenM m m' s = (Inl f, t)"
  by (simp add: thenM_def bindM_def)

text \<open>Reading the configuration and setting up the signals and the server.\<close>

lemma configured:
  assumes "thenM (readConfigFile H) (thenM (setupOsSignalCatcher H) (setupTcpServer H)) a = (r, a')"
  shows "r = Inl Exit \<or> (r = Inr () \<and> ap_dbConn a' = ap_dbConn a \<and>
    ap_balSessionMap a' = om_emplace (the_client H) (BALSession (the_client H) UNAUTHENTICATED) (ap_balSessionMap a) \<and>
    ap_fcmMsgManager a' = ap_fcmMsgManager a \<and> ap_timers a' = ap_timers a \<and> ap_next a' = ap_next a \<and>
    ap_fcmConnectionsMap a' = ap_fcmConnectionsMap a \<and> ap_fcmConnCount a' = ap_fcmConnCount a \<and> ap_sendSlots a' = ap_sendSlots a)"
proof -
  obtain r2 a2 where a2: "readConfigFile H a = (r2, a2)" by fastforce
  have rest: "thenM (setupOsSignalCatcher H) (setupTcpServer H) a2 = (r3, a3) \<Longrightarrow>
      r3 = Inl Exit \<or> (r3 = Inr () \<and> a3 = a2 \<lparr> ap_sigintPipe := 0, ap_sigtermPipe := 0, ap_listening := True \<rparr>)" for r3 a3
    by (auto simp: setupOsSignalCatcher_def setupTcpServer_def exit_if_def monad_defs split: if_splits)
  from readConfigFile_cases [OF a2] show ?thesis
  proof
    assume "r2 = Inl Exit"
    then show ?thesis using assms a2 by (simp add: thenM_fail)
  next
    assume ok: "r2 = Inr () \<and> a2 = a \<lparr> ap_fcmServerId := ini_string H ''FCM_SECTION/server_id'',
     ap_fcmServerKey := ini_string H ''FCM_SECTION/server_key'', ap_fcmPortNo := ini_port H ''FCM_SECTION/port_no'',
     ap_fcmHostAddress := ini_string H ''FCM_SECTION/host_address'', ap_serverPortNo := ini_port H ''SERVER_SECTION/port_no'',
     ap_serverHostAddress := ini_string H ''SERVER_SECTION/host_address'',
     ap_balSessionMap := om_emplace (the_client H) (BALSession (the_client H) UNAUTHENTICATED) (ap_balSessionMap a) \<rparr>"
    then have "thenM (setupOsSignalCatcher H) (setupTcpServer H) a2 = (r, a')" using assms a2 by (simp add: thenM_ok)
    from rest [OF this] ok show ?thesis by auto
  qed
qed

lemma start_cases:
  assumes "config_ok H" and "file_ok (db_rows d)" and "Application E H (app_members h d) = (r, a)"
  shows "r = Inl Exit \<or> (r = Inr () \<and> Inv (Since UNIV (ledger_of (db_rows d))) 0 {the_client H} a \<and> db_rows (ap_dbConn a) = db_rows d \<and>
    ((\<forall>n. \<not> sq_fails E n) \<longrightarrow> resumed (db_rows d) ''fcm'' a \<and> resumed (db_rows d) (the_client H) a))"
proof -
  let ?c = "the_client H" and ?G = "Since UNIV (ledger_of (db_rows d))"
  have c: "?c \<noteq> ''fcm''" "CHR 0x27 \<notin> set ?c" using assms(1) by (simp_all add: config_ok_def)
  obtain r0 d' where d': "DbConnection E d = (r0, d')" by fastforce
  have rows: "db_rows d' = db_rows d" and r0: "r0 = Inl Exit \<or> r0 = Inr ()" using opening_DbConnection [OF d'] by auto
  let ?a0 = "(app_members h d) \<lparr> ap_dbConn := d' \<rparr>"
  let ?conf = "thenM (readConfigFile H) (thenM (setupOsSignalCatcher H) (setupTcpServer H))"
  obtain r1 a1 where a1: "?conf ?a0 = (r1, a1)" by fastforce
  let ?load = "thenM (load_fcm E) (thenM (bindM (gets (\<lambda>a. map fst (ap_balSessionMap a))) (\<lambda>sids. forM sids (load_bal E))) (openFcmHandle E))"
  have app: "Application E H = thenM (on_db (DbConnection E)) (thenM ?conf ?load)"
    by (simp add: Application_def start_def thenM_assoc)
  have db: "on_db (DbConnection E) (app_members h d) = (r0, ?a0)" using d' by (simp add: on_db_def zoom_def app_members_def)
  have r1: "r1 = Inl Exit \<or> (r1 = Inr () \<and> ap_dbConn a1 = d' \<and> ap_balSessionMap a1 = [(?c, BALSession ?c UNAUTHENTICATED)] \<and>
      ap_fcmMsgManager a1 = MessageManager_default ''fcm'' \<and> ap_timers a1 = [] \<and> ap_next a1 = 0 \<and>
      ap_fcmConnectionsMap a1 = [] \<and> ap_fcmConnCount a1 = 0 \<and> ap_sendSlots a1 = [])"
    using configured [OF a1] by (simp add: app_members_def)
  show ?thesis
  proof (cases "r0 = Inr () \<and> r1 = Inr ()")
    case False
    then have "r0 = Inl Exit \<or> (r0 = Inr () \<and> r1 = Inl Exit)" using r0 r1 by auto
    then show ?thesis
      using assms(3) db a1 unfolding app by (auto simp: thenM_ok thenM_fail)
  next
    case True
    have fin: "\<forall>k\<in>fst ` set (db_rows d). int64_min \<le> k \<and> k \<le> int64_max" using assms(2) by (auto simp: file_ok_def row_ok_def)
    have wf: "om_wf (db_rows d)" using assms(2) by (simp add: file_ok_def)
    note op = opened_ok [OF d' [unfolded conjunct1 [OF True]] wf fin]
    have a1f: "ap_dbConn a1 = d'" "ap_balSessionMap a1 = [(?c, BALSession ?c UNAUTHENTICATED)]"
      "ap_fcmMsgManager a1 = MessageManager_default ''fcm''" "ap_timers a1 = []" "ap_next a1 = 0"
      "ap_fcmConnectionsMap a1 = []" "ap_fcmConnCount a1 = 0" "ap_sendSlots a1 = []" using r1 True by auto
    have core: "core_ok ?G {} 0 {?c} (\<lambda>_. []) a1" using core_initial [OF assms(1)] op a1f rows by simp
    have f1: "file_ok (db_rows (ap_dbConn a1))" using assms(2) rows a1f(1) by simp
    have fcm_id: "CHR 0x27 \<notin> set ''fcm''" by simp
    obtain a2 q2 where a2: "load_mgr E ''fcm'' a1 = (Inr (), a2)" "core_ok ?G {} 0 {?c} q2 a2" "\<forall>s. s \<noteq> ''fcm'' \<longrightarrow> q2 s = []"
      "\<not> sq_fails E (db_steps d') \<longrightarrow> fst ` set (q2 ''fcm'') = fst ` set (pending_rows ''fcm'' (db_rows d))"
      "db_rows (ap_dbConn a2) = db_rows d" "ap_fcmConnectionsMap a2 = []" "ap_fcmConnCount a2 = 0" "ap_sendSlots a2 = []"
      "map fst (ap_balSessionMap a2) = [?c]"
      using load_mgr_step [where E = E, OF core f1 insertI1 refl fcm_id]
      unfolding a1f(1) rows a1f(2,6-8) by (elim exE conjE) (rule that, simp_all)
    have f2: "file_ok (db_rows (ap_dbConn a2))" using assms(2) a2(5) by simp
    have c2: "?c \<in> insert ''fcm'' {?c}" "q2 ?c = []" using a2(3) c(1) by simp_all
    obtain a3 q3 where a3: "load_mgr E ?c a2 = (Inr (), a3)" "core_ok ?G {} 0 {?c} q3 a3" "\<forall>s. s \<noteq> ?c \<longrightarrow> q3 s = q2 s"
      "\<not> sq_fails E (db_steps (ap_dbConn a2)) \<longrightarrow> fst ` set (q3 ?c) = fst ` set (pending_rows ?c (db_rows d))"
      "db_rows (ap_dbConn a3) = db_rows d" "ap_fcmConnectionsMap a3 = []" "ap_fcmConnCount a3 = 0" "ap_sendSlots a3 = []"
      using load_mgr_step [where E = E, OF a2(2) f2 c2 c(2)]
      unfolding a2(5-8) by (elim exE conjE) (rule that, simp_all)
    obtain a4 where a4: "openFcmHandle E a3 = (Inr (), a4)" using open_first [OF a3(6,7)] by blast
    have ok: "app_ok ?G {} 0 {?c} q3 a4"
      using hoareD_ok [OF runs_open [of ?G 0 "{?c}" "{}" q3 E, unfolded runs_def] _ a4] a3 by simp
    have final: "Application E H (app_members h d) = (Inr (), a4)"
    proof -
      have "thenM ?conf ?load ?a0 = ?load a1" using a1 True by (simp add: thenM_ok)
      also have "\<dots> = thenM (bindM (gets (\<lambda>a. map fst (ap_balSessionMap a))) (\<lambda>sids. forM sids (load_bal E))) (openFcmHandle E) a2"
        using a2(1) by (simp add: thenM_ok load_mgr_eq(1))
      also have "\<dots> = openFcmHandle E a3"
      proof (rule thenM_ok)
        show "bindM (gets (\<lambda>a. map fst (ap_balSessionMap a))) (\<lambda>sids. forM sids (load_bal E)) a2 = (Inr (), a3)"
          using a2(9) a3(1) load_mgr_eq(2) [OF c(1)] by (simp add: bindM_def gets_def thenM_def ret_def)
      qed
      finally show ?thesis using db True a4 unfolding app by (simp add: thenM_ok)
    qed
    note qs = core_okD(10) [OF app_ok_core [OF ok]]
    have "db_rows (ap_dbConn a4) = db_rows d"
      using keepsD [OF open_keeps_db, of _ "ap_dbConn a3" E, OF _ a4] a3(5) by simp
    moreover have "resumed (db_rows d) ''fcm'' a4" "resumed (db_rows d) ?c a4" if "\<forall>n. \<not> sq_fails E n"
      using that qs [of "''fcm''"] qs [of ?c] a2(4) a3(3,4) c(1) by (auto simp: resumed_def)
    ultimately show ?thesis using final assms(3) ok by (auto intro: app_ok_Inv)
  qed
qed

end
