(* ===== verification/App_Run.thy ===== *)
theory App_Run
  imports App_Start
begin

text \<open>
  The running program: the table stays one a restart can read, and the invariant holds in every
  state an event can leave.  The interface \<open>event_loop\<close> states what an invariant of a program
  driven by events is, \<open>restartable_loop\<close> adds stops and starts, and \<open>refined_loop\<close> an abstraction under
  which every reaction is a run of a specification; the application interprets them.
\<close>

section \<open>The table stays readable\<close>

definition row_fits :: "row \<Rightarrow> bool" where
  "row_fits r \<longleftrightarrow> fits32 (r_type r) \<and> fits32 (r_state r) \<and> r_fcm_message_id r \<noteq> None \<and>
     r_entered_datetime r \<noteq> None \<and> r_last_update r \<noteq> None"

definition table_ok :: "app \<Rightarrow> bool" where
  "table_ok a \<longleftrightarrow> (\<forall>e\<in>set (db_rows (ap_dbConn a)). row_fits (snd e))"

definition msg_fits :: "message \<Rightarrow> bool" where
  "msg_fits x \<longleftrightarrow> fits32 (MessageType_code (msg_type x)) \<and> fits32 (MessageState_code (msg_state x))"

lemma fits_codes [simp]:
  "fits32 0" "fits32 1" "fits32 2" "fits32 3" "fits32 4" "fits32 5" "fits32 6" "fits32 7"
  by (simp_all add: fits32_def int_lims)

lemma file_ok_table: "file_ok (db_rows (ap_dbConn a)) \<Longrightarrow> table_ok a"
  by (auto simp: file_ok_def table_ok_def row_ok_def row_fits_def)

lemma table_file: "table_ok a \<Longrightarrow> db_ok (ap_dbConn a) \<Longrightarrow> file_ok (db_rows (ap_dbConn a))"
  by (fastforce simp: file_ok_def table_ok_def row_ok_def row_fits_def db_ok_def)

lemma table_frame [keeps_intros]:
  "keeps table_ok (on_db getNextSequenceId)" "keeps table_ok (on_fcm_mgr m2)"
  "keeps table_ok (on_bal_mgr sid m2)" "keeps table_ok (on_msg p m3)" "keeps table_ok (new_msg f)"
  "keeps table_ok (write_session E sess j)" "keeps table_ok (start_timer ms t)" "keeps table_ok (fcm_run i m4)"
  "keeps table_ok (payload_of p)" "keeps table_ok (findBalSession sid)" "keeps table_ok (findBalMessageManager sid)"
  "keeps table_ok (say txt)" "keeps table_ok (set_state p st)" "keeps table_ok (set_retry p b)" "keeps table_ok (print_msg E p)"
  by (auto simp: on_db_def on_fcm_mgr_def on_bal_mgr_def on_msg_def write_session_def put_session_def set_state_def set_retry_def
      start_timer_def payload_of_def findBalSession_def findBalMessageManager_def new_msg_def fcm_run_def say_def
      getNextSequenceId_def print_msg_def keeps_def table_ok_def
      zoom_def modify_def getsE_def bindM_def ret_def split: option.splits prod.splits sum.splits if_splits)

lemma om_store_values: "e \<in> set (om_store k w rows) \<Longrightarrow> snd e = w \<or> e \<in> set rows"
  by (induction k w rows rule: om_store.induct) (auto split: if_splits)

lemma table_update [keeps_intros]:
  assumes "fits32 (MessageState_code st)"
  shows "keeps table_ok (update_msg E p st)"
proof -
  have "keeps table_ok (on_db (updateMsgState E msg st))" for msg
    unfolding on_db_def
  proof (rule keeps_zoom)
    fix a r d
    assume ok: "table_ok a" and run: "updateMsgState E msg st (ap_dbConn a) = (r, d)"
    have "row_fits (snd e)" if "e \<in> set (db_rows d)" for e
    proof (cases "om_find (db_rows (ap_dbConn a)) (msg_sequenceId msg)")
      case None
      with run ok that show ?thesis
        by (auto simp: updateMsgState_def sq_call_def monad_defs table_ok_def split: if_splits)
    next
      case (Some v)
      have "row_fits v" using ok om_find_in_set [OF Some] by (fastforce simp: table_ok_def)
      then have new: "row_fits (update_row (MessageState_code st) t v)" for t
        using assms by (simp add: row_fits_def update_row_def)
      have "\<exists>t. e \<in> set (om_store (msg_sequenceId msg) (update_row (MessageState_code st) t v) (db_rows (ap_dbConn a)))
          \<or> e \<in> set (db_rows (ap_dbConn a))"
        using run Some that by (auto simp: updateMsgState_def sq_call_def monad_defs split: if_splits)
      then show ?thesis using new ok om_store_values by (fastforce simp: table_ok_def)
    qed
    then show "table_ok (a \<lparr> ap_dbConn := d \<rparr>)" by (simp add: table_ok_def)
  qed
  then show ?thesis unfolding update_msg_def by (intro keeps_intros)
qed

lemma saved_row: "saveMsg E x d = (r, d') \<Longrightarrow> e \<in> set (db_rows d') \<Longrightarrow>
    e \<in> set (db_rows d) \<or> (\<exists>n j. snd e = bound_row E n x j)"
  by (fastforce simp: saveMsg_def sq_call_def monad_defs om_emplace_set split: option.splits if_splits)

lemma print_then: "thenM (print_msg E p) m a = (case message_print E (ap_heap a p) of Inl e \<Rightarrow> (Inl e, a) | Inr _ \<Rightarrow> m a)"
  by (auto simp: print_msg_def getsE_def thenM_def bindM_def ret_def split: sum.splits)

text \<open>A message is saved right after it is made.\<close>

lemma table_new_saved [keeps_intros]:
  assumes "\<And>p. msg_fits (f p)" and "\<And>p. keeps table_ok (m p)"
  shows "keeps table_ok (bindM (new_msg f) (\<lambda>p. thenM (save_msg E p) (m p)))"
    and "keeps table_ok (bindM (new_msg f) (\<lambda>p. thenM (print_msg E p) (thenM (save_msg E p) (m p))))"
proof -
  have save: "table_ok a'" if "table_ok a" "msg_fits (ap_heap a p)" "save_msg E p a = (r, a')" for a p r a'
  proof -
    from that(3) obtain d where d: "saveMsg E (ap_heap a p) (ap_dbConn a) = (r, d)" "a' = a \<lparr> ap_dbConn := d \<rparr>"
      by (auto simp: save_msg_def on_db_def bindM_def gets_def zoom_def split: prod.splits)
    have "row_fits (bound_row E n (ap_heap a p) j)" for n j
      using that(2) by (simp add: row_fits_def bound_row_def msg_fits_def)
    then show ?thesis using saved_row [OF d(1)] that(1) d(2) by (fastforce simp: table_ok_def)
  qed
  have rest: "table_ok (snd (thenM (save_msg E p) (m p) a))" if "table_ok a" "msg_fits (ap_heap a p)" for a p
  proof -
    obtain r a' where s: "save_msg E p a = (r, a')" by fastforce
    with save [OF that s] assms(2) [of p] show ?thesis by (cases r) (auto simp: thenM_def bindM_def keeps_def)
  qed
  have new: "table_ok (a \<lparr> ap_heap := h, ap_next := k \<rparr>) = table_ok a" for a h k by (simp add: table_ok_def)
  show "keeps table_ok (bindM (new_msg f) (\<lambda>p. thenM (save_msg E p) (m p)))"
    using rest assms(1) by (auto simp: keeps_def bindM_def [of "new_msg f"] new_msg_def new)
  show "keeps table_ok (bindM (new_msg f) (\<lambda>p. thenM (print_msg E p) (thenM (save_msg E p) (m p))))"
    using rest assms(1) by (auto simp: keeps_def print_then bindM_def [of "new_msg f"] new_msg_def new split: sum.splits)
qed

section \<open>Every handler keeps the table readable\<close>

lemma table_send [keeps_intros]: "keeps table_ok (sendMessage E j)" "keeps table_ok (uploadToFcm E p)" "keeps table_ok (log_act i x)"
proof -
  have log: "keeps table_ok (log_act i x)" for i x
    unfolding log_act_def by (auto intro!: keeps_intros keeps_modify simp: table_ok_def split: fcm_act.split)
  then show "keeps table_ok (log_act i x)" .
  show send: "keeps table_ok (sendMessage E j)" for j
    unfolding sendMessage_def fcm_call_def by (auto intro!: keeps_intros keeps_forM log)
  show "keeps table_ok (uploadToFcm E p)" unfolding uploadToFcm_def by (intro keeps_intros send)
qed

lemma table_send_next [keeps_intros]:
  "keeps table_ok (sendNextPendingDownstreamMessage E)" "keeps table_ok (sendNextPendingUpstreamMessage E sid)"
  unfolding sendNextPendingDownstreamMessage_def sendNextPendingUpstreamMessage_def
  by (auto intro!: keeps_intros split: option.split)

lemma table_forward [keeps_intros]: "keeps table_ok (forwardMsg E sid p)" "keeps table_ok (forwardMsgToBalsession E sid p)"
  unfolding forwardMsgToBalsession_def forwardMsg_def by (auto intro!: keeps_intros)

lemma fits_new [simp]: "fits32 (MessageType_code t) \<Longrightarrow> msg_fits (Message_new E p s t f g src tgt j NEW)"
  by (simp add: msg_fits_def Message_new_def)

lemma table_notify [keeps_intros]: "keeps table_ok (notifyDownstreamUploadFailure E p)"
  unfolding notifyDownstreamUploadFailure_def Let_def by (auto intro!: keeps_intros simp: msg_fits_def)

lemma table_retry [keeps_intros]:
  "keeps table_ok (retryDownstreamWithExponentialBackoff E p)" "keeps table_ok (retryUpstreamWithExponentialBackoff E p)"
  unfolding retryDownstreamWithExponentialBackoff_def retryUpstreamWithExponentialBackoff_def Let_def
  by (auto intro!: keeps_intros)

lemma table_for_queue: "(\<And>p. keeps table_ok (body p)) \<Longrightarrow> keeps table_ok (for_queue mgr body)"
  unfolding for_queue_def by (auto intro!: keeps_intros keeps_forM)

lemma table_resend [keeps_intros]:
  "keeps table_ok (resendPendingUpstreamMessages E sid)" "keeps table_ok (resendAllPendingDownstreamMessages E)"
  unfolding resendPendingUpstreamMessages_def resendAllPendingDownstreamMessages_def resend_upstream_def resend_downstream_def
  by (auto intro!: table_for_queue keeps_intros)

lemma table_open [keeps_intros]: "keeps table_ok (openFcmHandle E)"
  using open_keeps_db [of _ E] by (fastforce simp: keeps_def table_ok_def)

lemma table_slot: "keeps table_ok (fcm_slot E what s)"
proof -
  have up: "keeps table_ok (handleFcmNewUpstreamMessage E i j)" for i j
    unfolding handleFcmNewUpstreamMessage_def sendFcmAckMessage_def Let_def by (auto intro!: keeps_intros)
  have receipt: "keeps table_ok (handleFcmReceiptMessage E i j)" for i j
    unfolding handleFcmReceiptMessage_def Let_def by (auto intro!: keeps_intros simp: msg_fits_def)
  have ack: "keeps table_ok (handleFcmAckMessage E i j)" for i j
    unfolding handleFcmAckMessage_def Let_def by (auto intro!: keeps_intros)
  have nack: "keeps table_ok (handleFcmNackMessage E i j)" for i j
    unfolding handleFcmNackMessage_def Let_def by (auto intro!: keeps_intros)
  have drain: "keeps table_ok (handleFcmConnectionDrainingStarted E i)" for i
    unfolding handleFcmConnectionDrainingStarted_def by (auto intro!: keeps_intros keeps_modify simp: table_ok_def)
  note says = handleFcmConnectionStarted_def handleFcmConnectionEstablished_def handleFcmConnectionShutdownStarted_def
    handleFcmConnectionShutdownCompleted_def handleFcmConnectionLost_def handleFcmXmppHandshakeStarted_def
    handleFcmStreamClosed_def handleFcmHeartbeatRecieved_def handleFcmConnectionError_def handleFcmSessionEstablished_def
  show ?thesis by (cases s) (simp_all add: says keeps_intros up receipt ack nack drain)
qed

lemma table_event_at [keeps_intros]: "keeps table_ok (fcm_event_at E what i m)"
  unfolding fcm_event_at_def deliver_def
  by (auto intro!: keeps_intros keeps_forM table_slot split: fcm_act.split)

lemma table_balmsg [keeps_intros]: "keeps table_ok (handleBALmsg E s j)"
  unfolding handleBALmsg_def handleBalLogonRequest_def handleBalDownstreamUploadRequest_def handleBalAckMsg_def Let_def
  by (auto intro!: keeps_intros keeps_modify simp: table_ok_def put_session_def split: option.split)

lemma table_read_loop [keeps_intros]: "keeps table_ok (bal_read_loop k E s)"
proof (induction k)
  case (Suc k)
  have "keeps table_ok (modify (\<lambda>a. a \<lparr> ap_inbuf := (ap_inbuf a)(s := rest) \<rparr>))" for rest
    by (rule keeps_modify) (simp add: table_ok_def)
  with Suc show ?case by (auto intro!: keeps_intros split: option.split)
qed (simp add: keeps_intros)

lemma table_handle: "keeps table_ok (app_handle E what fuel X ev)"
proof (cases ev)
  case (ATimer k)
  have "keeps table_ok (timer_fires E what t)" for t
    by (cases t) (auto intro!: keeps_intros keeps_modify simp: handleBalAuthenticationTimeout_def table_ok_def)
  then show ?thesis using ATimer by (auto intro!: keeps_intros keeps_modify simp: table_ok_def)
qed (auto simp: hupSignalHandler_def termSignalHandler_def handleSigInt_def handleSigTerm_def handleNewBALConnection_def
    handleBALSocketReadyRead_def handleBALSocketDisconnected_def table_ok_def put_session_def
    intro!: keeps_intros keeps_modify split: option.split)

section \<open>Programs driven by events\<close>

text \<open>
  A program in a world \<open>w\<close>: where it starts, how it reacts to an event, the states it reaches.  The
  laws: the start establishes the invariant, a reaction keeps it, and a reaction fails only
  harmlessly.
\<close>

locale event_loop =
  fixes ok :: "'w \<Rightarrow> bool"
    and boots :: "'w \<Rightarrow> 's \<Rightarrow> bool"
    and react :: "'w \<Rightarrow> 'e \<Rightarrow> ('s, unit) M"
    and reach :: "'w \<Rightarrow> 's \<Rightarrow> bool"
    and inv :: "'w \<Rightarrow> 's \<Rightarrow> bool"
    and harmless :: "fault \<Rightarrow> bool"
  assumes boot_law: "ok w \<Longrightarrow> boots w s \<Longrightarrow> inv w s"
    and react_law: "ok w \<Longrightarrow> hoare (inv w) (react w ev) (\<lambda>_. inv w) (\<lambda>f s. harmless f \<and> (\<forall>e. f = Throw e \<longrightarrow> inv w s))"
    and reach_law: "reach w s \<Longrightarrow> (\<And>s. boots w s \<Longrightarrow> P s) \<Longrightarrow>
      (\<And>s ev t. P s \<Longrightarrow> react w ev s = (Inr (), t) \<Longrightarrow> P t) \<Longrightarrow> P s"
begin

lemma reach_inv: "ok w \<Longrightarrow> reach w s \<Longrightarrow> inv w s"
  by (erule reach_law) (auto intro: boot_law dest: hoareD_ok [OF react_law])

lemma reach_harmless: "ok w \<Longrightarrow> reach w s \<Longrightarrow> react w ev s = (Inl f, t) \<Longrightarrow> harmless f"
  using hoareD_fail [OF react_law] reach_inv by blast

lemma reach_throw: "ok w \<Longrightarrow> reach w s \<Longrightarrow> react w ev s = (Inl (Throw e), t) \<Longrightarrow> inv w t"
  using hoareD_fail [OF react_law] reach_inv by blast

end

text \<open>A program that can be started again in the world a crash leaves behind, \<open>crashed x s w\<close>; \<open>x\<close> is
  what the crash leaves to chance.\<close>

locale restartable_loop = event_loop +
  fixes crashed :: "'x \<Rightarrow> 's \<Rightarrow> 'w \<Rightarrow> 'w" and life :: "'w \<Rightarrow> 'w \<Rightarrow> bool"
  assumes crash_law: "ok w \<Longrightarrow> inv w s \<Longrightarrow> ok (crashed x s w)"
    and life_law: "life w0 w \<Longrightarrow> P w0 \<Longrightarrow>
      (\<And>w s x. P w \<Longrightarrow> reach w s \<Longrightarrow> P (crashed x s w)) \<Longrightarrow>
      (\<And>w s ev e t x. P w \<Longrightarrow> reach w s \<Longrightarrow> react w ev s = (Inl (Throw e), t) \<Longrightarrow> P (crashed x t w)) \<Longrightarrow> P w"
begin

lemma life_ok: "ok w0 \<Longrightarrow> life w0 w \<Longrightarrow> ok w"
  by (erule life_law) (auto intro: crash_law reach_inv reach_throw)

lemma life_inv: "ok w0 \<Longrightarrow> life w0 w \<Longrightarrow> reach w s \<Longrightarrow> inv w s"
  using life_ok reach_inv by blast

end

text \<open>Such a program implements a specification: its state and what it stores abstract to a state of the
  specification, and a reaction is a sequence of steps there, even one that an exception ends.\<close>

locale refined_loop = restartable_loop +
  fixes abs :: "'s \<Rightarrow> 'g" and stored :: "'w \<Rightarrow> 'g" and step :: "'g \<Rightarrow> 'g \<Rightarrow> bool"
  assumes boot_abs: "ok w \<Longrightarrow> boots w s \<Longrightarrow> abs s = stored w"
    and react_abs: "ok w \<Longrightarrow> inv w s \<Longrightarrow> react w ev s = (r, t) \<Longrightarrow> r = Inr () \<or> (\<exists>e. r = Inl (Throw e)) \<Longrightarrow>
      step\<^sup>*\<^sup>* (abs s) (abs t)"
    and crash_abs: "stored (crashed x s w) = abs s"
begin

lemma reach_refines:
  assumes "ok w" and "reach w s"
  shows "step\<^sup>*\<^sup>* (stored w) (abs s)"
proof -
  have "inv w s \<and> step\<^sup>*\<^sup>* (stored w) (abs s)"
    using assms(2)
  proof (rule reach_law)
    show "inv w s \<and> step\<^sup>*\<^sup>* (stored w) (abs s)" if "boots w s" for s
      using boot_law boot_abs that assms(1) by simp
    show "inv w t \<and> step\<^sup>*\<^sup>* (stored w) (abs t)" if "inv w s \<and> step\<^sup>*\<^sup>* (stored w) (abs s)" "react w ev s = (Inr (), t)" for s ev t
      using hoareD_ok [OF react_law [OF assms(1)] _ that(2)] react_abs [OF assms(1) _ that(2)] that(1)
      by (auto intro: rtranclp_trans)
  qed
  then show ?thesis ..
qed

lemma life_refines: "ok w0 \<Longrightarrow> life w0 w \<Longrightarrow> step\<^sup>*\<^sup>* (stored w0) (stored w)"
proof -
  assume ok: "ok w0" and life: "life w0 w"
  have "ok w \<and> step\<^sup>*\<^sup>* (stored w0) (stored w)"
    using life
  proof (rule life_law)
    show "ok (crashed x s w) \<and> step\<^sup>*\<^sup>* (stored w0) (stored (crashed x s w))"
      if "ok w \<and> step\<^sup>*\<^sup>* (stored w0) (stored w)" "reach w s" for w s x
      using that reach_refines [of w s] reach_inv [of w s] by (auto simp: crash_abs intro: crash_law rtranclp_trans)
    show "ok (crashed x t w) \<and> step\<^sup>*\<^sup>* (stored w0) (stored (crashed x t w))"
      if w: "ok w \<and> step\<^sup>*\<^sup>* (stored w0) (stored w)" "reach w s" "react w ev s = (Inl (Throw e), t)" for w s ev e t x
    proof -
      have "step\<^sup>*\<^sup>* (abs s) (abs t)" using react_abs [OF _ _ w(3)] reach_inv [of w s] w(1,2) by simp
      moreover have "step\<^sup>*\<^sup>* (stored w) (abs s)" using reach_refines w(1,2) by simp
      moreover have "ok (crashed x t w)" using crash_law reach_throw [OF _ w(2,3)] w(1) by simp
      ultimately show ?thesis using w(1) by (simp add: crash_abs) (meson rtranclp_trans)
    qed
  qed (simp add: ok)
  then show ?thesis ..
qed

lemma run_refines: "ok w0 \<Longrightarrow> life w0 w \<Longrightarrow> reach w s \<Longrightarrow> step\<^sup>*\<^sup>* (stored w0) (abs s)"
  using life_refines reach_refines [of w s] life_ok by (meson rtranclp_trans)

end

section \<open>The application in its world\<close>

text \<open>What the process finds: the outside code, the texts of its exceptions, the fuel of the reader's
  loops, the reader, the machine, the memory and the database file.\<close>

record world =
  wo_env :: env
  wo_what :: "exn \<Rightarrow> string"
  wo_fuel :: "nat \<Rightarrow> nat"
  wo_xml :: xml_api
  wo_host :: host
  wo_memory :: heap
  wo_file :: db

definition world_ok :: "world \<Rightarrow> bool" where
  "world_ok w \<longleftrightarrow> platform_ok (wo_env w) (wo_fuel w) (wo_xml w) \<and> config_ok (wo_host w) \<and> file_ok (db_rows (wo_file w))"

definition app_boots :: "world \<Rightarrow> app \<Rightarrow> bool" where
  "app_boots w a \<longleftrightarrow> Application (wo_env w) (wo_host w) (app_members (wo_memory w) (wo_file w)) = (Inr (), a)"

definition app_reacts :: "world \<Rightarrow> app_event \<Rightarrow> (app, unit) M" where
  "app_reacts w = app_handle (wo_env w) (wo_what w) (wo_fuel w) (wo_xml w)"

definition app_reaches :: "world \<Rightarrow> app \<Rightarrow> bool" where
  "app_reaches w = app_reach (wo_env w) (wo_what w) (wo_fuel w) (wo_xml w) (wo_host w) (wo_memory w) (wo_file w)"

text \<open>The sessions of the program, and the invariant.\<close>

definition sessions :: "world \<Rightarrow> string set" where
  "sessions w = {''fcm'', the_client (wo_host w)}"

definition sys_inv :: "world \<Rightarrow> app \<Rightarrow> bool" where
  "sys_inv w a \<longleftrightarrow> Inv (Since UNIV (ledger_of (db_rows (wo_file w)))) 0 {the_client (wo_host w)} a \<and> table_ok a"

text \<open>The process ends, at once or by an exception out of a slot, and is started on the file it left.\<close>

definition crashed :: "heap \<Rightarrow> app \<Rightarrow> world \<Rightarrow> world" where
  "crashed h a w = w \<lparr> wo_memory := h, wo_file := ap_dbConn a \<rparr>"

inductive life :: "world \<Rightarrow> world \<Rightarrow> bool" for w0 where
  first: "life w0 w0"
| crash: "life w0 w \<Longrightarrow> app_reaches w a \<Longrightarrow> life w0 (crashed h a w)"
| uncaught: "life w0 w \<Longrightarrow> app_reaches w a \<Longrightarrow> app_reacts w ev a = (Inl (Throw e), a') \<Longrightarrow> life w0 (crashed h a' w)"

lemma sys_react:
  assumes "world_ok w"
  shows "hoare (sys_inv w) (app_reacts w ev) (\<lambda>_. sys_inv w) (\<lambda>f s. benign f \<and> (\<forall>e. f = Throw e \<longrightarrow> sys_inv w s))"
proof -
  let ?G = "Since UNIV (ledger_of (db_rows (wo_file w)))"
  have p: "hoare (Inv ?G 0 {the_client (wo_host w)}) (app_reacts w ev) (\<lambda>_. Inv ?G 0 {the_client (wo_host w)})
      (\<lambda>f a. benign f \<and> (\<forall>e. f = Throw e \<longrightarrow> Inv ?G 0 {the_client (wo_host w)} a))"
    using runs_app_handle [of "wo_env w" "wo_fuel w" "wo_xml w" ?G] assms by (simp add: runs_def world_ok_def app_reacts_def)
  have t: "table_ok s \<Longrightarrow> app_reacts w ev s = (r, t) \<Longrightarrow> table_ok t" for s r t
    unfolding app_reacts_def using keepsD [OF table_handle] by blast
  show ?thesis
  proof (rule hoareI)
    fix s f s'
    assume pre: "sys_inv w s" and run: "app_reacts w ev s = (Inl f, s')"
    have "table_ok s'" by (rule t [OF _ run]) (use pre in \<open>simp add: sys_inv_def\<close>)
    with hoareD_fail [OF p _ run] pre show "benign f \<and> (\<forall>e. f = Throw e \<longrightarrow> sys_inv w s')" by (simp add: sys_inv_def)
  next
    fix s x s'
    assume pre: "sys_inv w s" and run: "app_reacts w ev s = (Inr x, s')"
    have "table_ok s'" by (rule t [OF _ run]) (use pre in \<open>simp add: sys_inv_def\<close>)
    with hoareD_ok [OF p _ run] pre show "sys_inv w s'" by (simp add: sys_inv_def)
  qed
qed

lemma sys_boot:
  assumes "world_ok w" and "app_boots w a"
  shows "sys_inv w a"
proof -
  have "Inv (Since UNIV (ledger_of (db_rows (wo_file w)))) 0 {the_client (wo_host w)} a" "db_rows (ap_dbConn a) = db_rows (wo_file w)"
    using start_cases [of "wo_host w" "wo_file w" "wo_env w" "wo_memory w" "Inr ()" a] assms
    unfolding world_ok_def platform_ok_def app_boots_def by simp_all
  then show ?thesis using file_ok_table [of a] assms(1) by (simp add: sys_inv_def world_ok_def)
qed

lemma sys_crash: "world_ok w \<Longrightarrow> sys_inv w a \<Longrightarrow> world_ok (crashed h a w)"
  using table_file [of a] core_okD(1) [OF app_ok_core]
  by (auto simp: world_ok_def sys_inv_def crashed_def Inv_def)

interpretation gimmm: restartable_loop world_ok app_boots app_reacts app_reaches sys_inv benign crashed life
proof unfold_locales
  show "P s" if "app_reaches w s" "\<And>s. app_boots w s \<Longrightarrow> P s"
      "\<And>s ev t. P s \<Longrightarrow> app_reacts w ev s = (Inr (), t) \<Longrightarrow> P t" for w s P
    using that(1) unfolding app_reaches_def
    by (induction rule: app_reach.induct) (use that(2,3) in \<open>auto simp: app_boots_def app_reacts_def\<close>)
  show "P w" if "life w0 w" "P w0" "\<And>w s x. P w \<Longrightarrow> app_reaches w s \<Longrightarrow> P (crashed x s w)"
      "\<And>w s ev e t x. P w \<Longrightarrow> app_reaches w s \<Longrightarrow> app_reacts w ev s = (Inl (Throw e), t) \<Longrightarrow> P (crashed x t w)" for w0 w P
    using that(1) by (induction rule: life.induct) (use that(2-4) in blast)+
qed (rule sys_boot sys_react sys_crash; assumption)+

text \<open>The program implements the ledger.\<close>

definition ledger :: "app \<Rightarrow> ledger" where
  "ledger a = ledger_of (db_rows (ap_dbConn a))"

lemma Inv_rebase: "Inv G n S a \<Longrightarrow> Inv (Since Y (ledger a)) n S a"
  by (auto simp: Inv_def app_ok_def core_ok_def ledger_def)

lemma Inv_evolves: "Inv G n S a \<Longrightarrow> evolves (answers_of G) (earlier G) (ledger a)"
  by (auto simp: Inv_def ledger_def dest: app_ok_core core_okD(14))

definition answered :: "world \<Rightarrow> app_event \<Rightarrow> app \<Rightarrow> answers" where
  "answered w ev a = event_answers (wo_env w) (wo_fuel w) (wo_xml w) ev a"

lemma react_evolves:
  assumes "world_ok w" and "Inv G 0 {the_client (wo_host w)} a" and "app_reacts w ev a = (r, a')"
    and "r = Inr () \<or> (\<exists>e. r = Inl (Throw e))"
  shows "evolves (answered w ev a) (ledger a) (ledger a')"
proof -
  let ?G = "Since (answered w ev a) (ledger a)" and ?S = "{the_client (wo_host w)}"
  have p: "runs ?G 0 ?S (\<lambda>a'. Inv ?G 0 ?S a' \<and> answered w ev a' \<subseteq> answers_of ?G) (app_reacts w ev) (\<lambda>_. Inv ?G 0 ?S)"
    using runs_app_handle [of "wo_env w" "wo_fuel w" "wo_xml w" ?G] assms(1) by (simp add: world_ok_def app_reacts_def answered_def)
  have pre: "Inv ?G 0 ?S a \<and> answered w ev a \<subseteq> answers_of ?G" using Inv_rebase [OF assms(2)] by simp
  have "Inv ?G 0 ?S a'"
    using hoareD_ok [OF p [unfolded runs_def] pre] hoareD_fail [OF p [unfolded runs_def] pre] assms(3,4) by auto
  from Inv_evolves [OF this] show ?thesis by simp
qed

interpretation spec: refined_loop world_ok app_boots app_reacts app_reaches sys_inv benign crashed life
    ledger "\<lambda>w. ledger_of (db_rows (wo_file w))" "ledger_step UNIV"
proof unfold_locales
  show "ledger a = ledger_of (db_rows (wo_file w))" if "world_ok w" "app_boots w a" for w a
    using start_cases [of "wo_host w" "wo_file w" "wo_env w" "wo_memory w" "Inr ()" a] that
    by (simp add: ledger_def world_ok_def platform_ok_def app_boots_def)
  show "evolves UNIV (ledger a) (ledger a')" if "world_ok w" "sys_inv w a" "app_reacts w ev a = (r, a')"
      "r = Inr () \<or> (\<exists>e. r = Inl (Throw e))" for w a ev r a'
    using evolves_mono [OF react_evolves [OF that(1) _ that(3,4)] subset_UNIV] that(2) unfolding sys_inv_def by blast
qed (simp add: crashed_def ledger_def)

lemma sys_invE:
  assumes "world_ok w0" and "life w0 w" and "app_reaches w a"
  obtains G q where "app_ok G {} 0 {the_client (wo_host w)} q a" and "table_ok a" and "world_ok w"
  using gimmm.life_inv [OF assms] gimmm.life_ok [OF assms(1,2)] by (auto simp: sys_inv_def Inv_def)

lemma life_react_evolves:
  assumes "world_ok w0" and "life w0 w" and "app_reaches w a" and "app_reacts w ev a = (r, a')"
    and "r = Inr () \<or> (\<exists>e. r = Inl (Throw e))"
  shows "evolves (answered w ev a) (ledger a) (ledger a')"
  using gimmm.life_inv [OF assms(1-3)] react_evolves [OF gimmm.life_ok [OF assms(1,2)] _ assms(4,5)]
  unfolding sys_inv_def by blast

lemma life_react_settles:
  assumes "world_ok w0" and "life w0 w" and "app_reaches w a" and "app_reacts w ev a = (r, a')"
    and "r = Inr () \<or> (\<exists>e. r = Inl (Throw e))" and "om_find (db_rows (ap_dbConn a)) k = Some x" and "r_state x \<in> {1, 2}"
    and "om_find (db_rows (ap_dbConn a')) k = Some x'" and "r_state x' \<notin> {1, 2}"
  shows "\<exists>e. en_target e = r_target_session x \<and> en_fcm_id e = r_fcm_message_id x \<and> (k, e, phase_of (r_state x')) \<in> answered w ev a"
proof -
  obtain e where e: "continues (entry_of x) e" "(k, e, en_phase (entry_of x')) \<in> answered w ev a"
    using evolves_settles [OF life_react_evolves [OF assms(1-5)], of k "entry_of x" "entry_of x'"] assms(6-9)
    by (auto simp: ledger_def ledger_of_def)
  from e(1) have "en_target e = r_target_session x \<and> en_fcm_id e = r_fcm_message_id x"
    by (cases e) (auto simp: continues_def entry_of_def)
  with e(2) show ?thesis by (auto simp: entry_of_def)
qed

text \<open>Where the answer for a row with target \<open>t\<close> and FCM id \<open>f\<close> comes from.\<close>

definition acked_by_fcm :: "world \<Rightarrow> app_event \<Rightarrow> app \<Rightarrow> string option \<Rightarrow> bool" where
  "acked_by_fcm w ev a f \<longleftrightarrow> (\<exists>i bytes i' j. ev = AFcmReadyRead i bytes \<and>
     newAckMessage i' j \<in> fcm_signals i (fcm_readyRead (wo_env w) (wo_fuel w) (wo_xml w) bytes) a \<and>
     names_fcm (j_string (doc_object j) F_MESSAGE_ID) f)"

definition nacked_by_fcm :: "world \<Rightarrow> app_event \<Rightarrow> app \<Rightarrow> string option \<Rightarrow> bool" where
  "nacked_by_fcm w ev a f \<longleftrightarrow> (\<exists>i bytes i' j. ev = AFcmReadyRead i bytes \<and>
     newNackMessage i' j \<in> fcm_signals i (fcm_readyRead (wo_env w) (wo_fuel w) (wo_xml w) bytes) a \<and>
     \<not> retriable_nack (j_string (doc_object j) F_ERROR) \<and> names_fcm (j_string (doc_object j) F_MESSAGE_ID) f)"

definition acked_by_bal :: "world \<Rightarrow> app_event \<Rightarrow> app \<Rightarrow> int \<Rightarrow> bool" where
  "acked_by_bal w ev a k \<longleftrightarrow> (\<exists>s bytes j. ev = ABalReadyRead s bytes \<and> buffered (wo_env w) (ap_inbuf a s @ bytes) j \<and>
     j_string (doc_object j) G_MESSAGE_TYPE = ''ACK'' \<and> j_int (wo_env w) (doc_object j) G_SEQUENCE_ID = k)"

lemma answered_cases:
  assumes "(k, e, phase_of st) \<in> answered w ev a"
  shows "if en_target e = ''fcm''
    then st = MessageState_code DELIVERED \<and> acked_by_fcm w ev a (en_fcm_id e) \<or>
      st = MessageState_code DELIVERY_FAILED \<and> nacked_by_fcm w ev a (en_fcm_id e)
    else st = MessageState_code DELIVERED \<and> acked_by_bal w ev a k"
proof -
  have ph: "st = 3" if "phase_of st = Delivered" using that by (auto simp: phase_of_def split: if_splits)
  have pf: "st = 4" if "phase_of st = Failed" using that by (auto simp: phase_of_def split: if_splits)
  show ?thesis
  proof (cases ev)
    case (AFcmReadyRead i bytes)
    then obtain s where s: "s \<in> fcm_signals i (fcm_readyRead (wo_env w) (wo_fuel w) (wo_xml w) bytes) a" "(k, e, phase_of st) \<in> grants s"
      using assms by (auto simp: answered_def)
    then show ?thesis using AFcmReadyRead ph pf
      by (cases s) (auto simp: fcm_entries_def acked_by_fcm_def nacked_by_fcm_def split: if_splits)
  next
    case (ABalReadyRead s bytes)
    then show ?thesis using assms ph
      by (auto simp: answered_def buffer_grants_def doc_grants_def acked_by_bal_def split: if_splits)
  qed (use assms in \<open>simp_all add: answered_def\<close>)
qed

lemma sys_mgr:
  assumes "world_ok w0" and "life w0 w" and "app_reaches w a" and "sid \<in> sessions w"
  shows "mgr_ok {} (ap_heap a) (db_rows (ap_dbConn a)) (ap_next a) sid (mgr_of sid a)"
  using sys_invE [OF assms(1-3)] assms(4) core_okD(9) [OF app_ok_core] unfolding sessions_def by metis

section \<open>Runs\<close>

text \<open>The state after a start and a list of events, when no event ends the program.\<close>

primrec run_from :: "world \<Rightarrow> app_event list \<Rightarrow> app \<Rightarrow> app option" where
  "run_from w [] a = Some a"
| "run_from w (ev # evs) a =
     (if ap_quit a then None
      else (case app_reacts w ev a of (Inl f, a') \<Rightarrow> None | (Inr _, a') \<Rightarrow> run_from w evs a'))"

definition app_runs :: "world \<Rightarrow> app_event list \<Rightarrow> app option" where
  "app_runs w evs =
     (case Application (wo_env w) (wo_host w) (app_members (wo_memory w) (wo_file w)) of
        (Inl f, a) \<Rightarrow> None | (Inr _, a) \<Rightarrow> run_from w evs a)"

lemma run_from_reach: "run_from w evs a = Some a' \<Longrightarrow> app_reaches w a \<Longrightarrow> app_reaches w a'"
proof (induction evs arbitrary: a)
  case (Cons ev evs)
  then obtain b where b: "\<not> ap_quit a" "app_reacts w ev a = (Inr (), b)" "run_from w evs b = Some a'"
    by (auto split: if_splits prod.splits sum.splits)
  then have "app_reaches w b" using Cons.prems(2) unfolding app_reaches_def app_reacts_def by (rule_tac app_step)
  with Cons.IH b(3) show ?case by blast
qed simp

lemma app_runs_reach: "app_runs w evs = Some a \<Longrightarrow> app_reaches w a"
  by (auto simp: app_runs_def app_reaches_def split: prod.splits sum.splits
      intro: run_from_reach [unfolded app_reaches_def, OF _ app_start])

text \<open>A small world: a complete configuration for the session \<^verbatim>\<open>bal\<close>, one undelivered downstream row
  in the file, and the document \<open>j\<close> in every packet.\<close>

definition host0 :: host where
  "host0 = \<lparr> h_configExists = True, h_ini = (\<lambda>_. Some ''bal''), h_toInt = (\<lambda>_. 5235), h_setAddress = (\<lambda>_. True),
     h_socketpairFails = (\<lambda>_. False), h_listen = (\<lambda>_ _. True) \<rparr>"

definition world0 :: "json \<Rightarrow> world" where
  "world0 j = \<lparr> wo_env = env0 j, wo_what = (\<lambda>_. []), wo_fuel = (\<lambda>_. 8), wo_xml = xml0, wo_host = host0,
     wo_memory = heap0, wo_file = db1 \<rparr>"

lemma env0_consumes: "unframe_consumes (env0 j)"
proof -
  have "length r < length b" if "unary_unframe b = Some (x, r)" for b x r
  proof -
    let ?n = "length (takeWhile (\<lambda>c. c = CHR ''1'') b)"
    have "\<not> length b \<le> ?n" "r = drop ?n (drop (Suc ?n) b)"
      using that by (auto simp: unary_unframe_def Let_def split: if_splits)
    then show ?thesis by simp
  qed
  then show ?thesis by (simp add: unframe_consumes_def env0_def)
qed

lemma env0_platform: "platform_ok (env0 j) (\<lambda>_. 8) xml0"
  using env0_draws env0_consumes xml0_progress
  by (auto simp: platform_ok_def env0_def intro!: exI [of _ "\<lambda>r. 7 - r"])

lemma client0 [simp]: "the_client (wo_host (world0 j)) = ''bal''"
  by (simp add: world0_def host0_def the_client_def ini_string_def)

lemma world0_ok: "world_ok (world0 j)"
proof -
  have "config_ok (wo_host (world0 j))" by (simp add: config_ok_def)
  moreover have "file_ok (db_rows db1)"
    using db1_row_ok by (simp add: file_ok_def db1_def db0_def om_wf_def)
  ultimately show ?thesis using env0_platform by (simp add: world_ok_def world0_def)
qed

text \<open>The same world with one other message in the file, under key \<open>k\<close>.\<close>

definition file_with :: "int \<Rightarrow> message \<Rightarrow> db" where
  "file_with k x = db0 \<lparr> db_rows := [(k, bound_row (env0 JNull) 0 x JNull)] \<rparr>"

definition world_with :: "json \<Rightarrow> int \<Rightarrow> message \<Rightarrow> world" where
  "world_with j k x = (world0 j) \<lparr> wo_file := file_with k x \<rparr>"

definition msg_down :: message where
  "msg_down = Message_new (env0 JNull) 0 7 DOWNSTREAM ''m'' [] ''bal'' ''fcm'' (Some JNull) NEW"

definition msg_up :: message where
  "msg_up = Message_new (env0 JNull) 0 7 UPSTREAM ''m'' [] ''fcm'' ''bal'' (Some JNull) NEW"

text \<open>A document with one field.\<close>

definition doc1 :: "string \<Rightarrow> string \<Rightarrow> json" where
  "doc1 k v = JObject [(k, JString v)]"

lemma world_with_ok:
  assumes "msg_fits x" and "int64_min \<le> k" and "k \<le> int64_max"
  shows "world_ok (world_with j k x)"
  using world0_ok [of j] assms
  by (auto simp: world_ok_def world_with_def file_with_def db0_def file_ok_def om_wf_def row_ok_def bound_row_def msg_fits_def)

lemma msg_fits0 [simp]: "msg_fits msg_down" "msg_fits msg_up"
  by (simp_all add: msg_down_def msg_up_def)

lemma client_with [simp]: "the_client (wo_host (world_with j k x)) = ''bal''"
  using client0 [of j] by (simp add: world_with_def)

text \<open>A business application logs on; and the world in which the database stops to answer after that.\<close>

definition logon_doc :: json where
  "logon_doc = JObject [(''message_type'', JString ''LOGON''), (''session_id'', JString ''bal'')]"

definition world_failing :: world where
  "world_failing = (world_with logon_doc 7 msg_up) \<lparr> wo_env := (env0 logon_doc) \<lparr> sq_fails := (\<lambda>n. 9 \<le> n) \<rparr> \<rparr>"

definition logon_events :: "app_event list" where
  "logon_events = [ANewBALConnection 5, ABalReadyRead 0 ''110{}'']"

lemma world_failing_ok: "world_ok world_failing"
proof -
  have "world_ok (world_with logon_doc 7 msg_up)" by (rule world_with_ok) (simp_all add: int_lims)
  then show ?thesis
    by (simp add: world_ok_def world_failing_def platform_ok_def draws_in_range_def unframe_consumes_def
        world_with_def world0_def)
qed

end
