(* ===== verification/App_Throws.thy ===== *)
theory App_Throws
  imports App_Run
begin

text \<open>
  Which reactions end in an exception.  A call is \<open>quiet\<close> when it throws in no state, and \<open>nothrow P m\<close> says
  so of the states of \<open>P\<close>.  No slot Qt runs for a signal of an FCM connection throws in a state the
  program can be in, so none is interrupted by one; only the timer that resends the queue of a session can.
\<close>

section \<open>Calls that throw in no state\<close>

definition quiet :: "('s, 'a) M \<Rightarrow> bool" where
  "quiet m \<longleftrightarrow> (\<forall>s e. fst (m s) \<noteq> Inl (Throw e))"

named_theorems quiet_intros

lemma quietD: "quiet m \<Longrightarrow> m s = (Inl f, t) \<Longrightarrow> f \<noteq> Throw e"
  by (metis fst_conv quiet_def)

lemma quiet_prims [quiet_intros]:
  "quiet (ret x)" "quiet (gets f)" "quiet (modify g)" "quiet (tryM m)"
  by (auto simp: quiet_def ret_def gets_def modify_def tryM_def split: prod.split sum.split fault.split)

lemma quiet_raise: "(\<And>e. f \<noteq> Throw e) \<Longrightarrow> quiet (raise f)"
  by (simp add: quiet_def raise_def)

lemma quiet_getsE: "(\<And>s e. f s \<noteq> Inl (Throw e)) \<Longrightarrow> quiet (getsE f)"
  by (simp add: quiet_def getsE_def)

lemma quiet_liftM: "(\<And>e. r \<noteq> Inl (Throw e)) \<Longrightarrow> quiet (liftM r)"
  by (simp add: quiet_def liftM_def)

lemma quiet_bindM_at:
  assumes "quiet m" and "\<And>s x t. m s = (Inr x, t) \<Longrightarrow> quiet (f x)"
  shows "quiet (bindM m f)"
  using assms unfolding quiet_def bindM_def by (auto split: prod.split sum.split) (metis fst_conv)+

lemma quiet_bindM [quiet_intros]: "quiet m \<Longrightarrow> (\<And>x. quiet (f x)) \<Longrightarrow> quiet (bindM m f)"
  by (rule quiet_bindM_at)

lemma quiet_thenM [quiet_intros]: "quiet m \<Longrightarrow> quiet m' \<Longrightarrow> quiet (thenM m m')"
  unfolding thenM_def by (rule quiet_bindM)

lemma quiet_if [quiet_intros]: "(b \<Longrightarrow> quiet m) \<Longrightarrow> (\<not> b \<Longrightarrow> quiet m') \<Longrightarrow> quiet (if b then m else m')"
  by simp

lemma quiet_whenM [quiet_intros]: "quiet m \<Longrightarrow> quiet (whenM b m)"
  by (simp add: whenM_def quiet_prims)

lemma quiet_zoom [quiet_intros]: "quiet m \<Longrightarrow> quiet (zoom g p m)"
  unfolding quiet_def zoom_def by (auto split: prod.split) (metis fst_conv)

lemma quiet_forM [quiet_intros]: "(\<And>x. x \<in> set xs \<Longrightarrow> quiet (f x)) \<Longrightarrow> quiet (forM xs f)"
  by (induction xs) (simp_all add: quiet_intros)

lemma quiet_catchM [quiet_intros]: "(\<And>e. quiet (h e)) \<Longrightarrow> quiet (catchM m h)"
  by (auto simp: quiet_def catchM_def split: prod.split sum.split fault.split)

section \<open>The FCM connection\<close>

lemma quiet_acts [quiet_intros]: "quiet (act x)" "quiet (emit s)" "quiet (acts xs)"
  unfolding act_def emit_def acts_def by (intro quiet_intros)+

lemma quiet_backoff [quiet_intros]: "quiet (backoff_next E)"
  by (auto simp: quiet_def backoff_next_def inc32_def Let_def split: prod.split)

lemma quiet_connection [quiet_intros]:
  "quiet connectToFirebase" "quiet (connectToFcm i k h p)" "quiet (handleSslErrors es)" "quiet socketEncrypted"
  "quiet (handleDisconnected E)" "quiet (sendAuthenticationInfo E)" "quiet startNewStream" "quiet sendIQBind"
  "quiet (handleSendMessage E j)"
  unfolding connectToFcm_def connectToFirebase_def handleSslErrors_def socketEncrypted_def handleDisconnected_def
    sendAuthenticationInfo_def startNewStream_def sendIQBind_def handleSendMessage_def Let_def
  by (auto intro!: quiet_intros split: prod.split)

lemma quiet_fcm_timer [quiet_intros]: "quiet (fcm_timer_fires E t)"
  by (cases t) (simp_all add: quiet_intros)

text \<open>What the parser throws is caught where the bytes are read.\<close>

lemma quiet_fcm_readyRead [quiet_intros]: "quiet (fcm_readyRead E fuel X bytes)"
  unfolding fcm_readyRead_def handleReadyRead_def by (auto intro!: quiet_intros)

section \<open>Slots that throw in no state\<close>

lemma quiet_fcm_call [quiet_intros]:
  assumes "quiet m"
  shows "quiet (fcm_call i m)"
  unfolding fcm_call_def
proof (rule quiet_bindM_at)
  show "quiet (fcm_run i m)" by (auto simp: quiet_def fcm_run_def split: option.split prod.split)
next
  fix s x t
  assume "fcm_run i m s = (Inr x, t)"
  then have thrown: "fst x \<noteq> Inl (Throw e)" for e
    using assms by (auto simp: fcm_run_def quiet_def split: option.splits prod.splits) (metis fst_conv)
  have "quiet (forM as (log_act i))" for as
    by (auto intro!: quiet_intros simp: log_act_def start_timer_def split: fcm_act.split)
  then show "quiet (case x of (r, as) \<Rightarrow> thenM (forM as (log_act i)) (liftM r))"
    using thrown by (cases x) (simp add: quiet_thenM quiet_liftM)
qed

lemma quiet_slots [quiet_intros]:
  "quiet (say t)" "quiet (start_timer d x)" "quiet (log_act i y)" "quiet (set_retry p b)" "quiet (payload_of p)"
  "quiet (release_conn s)" "quiet (release_opt c)"
  unfolding say_def start_timer_def log_act_def set_retry_def on_msg_def payload_of_def release_conn_def release_opt_def
  by (auto intro!: quiet_intros quiet_getsE split: option.splits fcm_act.split)

lemma quiet_sends [quiet_intros]: "quiet (sendMessage E j)" "quiet (uploadToFcm E p)"
  unfolding sendMessage_def uploadToFcm_def by (intro quiet_intros)+

lemma quiet_open [quiet_intros]: "quiet (openFcmHandle E)"
proof -
  have "quiet (getsE (\<lambda>a. inc32 (ap_fcmConnCount a)))" by (rule quiet_getsE) (simp add: inc32_def)
  then show ?thesis
    unfolding openFcmHandle_def createFcmHandle_def getNextFcmConnectionId_def setupFcmHandle_def handleFcmConnectionStarted_def
    by (intro quiet_intros)
qed

lemma quiet_bal [quiet_intros]:
  "quiet (handleNewBALConnection d)" "quiet (handleBalAuthenticationTimeout s)" "quiet (handleBALSocketDisconnected s)"
  unfolding handleNewBALConnection_def handleBalAuthenticationTimeout_def handleBALSocketDisconnected_def
  by (auto intro!: quiet_intros split: option.split)

lemma quiet_balReadyRead [quiet_intros]: "quiet (handleBALSocketReadyRead E s)"
proof -
  have "quiet (bal_read_loop k E s)" for k
    by (induction k) (auto intro!: quiet_intros quiet_raise split: option.split)
  then show ?thesis unfolding handleBALSocketReadyRead_def by (intro quiet_intros)
qed

section \<open>Slots that throw in no state the program can be in\<close>

definition nothrow :: "(app \<Rightarrow> bool) \<Rightarrow> (app, 'a) M \<Rightarrow> bool" where
  "nothrow P m \<longleftrightarrow> (\<forall>a e. P a \<longrightarrow> fst (m a) \<noteq> Inl (Throw e))"

lemma nothrow_quiet: "quiet m \<Longrightarrow> nothrow P m"
  by (simp add: nothrow_def quiet_def)

lemma nothrow_weaken: "nothrow P m \<Longrightarrow> (\<And>a. P' a \<Longrightarrow> P a) \<Longrightarrow> nothrow P' m"
  by (simp add: nothrow_def)

lemma nothrow_pure: "(C \<Longrightarrow> nothrow P m) \<Longrightarrow> nothrow (\<lambda>a. C \<and> P a) m"
  by (auto simp: nothrow_def)

lemma nothrow_ex: "(\<And>q. nothrow (P q) m) \<Longrightarrow> nothrow (\<lambda>a. \<exists>q. P q a) m"
  by (auto simp: nothrow_def)

lemma nothrow_if: "(b \<Longrightarrow> nothrow P m) \<Longrightarrow> (\<not> b \<Longrightarrow> nothrow P m') \<Longrightarrow> nothrow P (if b then m else m')"
  by simp

lemma nothrow_bindM:
  assumes "runs G n S P m Q" and "nothrow P m" and "\<And>x. nothrow (Q x) (f x)"
  shows "nothrow P (bindM m f)"
  unfolding nothrow_def
proof (intro allI impI)
  fix a e
  assume P: "P a"
  obtain r b where r: "m a = (r, b)" by fastforce
  show "fst (bindM m f a) \<noteq> Inl (Throw e)"
  proof (cases r)
    case (Inl g)
    with assms(2) P r have "g \<noteq> Throw e" by (auto simp: nothrow_def dest!: spec [of _ a])
    then show ?thesis using r Inl by (simp add: bindM_def)
  next
    case (Inr x)
    then have "Q x b" using hoareD_ok [OF assms(1) [unfolded runs_def] P] r by simp
    then show ?thesis using assms(3) [of x] r Inr by (simp add: bindM_def nothrow_def)
  qed
qed

lemma nothrow_thenM: "runs G n S P m (\<lambda>_. Q) \<Longrightarrow> nothrow P m \<Longrightarrow> nothrow Q m' \<Longrightarrow> nothrow P (thenM m m')"
  unfolding thenM_def by (rule nothrow_bindM)

lemma nothrow_bindM_quiet: "nothrow P m \<Longrightarrow> (\<And>x. quiet (f x)) \<Longrightarrow> nothrow P (bindM m f)"
  unfolding nothrow_def quiet_def bindM_def by (auto split: prod.split sum.split)

lemma nothrow_gets: "(\<And>x. nothrow (\<lambda>a. P a \<and> x = f a) (g x)) \<Longrightarrow> nothrow P (bindM (gets f) g)"
  by (auto simp: nothrow_def bindM_def gets_def)

lemma nothrow_forM:
  assumes "\<And>x. x \<in> set xs \<Longrightarrow> runs G n S P (f x) (\<lambda>_. P)" and "\<And>x. x \<in> set xs \<Longrightarrow> nothrow P (f x)"
  shows "nothrow P (forM xs f)"
  using assms
proof (induction xs)
  case Nil
  show ?case by (simp add: nothrow_quiet quiet_intros)
next
  case (Cons x xs)
  have "nothrow P (forM xs f)" using Cons by simp
  with Cons.prems [of x] show ?case unfolding forM.simps by (intro nothrow_thenM) simp_all
qed

text \<open>A retry never gives up, since no message of the program has a limit.\<close>

lemma nothrow_retryDown:
  assumes "draws_in_range E"
  shows "nothrow (\<lambda>a. app_ok G {} n S q a \<and> p < ap_next a) (retryDownstreamWithExponentialBackoff E p)"
proof -
  let ?P = "\<lambda>a. app_ok G {} n S q a \<and> p < ap_next a"
  have rt: "runs G n S ?P (on_msg p (getNextRetryTimeout E)) (\<lambda>v a. v \<noteq> - 1 \<and> ?P a)"
    by (rule runs_retry_timeout [where q = q, OF assms]) (blast, simp add: app_ok_heap_all)
  have "quiet (getNextRetryTimeout E)"
    unfolding quiet_def
  proof (intro allI)
    fix x e
    have "quiet (zoom msg_exboff (\<lambda>b x. x \<lparr> msg_exboff := b \<rparr>) (backoff_next E) :: (message, int) M)" by (intro quiet_intros)
    then have "fst (zoom msg_exboff (\<lambda>b x. x \<lparr> msg_exboff := b \<rparr>) (backoff_next E) y) \<noteq> Inl (Throw e)" for y :: message
      by (simp add: quiet_def)
    then show "fst (getNextRetryTimeout E x) \<noteq> Inl (Throw e)"
      by (auto simp: getNextRetryTimeout_def inc32_def Let_def split: option.split)
  qed
  then have "nothrow ?P (on_msg p (getNextRetryTimeout E))" unfolding on_msg_def by (intro nothrow_quiet quiet_zoom)
  from nothrow_bindM [OF rt this] show ?thesis
    unfolding retryDownstreamWithExponentialBackoff_def
    by (rule meta_mp) (rule nothrow_pure, auto intro!: nothrow_quiet quiet_intros)
qed

lemma nothrow_resend_downstream:
  assumes "draws_in_range E" and kp: "(k, p) \<in> set (q ''fcm'')"
  shows "nothrow (app_ok G {} n S q) (resend_downstream E p)"
proof -
  have "canSendMessageOnReconnect (ap_heap a) (ap_fcmMsgManager a) p \<noteq> Inl (Throw e)" if "app_ok G {} n S q a" for a e
    using canSendMessageOnReconnect_spec [OF app_ok_mgr(2) [OF that, of "''fcm''"], of k p] app_ok_mgr(3) [OF that, of "''fcm''"] kp
    by (simp add: mgr_of_def)
  then have can: "nothrow (app_ok G {} n S q) (getsE (\<lambda>a. canSendMessageOnReconnect (ap_heap a) (ap_fcmMsgManager a) p))"
    by (simp add: nothrow_def getsE_def)
  have send: "nothrow P (bindM (payload_of p) (sendMessage E))" for P by (intro nothrow_quiet quiet_intros)
  show ?thesis
    unfolding resend_downstream_def
    by (rule nothrow_gets, rule nothrow_if, simp add: nothrow_quiet quiet_intros,
        rule nothrow_weaken [OF nothrow_bindM [OF runs_canResend_fcm [where q = q, OF kp] can]],
        rule nothrow_pure, rule nothrow_if, rule send, rule nothrow_if, rule nothrow_retryDown [OF assms(1)])
      (auto intro: nothrow_quiet quiet_intros)
qed

lemma nothrow_resendDown:
  assumes "draws_in_range E"
  shows "nothrow (app_ok G {} n S q) (resendAllPendingDownstreamMessages E)"
proof -
  have sid: "''fcm'' \<in> insert ''fcm'' S" "\<And>a. ap_fcmMsgManager a = mgr_of ''fcm'' a" by (simp_all add: mgr_of_def)
  have turn: "nothrow (app_ok G {} n S q) (bindM (gets (\<lambda>a. om_find (mm_messages (ap_fcmMsgManager a)) k)) (\<lambda>here.
      if here = None then ret () else thenM (resend_downstream E p) (bindM (gets (\<lambda>a. om_find (mm_messages (ap_fcmMsgManager a)) k)) (\<lambda>still.
        if still = None then raise (Undefined IteratorInvalidated) else ret ()))))" if kp: "(k, p) \<in> set (q ''fcm'')" for k p
  proof -
    have "nothrow (app_ok G {} n S q) (thenM (resend_downstream E p) (bindM (gets (\<lambda>a. om_find (mm_messages (ap_fcmMsgManager a)) k)) (\<lambda>still.
        if still = None then raise (Undefined IteratorInvalidated) else ret ())))"
      by (rule nothrow_thenM [OF runs_resend_downstream [where q = q, OF assms kp] nothrow_resend_downstream [where q = q, OF assms kp]])
        (auto intro!: nothrow_quiet quiet_intros quiet_raise)
    then show ?thesis
      by (intro nothrow_gets nothrow_if) (auto intro: nothrow_quiet quiet_intros nothrow_weaken)
  qed
  show ?thesis
    unfolding resendAllPendingDownstreamMessages_def for_queue_def
    by (rule nothrow_bindM [OF runs_queue [OF sid]], simp add: nothrow_quiet quiet_intros, rule nothrow_pure, rule nothrow_forM)
      (use runs_queue_turn [where q = q, OF sid _ runs_resend_downstream [where q = q, OF assms]] turn in auto)
qed

lemma nothrow_slot:
  assumes "draws_in_range E"
  shows "nothrow (Inv G n S) (fcm_slot E what s)"
proof -
  have resend: "nothrow (Inv G n S) (handleFcmSessionEstablished E i)" for i
    unfolding handleFcmSessionEstablished_def Inv_def by (rule nothrow_ex, rule nothrow_resendDown [OF assms])
  have drain: "quiet (handleFcmConnectionDrainingStarted E i)" for i
    unfolding handleFcmConnectionDrainingStarted_def by (intro quiet_intros quiet_getsE) simp
  note slots = handleFcmConnectionStarted_def handleFcmConnectionEstablished_def handleFcmConnectionShutdownStarted_def
    handleFcmConnectionShutdownCompleted_def handleFcmConnectionLost_def handleFcmXmppHandshakeStarted_def
    handleFcmStreamClosed_def handleFcmHeartbeatRecieved_def handleFcmConnectionError_def handleFcmNewUpstreamMessage_def
    handleFcmAckMessage_def handleFcmNackMessage_def handleFcmReceiptMessage_def Let_def
  show ?thesis
    by (cases s) (simp_all add: slots nothrow_quiet quiet_intros resend drain)
qed

section \<open>Events\<close>

lemma nothrow_event_at:
  assumes "draws_in_range E" and "quiet m" and "answers_of G = UNIV"
  shows "nothrow (Inv G n S) (fcm_event_at E what i m)"
proof -
  have run: "runs G n S (Inv G n S) (fcm_run i m)
    (\<lambda>x a. ((\<forall>f. fst x = Inl f \<longrightarrow> (\<forall>e. f \<noteq> Throw e)) \<and> (\<forall>s. Emit s \<in> set (snd x) \<longrightarrow> grants s \<subseteq> answers_of G)) \<and> Inv G n S a)"
    by (rule runs_weaken [OF runs_fcm_run [where B = "\<lambda>f. \<forall>e. f \<noteq> Throw e"]]) (use quietD [OF assms(2)] assms(3) in auto)
  have "quiet (fcm_run i m)" by (auto simp: quiet_def fcm_run_def split: option.split prod.split)
  moreover have "nothrow (Inv G n S) (case x of (r, as) \<Rightarrow> thenM (forM as (deliver E what i)) (liftM r))"
    if "\<forall>f. fst x = Inl f \<longrightarrow> (\<forall>e. f \<noteq> Throw e)" for x :: "(fault + unit) \<times> fcm_act list"
  proof -
    obtain r as where x: "x = (r, as)" by fastforce
    have del: "pres G n S (deliver E what i y)" for y using pres_deliver [OF assms(1)] assms(3) by simp
    have "nothrow (Inv G n S) (case y of Emit s \<Rightarrow> fcm_slot E what s | _ \<Rightarrow> ret ())" for y
      by (cases y) (simp_all add: nothrow_slot [OF assms(1)] nothrow_quiet quiet_intros)
    then have nt: "nothrow (Inv G n S) (deliver E what i y)" for y
      unfolding deliver_def by (intro nothrow_thenM [OF pres_log_act]) (auto intro: nothrow_quiet quiet_intros)
    have "nothrow (Inv G n S) (liftM r)" using that x by (intro nothrow_quiet quiet_liftM) auto
    then show ?thesis
      unfolding x by (simp, intro nothrow_thenM [OF runs_forM]) (auto intro: del nothrow_forM nt)
  qed
  ultimately show ?thesis
    unfolding fcm_event_at_def by (intro nothrow_bindM [OF run]) (simp_all add: nothrow_quiet nothrow_pure)
qed

lemma nothrow_timer:
  assumes "draws_in_range E" and "answers_of G = UNIV" and "\<And>sid. t \<noteq> TResendUpstream sid"
  shows "nothrow (\<lambda>a. app_ok G {} n S q a \<and> timer_ok S (ap_heap a) (ap_next a) t) (timer_fires E what t)"
proof (cases t)
  case (TRetryUpstream p)
  have "nothrow (\<lambda>a. app_ok G {} n S q a \<and> sid \<in> S) (forwardMsg E sid p)" for sid
    unfolding forwardMsg_def
  proof (rule nothrow_bindM_quiet)
    have "om_find (ap_balSessionMap a) sid \<noteq> None" if "app_ok G {} n S q a" "sid \<in> S" for a
      using core_okD(4) [OF app_ok_core [OF that(1)]] that(2) by (simp add: om_find_None_iff)
    then show "nothrow (\<lambda>a. app_ok G {} n S q a \<and> sid \<in> S) (findBalSession sid)"
      by (fastforce simp: nothrow_def findBalSession_def getsE_def split: option.splits)
  qed (auto intro: quiet_intros)
  then have "nothrow (\<lambda>a. app_ok G {} n S q a \<and> timer_ok S (ap_heap a) (ap_next a) t)
      (bindM (gets (\<lambda>a. msg_targetSessionId (ap_heap a p))) (\<lambda>sid. forwardMsg E sid p))"
    using TRetryUpstream by (intro nothrow_gets) (auto intro: nothrow_weaken)
  then have "nothrow (\<lambda>a. app_ok G {} n S q a \<and> timer_ok S (ap_heap a) (ap_next a) t) (timer_fires E what t)"
    using TRetryUpstream unfolding thenM_def by (simp add: thenM_def) (rule nothrow_bindM_quiet, assumption, intro quiet_intros)
  then show ?thesis .
next
  case (TFcm i x)
  then show ?thesis
    by simp (rule nothrow_weaken [OF nothrow_event_at [OF assms(1) quiet_fcm_timer assms(2)]], blast intro: app_ok_Inv)
qed (use assms(3) in \<open>auto intro!: nothrow_quiet quiet_intros\<close>)

lemma nothrow_handle:
  assumes "draws_in_range E" and "answers_of G = UNIV" and "Inv G n S a" and "app_handle E what fuel X ev a = (Inl (Throw e), a')"
  shows "\<exists>k sid. ev = ATimer k \<and> k < length (ap_timers a) \<and> snd (ap_timers a ! k) = TResendUpstream sid"
proof (cases ev)
  case (ATimer k)
  obtain q where ok: "app_ok G {} n S q a" using assms(3) by (auto simp: Inv_def)
  let ?t = "snd (ap_timers a ! k)" and ?b = "a \<lparr> ap_timers := take k (ap_timers a) @ drop (Suc k) (ap_timers a) \<rparr>"
  have k: "k < length (ap_timers a)" using assms(4) ATimer by (auto simp: bindM_def gets_def ret_def split: if_splits)
  then have run: "timer_fires E what ?t ?b = (Inl (Throw e), a')"
    using assms(4) ATimer by (simp add: bindM_def gets_def thenM_def modify_def)
  have "timer_ok S (ap_heap a) (ap_next a) ?t"
    using core_okD(13) [OF app_ok_core [OF ok], of "fst (ap_timers a ! k)" ?t] k by simp
  moreover have "app_ok G {} n S q ?b"
    using ok by (intro app_ok_drop_timer) (auto dest: in_set_takeD in_set_dropD)
  ultimately have "app_ok G {} n S q ?b \<and> timer_ok S (ap_heap ?b) (ap_next ?b) ?t" by simp
  then have "\<exists>sid. ?t = TResendUpstream sid"
    using nothrow_timer [OF assms(1,2), of ?t n S q what] run unfolding nothrow_def by (metis fst_conv)
  with ATimer k show ?thesis by blast
next
  case (AFcmEncrypted i)
  with nothrow_event_at [OF assms(1) quiet_connection(4) assms(2), of n S what i] assms(3,4) show ?thesis
    by (auto simp: nothrow_def dest!: spec [of _ a])
next
  case (AFcmDisconnected i)
  with nothrow_event_at [OF assms(1) quiet_connection(5) assms(2), of n S what i E] assms(3,4) show ?thesis
    by (auto simp: nothrow_def dest!: spec [of _ a])
next
  case (AFcmReadyRead i bytes)
  with nothrow_event_at [OF assms(1) quiet_fcm_readyRead assms(2), of n S what i E fuel X bytes] assms(3,4) show ?thesis
    by (auto simp: nothrow_def dest!: spec [of _ a])
next
  case (AFcmSslErrors i es)
  with nothrow_event_at [OF assms(1) quiet_connection(3) assms(2), of n S what i es] assms(3,4) show ?thesis
    by (auto simp: nothrow_def dest!: spec [of _ a])
next
  case (ABalReadyRead s bytes)
  have "quiet (app_handle E what fuel X ev)" unfolding ABalReadyRead app_handle.simps by (intro quiet_intros)
  with assms(4) show ?thesis by (auto dest: quietD)
next
  case (ABalDisconnected s d)
  have "quiet (app_handle E what fuel X ev)" unfolding ABalDisconnected app_handle.simps by (intro quiet_intros)
  with assms(4) show ?thesis by (auto dest: quietD)
next
  case (ANewBALConnection d)
  with assms(4) quietD [OF quiet_bal(1) [of d], of a "Throw e" a' e] show ?thesis by simp
qed (use assms(4) in \<open>auto simp: hupSignalHandler_def termSignalHandler_def handleSigInt_def handleSigTerm_def modify_def
    bindM_def gets_def whenM_def ret_def split: if_splits\<close>)

text \<open>So an exception leaves the program only there.\<close>

lemma life_throws:
  assumes "world_ok w0" and "life w0 w" and "app_reaches w a" and "app_reacts w ev a = (Inl (Throw e), a')"
  shows "\<exists>k sid. ev = ATimer k \<and> k < length (ap_timers a) \<and> snd (ap_timers a ! k) = TResendUpstream sid"
proof -
  have w: "draws_in_range (wo_env w)" using gimmm.life_ok [OF assms(1,2)] by (simp add: world_ok_def platform_ok_def)
  have "Inv (Since UNIV (ledger_of (db_rows (wo_file w)))) 0 {the_client (wo_host w)} a"
    using gimmm.life_inv [OF assms(1-3)] by (simp add: sys_inv_def)
  from nothrow_handle [OF w _ this] assms(4) show ?thesis by (auto simp: app_reacts_def)
qed

end
