(* ===== verification/App_Effects.thy ===== *)
theory App_Effects
  imports App_Throws
begin

text \<open>
  What single slots do in a state the program can be in: what reaches FCM, what an
  acknowledgement settles, and what the code leaves undone.
\<close>

section \<open>Sending on the newest connection\<close>

text \<open>The newest connection.\<close>

definition newest :: "app \<Rightarrow> int" where
  "newest a = fst (last (ap_fcmConnectionsMap a))"

lemma om_last_greatest:
  assumes "om_wf m" and "i \<in> fst ` set m"
  shows "i \<le> fst (last m)"
  using assms
proof (induction m)
  case (Cons e m)
  obtain k v where e: "e = (k, v)" by fastforce
  show ?case
  proof (cases "m = []")
    case False
    then have "fst (last m) \<in> fst ` set m" by simp
    with Cons e False show ?thesis by (auto simp: om_wf_Cons less_imp_le)
  qed (use Cons e in simp)
qed simp

lemma newest_slot:
  assumes "app_ok G X n S q a"
  shows "ap_sendSlots a = [newest a]" and "\<exists>c. om_find (ap_fcmConnectionsMap a) (newest a) = Some c"
proof -
  have ne: "ap_fcmConnectionsMap a \<noteq> []" and wf: "om_wf (ap_fcmConnectionsMap a)"
    and slots: "ap_sendSlots a = (if ap_fcmConnectionsMap a = [] then [] else [fst (last (ap_fcmConnectionsMap a))])"
    using assms by (auto simp: app_ok_def slots_ok_def)
  from slots ne show "ap_sendSlots a = [newest a]" by (simp add: newest_def)
  have "last (ap_fcmConnectionsMap a) \<in> set (ap_fcmConnectionsMap a)" using ne by simp
  then have "(newest a, snd (last (ap_fcmConnectionsMap a))) \<in> set (ap_fcmConnectionsMap a)" by (simp add: newest_def)
  then show "\<exists>c. om_find (ap_fcmConnectionsMap a) (newest a) = Some c" using om_find_iff [OF wf] by blast
qed

lemma sendMessage_run:
  assumes "app_ok G X n S q a"
  shows "\<exists>conns. sendMessage E j a =
      (Inr (), a \<lparr> ap_fcmConnectionsMap := conns, ap_log := ap_log a @ map (Pair (newest a)) (message_stanza E j) \<rparr>) \<and>
    app_ok G X n S q (a \<lparr> ap_fcmConnectionsMap := conns, ap_log := ap_log a @ map (Pair (newest a)) (message_stanza E j) \<rparr>) \<and>
    fst (last conns) = newest a"
proof -
  obtain c where c: "om_find (ap_fcmConnectionsMap a) (newest a) = Some c" using newest_slot(2) [OF assms] by blast
  have wf: "om_wf (ap_fcmConnectionsMap a)" and ne: "ap_fcmConnectionsMap a \<noteq> []" using assms by (auto simp: app_ok_def slots_ok_def)
  let ?conns = "om_store (newest a) (c \<lparr> fc_acts := [] \<rparr>) (ap_fcmConnectionsMap a)"
  have keys: "map fst ?conns = map fst (ap_fcmConnectionsMap a)" by (rule om_store_present [OF wf c])
  then have "?conns \<noteq> []" using ne by (metis Nil_is_map_conv)
  with keys ne have "fst (last ?conns) = newest a" by (metis last_map newest_def)
  moreover have "sendMessage E j a =
      (Inr (), a \<lparr> ap_fcmConnectionsMap := ?conns, ap_log := ap_log a @ map (Pair (newest a)) (message_stanza E j) \<rparr>)"
    by (simp add: sendMessage_def newest_slot(1) [OF assms] c fcm_call_send bindM_def gets_def thenM_def ret_def)
  ultimately show ?thesis using app_ok_conn [OF assms c] by blast
qed

lemma upload_run:
  assumes "app_ok G X n S q a" and "msg_payload (ap_heap a p) = Some j"
  shows "\<exists>conns. uploadToFcm E p a =
      (Inr (), a \<lparr> ap_fcmConnectionsMap := conns, ap_log := ap_log a @ map (Pair (newest a)) (message_stanza E j) \<rparr>) \<and>
    app_ok G X n S q (a \<lparr> ap_fcmConnectionsMap := conns, ap_log := ap_log a @ map (Pair (newest a)) (message_stanza E j) \<rparr>) \<and>
    fst (last conns) = newest a"
  using sendMessage_run [OF assms(1), of E j] assms(2)
  by (simp add: uploadToFcm_def payload_of_def bindM_def getsE_def)

section \<open>The next pending message\<close>

lemma sendNext_run:
  assumes "app_ok G X n S q a" and "getNext (ap_heap a) (ap_fcmMsgManager a) = Inr (Some p)" and "msg_payload (ap_heap a p) = Some j"
  shows "\<exists>conns. sendNextPendingDownstreamMessage E a =
      (Inr (), a \<lparr> ap_fcmConnectionsMap := conns, ap_log := ap_log a @ map (Pair (newest a)) (message_stanza E j) \<rparr>) \<and>
    app_ok G X n S q (a \<lparr> ap_fcmConnectionsMap := conns, ap_log := ap_log a @ map (Pair (newest a)) (message_stanza E j) \<rparr>) \<and>
    fst (last conns) = newest a"
  using upload_run [OF assms(1,3), of E] assms(2)
  by (simp add: sendNextPendingDownstreamMessage_def bindM_def getsE_def)

text \<open>A row with its state settled, and its message out of the queue.\<close>

definition settled :: "string \<Rightarrow> int \<Rightarrow> int \<Rightarrow> app \<Rightarrow> bool" where
  "settled sid k st a \<longleftrightarrow>
     om_find (mm_messages (mgr_of sid a)) k = None \<and> k \<le> db_sequenceId (ap_dbConn a) \<and>
     (\<exists>r. om_find (db_rows (ap_dbConn a)) k = Some r \<and> r_state r = st)"

section \<open>Settling a message\<close>

text \<open>The two steps that settle a message: its row gets a final state, then it leaves its queue.\<close>

lemma update_run:
  assumes "app_ok G {} n S q a" and "sid \<in> insert ''fcm'' S" and "om_find (q sid) k = Some p"
  shows "if sq_fails E (db_steps (ap_dbConn a))
    then \<exists>e d. update_msg E p st a = (Inl (Throw e), a \<lparr> ap_dbConn := d \<rparr>) \<and> db_rows d = db_rows (ap_dbConn a)
    else \<exists>d r. update_msg E p st a = (Inr (), a \<lparr> ap_dbConn := d \<rparr>) \<and> om_find (db_rows d) k = Some r \<and>
      r_state r = MessageState_code st \<and> k \<le> db_sequenceId d"
proof -
  note ok = core_okD [OF app_ok_core [OF assms(1)]]
  have mem: "(k, p) \<in> set (mm_messages (mgr_of sid a))" using om_find_in_set [OF assms(3)] ok(10) [OF assms(2)] by simp
  then have seq: "msg_sequenceId (ap_heap a p) = k" and "pending_row (db_rows (ap_dbConn a)) sid k (msg_fcmMessageId (ap_heap a p))"
    using ok(9) [OF assms(2)] mm_okD(4) by (auto simp: mgr_ok_def)
  then obtain r where r: "om_find (db_rows (ap_dbConn a)) k = Some r" by (auto simp: pending_row_def)
  have "k \<le> db_sequenceId (ap_dbConn a)" using ok(1) om_find_key [OF r] by (auto simp: db_ok_def)
  with seq r show ?thesis
    by (auto simp: update_msg_def on_db_def updateMsgState_def sq_call_def monad_defs om_find_store update_row_def)
qed

lemma remove_run:
  assumes "app_ok G {} n S q a" and "sid \<in> insert ''fcm'' S" and "om_find (q sid) k = Some p"
  shows "\<exists>m. removeMessage (ap_heap a) k (mgr_of sid a) = (Inr (), m) \<and> om_find (mm_messages m) k = None"
proof -
  note ok = core_okD(9,10) [OF app_ok_core [OF assms(1)] assms(2)]
  have "mm_ok (ap_heap a) (mgr_of sid a)" "om_find (mm_messages (mgr_of sid a)) k = Some p"
    using ok assms(3) by (auto simp: mgr_ok_def)
  from removeMessage_spec [OF this] mm_okD(1) [OF this(1)] show ?thesis by (auto simp: om_find_erase)
qed

text \<open>What comes after leaves a settled message of the FCM side settled.\<close>

lemma settled_off [keeps_intros]:
  "keeps (settled ''fcm'' k st) (on_bal_mgr sid m2)" "keeps (settled ''fcm'' k st) (on_msg p m3)" "keeps (settled ''fcm'' k st) (new_msg f)"
  "keeps (settled ''fcm'' k st) (write_session E sess j)" "keeps (settled ''fcm'' k st) (start_timer ms t)"
  "keeps (settled ''fcm'' k st) (fcm_run i m4)" "keeps (settled ''fcm'' k st) (payload_of p)"
  "keeps (settled ''fcm'' k st) (findBalSession sid)" "keeps (settled ''fcm'' k st) (findBalMessageManager sid)"
  "keeps (settled ''fcm'' k st) (on_db getNextSequenceId)" "keeps (settled ''fcm'' k st) (set_state p mst)"
  by (auto simp: on_db_def on_bal_mgr_def on_msg_def write_session_def put_session_def set_state_def
      start_timer_def payload_of_def findBalSession_def findBalMessageManager_def new_msg_def fcm_run_def
      getNextSequenceId_def keeps_def settled_def mgr_of_def
      zoom_def modify_def getsE_def split: option.splits prod.splits)

lemma om_find_emplace_other: "k' \<noteq> k \<Longrightarrow> om_find (om_emplace k v m) k' = om_find m k'"
  by (induction k v m rule: om_emplace.induct) auto

lemma settled_save [keeps_intros]: "keeps (settled ''fcm'' k st) (save_msg E p)"
  unfolding save_msg_def on_db_def
proof (intro keeps_intros keeps_zoom)
  fix x a r d
  assume pre: "settled ''fcm'' k st a" and run: "saveMsg E x (ap_dbConn a) = (r, d)"
  have "db_sequenceId d = db_sequenceId (ap_dbConn a) \<and> om_find (db_rows d) k = om_find (db_rows (ap_dbConn a)) k"
    using pre run by (cases "msg_sequenceId x = k")
      (auto simp: settled_def saveMsg_def sq_call_def monad_defs om_find_emplace_other split: option.splits if_splits)
  with pre show "settled ''fcm'' k st (a \<lparr> ap_dbConn := d \<rparr>)" by (simp add: settled_def mgr_of_def)
qed

lemma settled_print [keeps_intros]: "keeps (settled ''fcm'' k st) (print_msg E p)"
  unfolding print_msg_def by (intro keeps_intros)

lemma settled_send [keeps_intros]:
  "keeps (settled ''fcm'' k st) (sendMessage E j)" "keeps (settled ''fcm'' k st) (sendNextPendingDownstreamMessage E)"
proof -
  have log: "keeps (settled ''fcm'' k st) (log_act i x)" for i x
    unfolding log_act_def by (auto intro!: keeps_intros keeps_modify simp: settled_def mgr_of_def split: fcm_act.split)
  then show send: "keeps (settled ''fcm'' k st) (sendMessage E j)" for j
    unfolding sendMessage_def fcm_call_def by (auto intro!: keeps_intros keeps_forM log)
  show "keeps (settled ''fcm'' k st) (sendNextPendingDownstreamMessage E)"
    unfolding sendNextPendingDownstreamMessage_def uploadToFcm_def by (auto intro!: keeps_intros send split: option.split)
qed

text \<open>A notice about message \<open>k\<close> has a sequence id of its own.\<close>

abbreviation other :: "int \<Rightarrow> int \<Rightarrow> ptr \<Rightarrow> app \<Rightarrow> bool" where
  "other k st p a \<equiv> settled ''fcm'' k st a \<and> msg_sequenceId (ap_heap a p) \<noteq> k"

lemma keeps_other:
  "keeps (settled ''fcm'' k st) m \<Longrightarrow> (\<And>h. keeps (\<lambda>a. ap_heap a = h) m) \<Longrightarrow> keeps (other k st p) m"
  by (fastforce simp: keeps_def)

lemma other_forward: "keeps (other k st p) (forwardMsgToBalsession E sid p)"
proof -
  have heap: "keeps (\<lambda>a. ap_heap a = h) (on_bal_mgr sid m2)" "keeps (\<lambda>a. ap_heap a = h) (write_session E sess j)"
      "keeps (\<lambda>a. ap_heap a = h) (payload_of p)" "keeps (\<lambda>a. ap_heap a = h) (findBalSession sid)"
      "keeps (\<lambda>a. ap_heap a = h) (findBalMessageManager sid)" for h m2 sess j
    by (auto simp: on_bal_mgr_def write_session_def put_session_def payload_of_def findBalSession_def findBalMessageManager_def
        keeps_def zoom_def getsE_def split: prod.splits)
  have upd: "keeps (other k st p) (update_msg E p mst)" for mst
    by (auto simp: keeps_def settled_def mgr_of_def update_msg_def on_db_def updateMsgState_def sq_call_def monad_defs om_find_store
        split: option.splits)
  have st: "keeps (other k st p) (set_state p mst)" for mst
    by (auto simp: keeps_def settled_def mgr_of_def set_state_def on_msg_def zoom_def modify_def)
  show ?thesis
    unfolding forwardMsgToBalsession_def forwardMsg_def
    by (intro keeps_intros upd st) (auto intro!: keeps_other settled_off heap keeps_intros)
qed

lemma settled_notice:
  assumes "\<And>s p. msg_sequenceId (f s p) = s" and "\<And>p. keeps (other k st p) (m p)"
  shows "keeps (settled ''fcm'' k st) (bindM (on_db getNextSequenceId) (\<lambda>s. bindM (new_msg (f s)) (\<lambda>p. thenM (save_msg E p) (m p))))"
  unfolding keeps_def
proof (intro allI impI)
  fix a
  assume pre: "settled ''fcm'' k st a"
  let ?d = "ap_dbConn a" and ?s = "db_sequenceId (ap_dbConn a) + 1" and ?p = "ap_next a"
  have save: "keeps (other k st p) (save_msg E p)" for p
    by (rule keeps_other [OF settled_save], unfold save_msg_def on_db_def) (intro keeps_intros keeps_zoom, simp)
  show "settled ''fcm'' k st (snd (bindM (on_db getNextSequenceId) (\<lambda>s. bindM (new_msg (f s)) (\<lambda>p. thenM (save_msg E p) (m p))) a))"
  proof (cases "db_sequenceId ?d = int64_max")
    case True
    with pre show ?thesis by (simp add: on_db_def getNextSequenceId_def bindM_def zoom_def)
  next
    case False
    let ?a = "a \<lparr> ap_dbConn := ?d \<lparr> db_sequenceId := ?s \<rparr>, ap_heap := (ap_heap a)(?p := f ?s ?p), ap_next := Suc ?p \<rparr>"
    have "other k st ?p ?a" using pre assms(1) by (auto simp: settled_def mgr_of_def)
    from keeps_thenM [OF save assms(2), unfolded keeps_def, rule_format, OF this]
    have fin: "settled ''fcm'' k st (snd (thenM (save_msg E ?p) (m ?p) ?a))" by (rule conjunct1)
    have "bindM (on_db getNextSequenceId) (\<lambda>s. bindM (new_msg (f s)) (\<lambda>p. thenM (save_msg E p) (m p))) a = thenM (save_msg E ?p) (m ?p) ?a"
      using False by (simp add: on_db_def getNextSequenceId_def bindM_def [of "zoom _ _ _"] bindM_def [of "new_msg _"] zoom_def new_msg_def)
    with fin show ?thesis by simp
  qed
qed

lemma settle_fcm_then:
  fixes rest :: "(app, unit) M" and E :: env and st :: MessageState
  assumes "app_ok G {} n S q a" and "om_find (q ''fcm'') k = Some p" and "om_find (mm_sequenceIdMap (ap_fcmMsgManager a)) mid = Some k"
    and "keeps (settled ''fcm'' k (MessageState_code st)) rest"
  defines "m \<equiv> thenM (update_msg E p st) (bindM (gets ap_heap) (\<lambda>h. thenM (on_fcm_mgr (removeMessageWithFcmMsgId h mid)) rest))"
  shows "if sq_fails E (db_steps (ap_dbConn a))
    then \<exists>e d. m a = (Inl (Throw e), a \<lparr> ap_dbConn := d \<rparr>) \<and> db_rows d = db_rows (ap_dbConn a)
    else settled ''fcm'' k (MessageState_code st) (snd (m a))"
proof (cases "sq_fails E (db_steps (ap_dbConn a))")
  case True
  with update_run [OF assms(1) insertI1 assms(2), of E st] show ?thesis by (auto simp: m_def thenM_fail)
next
  case False
  with update_run [OF assms(1) insertI1 assms(2), of E st] obtain d r where
    u: "update_msg E p st a = (Inr (), a \<lparr> ap_dbConn := d \<rparr>)" "om_find (db_rows d) k = Some r"
      "r_state r = MessageState_code st" "k \<le> db_sequenceId d" by auto
  obtain mg where mg: "removeMessage (ap_heap a) k (ap_fcmMsgManager a) = (Inr (), mg)" "om_find (mm_messages mg) k = None"
    using remove_run [OF assms(1) insertI1 assms(2)] by (auto simp: mgr_of_def)
  let ?a = "a \<lparr> ap_dbConn := d, ap_fcmMsgManager := mg \<rparr>"
  have "m a = rest ?a"
    using u(1) mg(1) assms(3)
    by (simp add: m_def thenM_ok bindM_def gets_def thenM_def on_fcm_mgr_def zoom_def removeMessageWithFcmMsgId_def getsE_def findSequenceId_def)
  moreover have "settled ''fcm'' k (MessageState_code st) ?a" using u mg(2) by (simp add: settled_def mgr_of_def)
  ultimately show ?thesis using False assms(4) by (simp add: keeps_def)
qed

lemma find_fcm_key:
  assumes "app_ok G {} n S q a" and "findMessageWithFcmMsgId (ap_fcmMsgManager a) mid = Inr p"
  shows "om_find (q ''fcm'') (msg_sequenceId (ap_heap a p)) = Some p"
    "om_find (mm_sequenceIdMap (ap_fcmMsgManager a)) mid = Some (msg_sequenceId (ap_heap a p))"
proof -
  obtain k where k: "om_find (q ''fcm'') k = Some p" "om_find (mm_sequenceIdMap (ap_fcmMsgManager a)) mid = Some k"
    using find_fcm_cases(1) [OF assms] by blast
  note ok = core_okD(9,10) [OF app_ok_core [OF assms(1)] insertI1]
  have "mm_ok (ap_heap a) (mgr_of ''fcm'' a)" "om_find (mm_messages (mgr_of ''fcm'' a)) k = Some p"
    using ok k(1) by (auto simp: mgr_ok_def)
  then have "msg_sequenceId (ap_heap a p) = k" by (rule mm_okD(5))
  with k show "om_find (q ''fcm'') (msg_sequenceId (ap_heap a p)) = Some p"
    "om_find (mm_sequenceIdMap (ap_fcmMsgManager a)) mid = Some (msg_sequenceId (ap_heap a p))" by simp_all
qed

lemma ack_settles:
  fixes E :: env and i :: int
  assumes "app_ok G {} n S q a" and "findMessageWithFcmMsgId (ap_fcmMsgManager a) (j_string (doc_object j) F_MESSAGE_ID) = Inr p"
  defines "a' \<equiv> snd (handleFcmAckMessage E i j a)" and "k \<equiv> msg_sequenceId (ap_heap a p)"
  shows "if sq_fails E (db_steps (ap_dbConn a)) then ap_fcmMsgManager a' = ap_fcmMsgManager a \<and> db_rows (ap_dbConn a') = db_rows (ap_dbConn a)
    else settled ''fcm'' k 3 a'"
proof -
  let ?mid = "j_string (doc_object j) F_MESSAGE_ID"
  note key = find_fcm_key [OF assms(1,2), folded k_def]
  let ?f = "\<lambda>sid s p. Message_new E p s DOWNSTREAM_ACK ?mid [] ''fcm'' sid (Some (gimmm_msg s ''DOWNSTREAM_ACK'' sid (doc_object j))) NEW"
  let ?sid = "msg_sourceSessionId (ap_heap a p)"
  have "keeps (settled ''fcm'' k (MessageState_code DELIVERED)) (thenM (sendNextPendingDownstreamMessage E)
      (bindM (on_db getNextSequenceId) (\<lambda>s. bindM (new_msg (?f ?sid s)) (\<lambda>q. thenM (save_msg E q) (forwardMsgToBalsession E ?sid q)))))"
    by (intro keeps_thenM settled_send settled_notice other_forward) (simp add: Message_new_def)
  from settle_fcm_then [OF assms(1) key this, of E] assms(2) show ?thesis
    unfolding a'_def handleFcmAckMessage_def Let_def
    by (auto simp: tryM_def bindM_def [of "getsE _"] bindM_def [of "gets (\<lambda>a. msg_sourceSessionId (ap_heap a p))"] getsE_def gets_def [of "\<lambda>a. msg_sourceSessionId (ap_heap a p)"]
        split: prod.splits sum.splits fault.splits if_splits)
qed

text \<open>A rejected upload: retried after a while, or settled as failed.\<close>

lemma settled_notify: "keeps (settled ''fcm'' k st) (notifyDownstreamUploadFailure E p)"
proof -
  have "keeps (settled ''fcm'' k st) (bindM (gets g) m)" if "\<And>x. keeps (settled ''fcm'' k st) (m x)" for g :: "app \<Rightarrow> 'a" and m :: "'a \<Rightarrow> (app, unit) M"
    using that by (intro keeps_intros)
  then show ?thesis
    unfolding notifyDownstreamUploadFailure_def Let_def by (auto intro!: keeps_intros)
qed

lemma nack_settles:
  fixes E :: env and i :: int
  assumes "app_ok G {} n S q a" and "findMessageWithFcmMsgId (ap_fcmMsgManager a) (j_string (doc_object j) F_MESSAGE_ID) = Inr p"
    and "\<not> retriable_nack (j_string (doc_object j) F_ERROR)"
  defines "a' \<equiv> snd (handleFcmNackMessage E i j a)" and "k \<equiv> msg_sequenceId (ap_heap a p)"
  shows "if sq_fails E (db_steps (ap_dbConn a)) then ap_fcmMsgManager a' = ap_fcmMsgManager a \<and> db_rows (ap_dbConn a') = db_rows (ap_dbConn a)
    else settled ''fcm'' k 4 a'"
proof -
  let ?mid = "j_string (doc_object j) F_MESSAGE_ID"
  note key = find_fcm_key [OF assms(1,2), folded k_def]
  have "keeps (settled ''fcm'' k (MessageState_code DELIVERY_FAILED))
      (thenM (sendNextPendingDownstreamMessage E) (notifyDownstreamUploadFailure E p))"
    by (intro keeps_thenM settled_send settled_notify)
  from settle_fcm_then [OF assms(1) key this, of E] assms(2,3) show ?thesis
    unfolding a'_def handleFcmNackMessage_def Let_def
    by (auto simp: tryM_def bindM_def [of "getsE _"] getsE_def split: prod.splits sum.splits fault.splits if_splits)
qed

text \<open>A retry starts one timer, or is undefined.\<close>

definition retry_outcome :: "message \<Rightarrow> ptr \<Rightarrow> fault + unit \<Rightarrow> (int \<times> app_timer) list \<Rightarrow> bool" where
  "retry_outcome x p r ts \<longleftrightarrow>
     (if msg_nRetry x = None then r = Inl (Undefined UninitRead) \<and> ts = []
      else case r of Inl f \<Rightarrow> f \<in> {Undefined SignedOverflow, Undefined DoubleToInt} \<and> ts = []
        | Inr _ \<Rightarrow> \<exists>msec \<ge> 100. ts = [(msec, TRetryDownstream p)])"

lemma retry_run:
  assumes "msg_good (ap_heap a p)" and "draws_in_range E"
  shows "\<exists>r y ts. retryDownstreamWithExponentialBackoff E p a =
      (r, a \<lparr> ap_heap := (ap_heap a)(p := y), ap_timers := ap_timers a @ ts \<rparr>) \<and>
    msg_type y = msg_type (ap_heap a p) \<and> retry_outcome (ap_heap a p) p r ts"
proof -
  obtain t y where t: "getNextRetryTimeout E (ap_heap a p) = (t, y)" by fastforce
  then have type: "msg_type y = msg_type (ap_heap a p)"
    by (auto simp: getNextRetryTimeout_def zoom_def Let_def split: option.splits sum.splits if_splits prod.splits)
  show ?thesis
  proof (cases t)
    case (Inl f)
    have "retry_outcome (ap_heap a p) p (Inl f) []"
      using t Inl assms(1)
      by (auto simp: retry_outcome_def getNextRetryTimeout_def backoff_next_def inc32_def zoom_def Let_def msg_good_def
          split: if_splits prod.splits sum.splits option.splits)
    with t Inl type show ?thesis
      by (intro exI [of _ "Inl f"] exI [of _ y] exI [of _ "[]"])
        (simp add: retryDownstreamWithExponentialBackoff_def bindM_def on_msg_def zoom_def)
  next
    case (Inr v)
    have d: "bo_distribution (msg_exboff (ap_heap a p)) = (100, 1000)" using assms(1) by (simp add: msg_good_def)
    have "100 \<le> v" and "msg_nRetry (ap_heap a p) \<noteq> None"
      using backoff_next_ge [OF assms(2) d] t Inr assms(1)
      by (fastforce simp: getNextRetryTimeout_def zoom_def Let_def msg_good_def split: sum.splits prod.splits if_splits option.splits)+
    then show ?thesis
      using t Inr type
      by (intro exI [of _ "Inr ()"] exI [of _ "y \<lparr> msg_retryInProgress := True \<rparr>"] exI [of _ "[(v, TRetryDownstream p)]"])
        (auto simp: retry_outcome_def retryDownstreamWithExponentialBackoff_def on_msg_def set_retry_def start_timer_def
          zoom_def modify_def monad_defs)
  qed
qed

lemma nack_retries:
  fixes E :: env and i :: int
  assumes "app_ok G {} n S q a" and "findMessageWithFcmMsgId (ap_fcmMsgManager a) (j_string (doc_object j) F_MESSAGE_ID) = Inr p"
    and "retriable_nack (j_string (doc_object j) F_ERROR)" and "draws_in_range E"
    and "handleFcmNackMessage E i j a = (r, a')"
  shows "ap_fcmMsgManager a' = ap_fcmMsgManager a \<and> ap_dbConn a' = ap_dbConn a \<and>
    (if msg_nRetry (ap_heap a p) = None then r = Inl (Undefined UninitRead)
     else case r of Inl f \<Rightarrow> f = Undefined SignedOverflow \<or> f = Undefined DoubleToInt
       | Inr _ \<Rightarrow> \<exists>msec \<ge> 100. ap_timers a' = ap_timers a @ [(msec, TRetryDownstream p)])"
proof -
  have p: "p < ap_next a" using find_fcm_cases(1) [OF assms(1,2)] by blast
  then have good: "msg_good (ap_heap a p)" using core_okD(8) [OF app_ok_core [OF assms(1)]] by blast
  have run: "handleFcmNackMessage E i j a = tryM (retryDownstreamWithExponentialBackoff E p) a"
    using assms(2,3) by (simp add: handleFcmNackMessage_def Let_def tryM_def bindM_def [of "getsE _"] getsE_def)
  from retry_run [OF good assms(4)] obtain r' y ts where
    "retryDownstreamWithExponentialBackoff E p a = (r', a \<lparr> ap_heap := (ap_heap a)(p := y), ap_timers := ap_timers a @ ts \<rparr>)"
    "retry_outcome (ap_heap a p) p r' ts" by blast
  with run assms(5) show ?thesis
    by (cases r') (auto simp: tryM_def retry_outcome_def split: if_splits)
qed

text \<open>The notice of a failed upload: what a session that takes it is written, and the row that is saved.\<close>

definition notice :: "env \<Rightarrow> wire \<Rightarrow> json \<Rightarrow> balsession option \<Rightarrow> (sock \<times> string) list" where
  "notice E w j s =
     (case s of None \<Rightarrow> []
      | Some ses \<Rightarrow>
          if bs_state ses = AUTHENTICATED \<and> \<not> qt_writeFails E (w_count w)
          then [(the (bs_balConn ses), qt_frame E (qt_toBinaryData E j))] else [])"

definition reject_row :: "string \<Rightarrow> row \<Rightarrow> bool" where
  "reject_row sid r \<longleftrightarrow> r_type r = MessageType_code DOWNSTREAM_REJECT \<and> r_state r = MessageState_code PENDING_ACK \<and>
     r_target_session r = c_str sid"

lemma writeMessage_notice:
  assumes "bs_ok ses"
  shows "\<exists>r w'. writeMessage E ses j w = (r, w') \<and> (r = Inr () \<or> (\<exists>e. r = Inl (Throw e))) \<and>
    w_out w' = w_out w @ notice E w j (Some ses)"
proof (cases "bs_state ses = AUTHENTICATED")
  case True
  with assms obtain s where s: "bs_balConn ses = Some s" by (auto simp: bs_ok_def)
  show ?thesis
  proof (cases "qt_writeFails E (w_count w)")
    case True
    then show ?thesis using \<open>bs_state ses = AUTHENTICATED\<close> s
      by (simp add: writeMessage_def sock_write_def notice_def bindM_def raise_def)
  next
    case False
    then show ?thesis using \<open>bs_state ses = AUTHENTICATED\<close> s
      by (simp add: writeMessage_def sock_write_def notice_def bindM_def ret_def)
  qed
next
  case False
  then show ?thesis by (simp add: writeMessage_def notice_def raise_def)
qed

lemma write_found:
  assumes "\<And>ses. om_find (ap_balSessionMap a) sid = Some ses \<Longrightarrow> bs_ok ses"
  shows "\<exists>r w. bindM (findBalSession sid) (\<lambda>sess. write_session E sess j) a = (r, a \<lparr> ap_wire := w \<rparr>) \<and>
    (r = Inr () \<or> (\<exists>e. r = Inl (Throw e))) \<and>
    w_out w = w_out (ap_wire a) @ notice E (ap_wire a) j (om_find (ap_balSessionMap a) sid)"
proof (cases "om_find (ap_balSessionMap a) sid")
  case None
  then show ?thesis
    by (intro exI [of _ "Inl (Throw (UnknownBalSession sid))"] exI [of _ "ap_wire a"])
      (simp add: findBalSession_def bindM_def getsE_def notice_def)
next
  case (Some ses)
  have "bindM (findBalSession sid) (\<lambda>sess. write_session E sess j) a = write_session E ses j a"
    using Some by (simp add: findBalSession_def bindM_def getsE_def)
  moreover obtain r w where w: "writeMessage E ses j (ap_wire a) = (r, w)" "r = Inr () \<or> (\<exists>e. r = Inl (Throw e))"
    "w_out w = w_out (ap_wire a) @ notice E (ap_wire a) j (Some ses)"
    using writeMessage_notice [OF assms [OF Some], of E j "ap_wire a"] by blast
  moreover have "write_session E ses j a = (r, a \<lparr> ap_wire := w \<rparr>)" by (simp add: write_session_def zoom_def w(1))
  ultimately show ?thesis using Some by (intro exI [of _ r] exI [of _ w]) simp
qed

lemma notify_start:
  assumes "msg_payload (ap_heap a p) = Some j" and "db_sequenceId (ap_dbConn a) < int64_max"
  shows "\<exists>x root. notifyDownstreamUploadFailure E p a =
      tryM (thenM (save_msg E (ap_next a))
             (bindM (findBalSession (msg_sourceSessionId (ap_heap a p))) (\<lambda>sess. write_session E sess j)))
        (a \<lparr> ap_dbConn := (ap_dbConn a) \<lparr> db_sequenceId := db_sequenceId (ap_dbConn a) + 1 \<rparr>,
             ap_heap := (ap_heap a)(ap_next a := x), ap_next := Suc (ap_next a) \<rparr>) \<and>
    msg_payload x = Some root \<and> msg_sequenceId x = db_sequenceId (ap_dbConn a) + 1 \<and> msg_type x = DOWNSTREAM_REJECT \<and>
    msg_state x = PENDING_ACK \<and> msg_targetSessionId x = msg_sourceSessionId (ap_heap a p)"
proof -
  let ?s = "db_sequenceId (ap_dbConn a) + 1" and ?q = "ap_next a"
  let ?a1 = "a \<lparr> ap_dbConn := (ap_dbConn a) \<lparr> db_sequenceId := ?s \<rparr> \<rparr>"
  have 1: "bindM (payload_of p) F a = F j a" for F :: "json \<Rightarrow> (app, unit) M"
    using assms(1) by (simp add: payload_of_def bindM_def getsE_def)
  have 2: "bindM (on_db getNextSequenceId) F a = F ?s ?a1" for F :: "int \<Rightarrow> (app, unit) M"
    using assms(2) by (simp add: on_db_def zoom_def bindM_def getNextSequenceId_def)
  have 3: "bindM (gets (\<lambda>a. ap_heap a p)) F ?a1 = F (ap_heap a p) ?a1" for F :: "message \<Rightarrow> (app, unit) M"
    by (simp add: gets_def bindM_def)
  have 4: "bindM (new_msg f) F ?a1 = F ?q (?a1 \<lparr> ap_heap := (ap_heap a)(?q := f ?q), ap_next := Suc ?q \<rparr>)"
    for f and F :: "nat \<Rightarrow> (app, unit) M"
    by (simp add: new_msg_def bindM_def)
  show ?thesis
    unfolding notifyDownstreamUploadFailure_def Let_def 1 tryM_def 2 3 4
    by (intro exI conjI, rule refl) simp_all
qed

lemma save_msg_run:
  assumes "msg_payload (ap_heap a p) = Some j" and "om_find (db_rows (ap_dbConn a)) (msg_sequenceId (ap_heap a p)) = None"
  shows "save_msg E p a =
    (if sq_fails E (db_steps (ap_dbConn a))
     then (Inl (Throw (InsertFailed (msg_sequenceId (ap_heap a p)))),
           a \<lparr> ap_dbConn := (ap_dbConn a) \<lparr> db_steps := Suc (db_steps (ap_dbConn a)) \<rparr> \<rparr>)
     else (Inr (), a \<lparr> ap_dbConn := (ap_dbConn a) \<lparr> db_steps := Suc (db_steps (ap_dbConn a)),
             db_rows := om_emplace (msg_sequenceId (ap_heap a p)) (bound_row E (db_steps (ap_dbConn a)) (ap_heap a p) j)
               (db_rows (ap_dbConn a)) \<rparr> \<rparr>))"
  using assms by (simp add: save_msg_def on_db_def zoom_def saveMsg_def sq_call_def monad_defs modify_def)

lemma notify_run:
  assumes "msg_payload (ap_heap a p) = Some j" and "db_sequenceId (ap_dbConn a) < int64_max"
    and "om_find (db_rows (ap_dbConn a)) (db_sequenceId (ap_dbConn a) + 1) = None" and "om_wf (db_rows (ap_dbConn a))"
    and "\<And>ses. om_find (ap_balSessionMap a) (msg_sourceSessionId (ap_heap a p)) = Some ses \<Longrightarrow> bs_ok ses"
  shows "\<exists>a'. notifyDownstreamUploadFailure E p a = (Inr (), a') \<and>
    (if sq_fails E (db_steps (ap_dbConn a)) then ap_wire a' = ap_wire a \<and> db_rows (ap_dbConn a') = db_rows (ap_dbConn a)
     else w_out (ap_wire a') = w_out (ap_wire a) @
         notice E (ap_wire a) j (om_find (ap_balSessionMap a) (msg_sourceSessionId (ap_heap a p))) \<and>
       (\<exists>r. om_find (db_rows (ap_dbConn a')) (db_sequenceId (ap_dbConn a) + 1) = Some r \<and>
          reject_row (msg_sourceSessionId (ap_heap a p)) r))"
proof -
  let ?s = "db_sequenceId (ap_dbConn a) + 1" and ?sid = "msg_sourceSessionId (ap_heap a p)"
  let ?w = "bindM (findBalSession ?sid) (\<lambda>sess. write_session E sess j)"
  obtain x root b where start: "notifyDownstreamUploadFailure E p a = tryM (thenM (save_msg E (ap_next a)) ?w) b"
    and x: "msg_payload x = Some root" "msg_sequenceId x = ?s" "msg_type x = DOWNSTREAM_REJECT" "msg_state x = PENDING_ACK"
      "msg_targetSessionId x = ?sid"
    and b: "ap_heap b (ap_next a) = x" "db_rows (ap_dbConn b) = db_rows (ap_dbConn a)"
      "db_steps (ap_dbConn b) = db_steps (ap_dbConn a)" "ap_wire b = ap_wire a" "ap_balSessionMap b = ap_balSessionMap a"
    using notify_start [OF assms(1,2), of E] by fastforce
  note save = save_msg_run [where a = b and p = "ap_next a", unfolded b x, OF refl assms(3), of E]
  show ?thesis
  proof (cases "sq_fails E (db_steps (ap_dbConn a))")
    case True
    with save have "notifyDownstreamUploadFailure E p a = (Inr (), b \<lparr> ap_dbConn := (ap_dbConn b) \<lparr> db_steps := Suc (db_steps (ap_dbConn a)) \<rparr> \<rparr>)"
      by (simp add: start tryM_def thenM_fail)
    with True b show ?thesis by simp
  next
    case False
    let ?r = "bound_row E (db_steps (ap_dbConn a)) x root"
    let ?c = "b \<lparr> ap_dbConn := (ap_dbConn b) \<lparr> db_steps := Suc (db_steps (ap_dbConn a)),
        db_rows := om_emplace ?s ?r (db_rows (ap_dbConn a)) \<rparr> \<rparr>"
    have c: "ap_wire ?c = ap_wire a" "ap_balSessionMap ?c = ap_balSessionMap a"
      "db_rows (ap_dbConn ?c) = om_emplace ?s ?r (db_rows (ap_dbConn a))"
      by (simp_all add: b)
    from save False have "save_msg E (ap_next a) b = (Inr (), ?c)" by simp
    then have run: "notifyDownstreamUploadFailure E p a = tryM ?w ?c" by (simp only: start tryM_def thenM_ok)
    obtain r w where w: "?w ?c = (r, ?c \<lparr> ap_wire := w \<rparr>)" "r = Inr () \<or> (\<exists>e. r = Inl (Throw e))"
      "w_out w = w_out (ap_wire a) @ notice E (ap_wire a) j (om_find (ap_balSessionMap a) ?sid)"
      using write_found [where a = ?c and sid = ?sid and E = E and j = j, unfolded c, OF assms(5)] by blast
    from w(2) have "notifyDownstreamUploadFailure E p a = (Inr (), ?c \<lparr> ap_wire := w \<rparr>)"
      unfolding run tryM_def w(1) by auto
    moreover have "reject_row ?sid ?r" using x by (simp add: reject_row_def bound_row_def)
    moreover have "om_find (om_emplace ?s ?r (db_rows (ap_dbConn a))) ?s = Some ?r" by (simp add: om_find_emplace [OF assms(4)] assms(3))
    ultimately show ?thesis using False w(3) by simp
  qed
qed

lemma sendNext_returns:
  assumes "app_ok G {} n S q a"
  shows "\<exists>conns log. sendNextPendingDownstreamMessage E a = (Inr (), a \<lparr> ap_fcmConnectionsMap := conns, ap_log := log \<rparr>)"
proof -
  note mgr = app_ok_mgr [OF assms insertI1]
  have getn: "getNext (ap_heap a) (ap_fcmMsgManager a) = Inr x \<Longrightarrow> ?thesis" for x
  proof (cases x)
    case None
    assume "getNext (ap_heap a) (ap_fcmMsgManager a) = Inr x"
    with None show ?thesis
      by (intro exI [of _ "ap_fcmConnectionsMap a"] exI [of _ "ap_log a"])
        (simp add: sendNextPendingDownstreamMessage_def bindM_def getsE_def ret_def)
  next
    case (Some p)
    assume g: "getNext (ap_heap a) (ap_fcmMsgManager a) = Inr x"
    then obtain k where "(k, p) \<in> set (mm_messages (ap_fcmMsgManager a))"
      using getNext_queued [OF mgr(2)] Some by (auto simp: mgr_of_def)
    then have "p < ap_next a" using mgr(4) [of k p] mgr(3) by (auto simp: mgr_of_def)
    then obtain j where "msg_payload (ap_heap a p) = Some j"
      using core_okD(8) [OF app_ok_core [OF assms]] by (auto simp: msg_good_def)
    with sendNext_run [OF assms _ this] g Some show ?thesis by blast
  qed
  obtain x where "getNext (ap_heap a) (ap_fcmMsgManager a) = Inr x"
    using getNext_find [OF mgr(2)] by (auto simp: mgr_of_def)
  then show ?thesis by (rule getn)
qed

text \<open>A final rejection tells the application: after the message is settled, a notice is saved and written.\<close>

lemma nack_notifies:
  fixes E :: env and i :: int
  assumes "app_ok (Since UNIV L) {} n S q a"
    and "findMessageWithFcmMsgId (ap_fcmMsgManager a) (j_string (doc_object j) F_MESSAGE_ID) = Inr p"
    and "\<not> retriable_nack (j_string (doc_object j) F_ERROR)" and "\<not> sq_fails E (db_steps (ap_dbConn a))"
    and "db_sequenceId (ap_dbConn a) < int64_max"
  shows "\<exists>a' payload. handleFcmNackMessage E i j a = (Inr (), a') \<and> msg_payload (ap_heap a p) = Some payload \<and>
    (if sq_fails E (Suc (db_steps (ap_dbConn a))) then ap_wire a' = ap_wire a
     else w_out (ap_wire a') = w_out (ap_wire a) @
         notice E (ap_wire a) payload (om_find (ap_balSessionMap a) (msg_sourceSessionId (ap_heap a p))) \<and>
       (\<exists>r. om_find (db_rows (ap_dbConn a')) (db_sequenceId (ap_dbConn a) + 1) = Some r \<and>
          reject_row (msg_sourceSessionId (ap_heap a p)) r))"
proof -
  let ?G = "Since UNIV L" and ?mid = "j_string (doc_object j) F_MESSAGE_ID" and ?k = "msg_sequenceId (ap_heap a p)"
  note key = find_fcm_key [OF assms(1,2)]
  have p: "p < ap_next a" using find_fcm_cases(1) [OF assms(1,2)] by blast
  then obtain payload where pay: "msg_payload (ap_heap a p) = Some payload"
    using core_okD(8) [OF app_ok_core [OF assms(1)]] by (auto simp: msg_good_def)
  obtain d where u: "update_msg E p DELIVERY_FAILED a = (Inr (), a \<lparr> ap_dbConn := d \<rparr>)"
    using update_run [OF assms(1) insertI1 key(1), of E DELIVERY_FAILED] assms(4) by auto
  then have upd: "updateMsgState E (ap_heap a p) DELIVERY_FAILED (ap_dbConn a) = (Inr (), d)"
    by (auto simp: update_msg_def on_db_def zoom_def bindM_def gets_def split: prod.splits dest: arg_cong [where f = ap_dbConn])
  have d: "db_sequenceId d = db_sequenceId (ap_dbConn a)" "db_steps d = Suc (db_steps (ap_dbConn a))"
    "db_ok d"
    using db_ok_update [OF core_okD(1) [OF app_ok_core [OF assms(1)]] upd] updateMsgState_cases [OF upd] by auto
  obtain mg where mg: "removeMessage (ap_heap a) ?k (ap_fcmMsgManager a) = (Inr (), mg)"
    using remove_run [OF assms(1) insertI1 key(1)] by (auto simp: mgr_of_def)
  let ?a = "a \<lparr> ap_dbConn := d, ap_fcmMsgManager := mg \<rparr>"
  have settle: "thenM (update_msg E p DELIVERY_FAILED) (bindM (gets ap_heap) (\<lambda>h. thenM (on_fcm_mgr (removeMessageWithFcmMsgId h ?mid)) m)) a = m ?a"
    for m :: "(app, unit) M"
    using u mg key(2)
    by (simp add: thenM_ok bindM_def gets_def thenM_def on_fcm_mgr_def zoom_def removeMessageWithFcmMsgId_def getsE_def findSequenceId_def)
  have "runs ?G n S (\<lambda>a. app_ok ?G {} n S q a \<and> om_find (mm_sequenceIdMap (ap_fcmMsgManager a)) ?mid = Some ?k)
      (thenM (update_msg E p DELIVERY_FAILED) (bindM (gets ap_heap) (\<lambda>h. thenM (on_fcm_mgr (removeMessageWithFcmMsgId h ?mid)) (ret ()))))
      (\<lambda>_. Inv ?G n S)"
    by (rule runs_settle_fcm [where q = q, OF key(1)]) (auto simp: may_settle_def intro: runs_ret app_ok_Inv)
  from hoareD_ok [OF this [unfolded runs_def]] settle [of "ret ()"] assms(1) key(2) have "Inv ?G n S ?a" by (simp add: ret_def)
  then obtain q' where ok: "app_ok ?G {} n S q' ?a" by (auto simp: Inv_def)
  from sendNext_returns [OF ok, of E] obtain conns log where
    send: "sendNextPendingDownstreamMessage E ?a = (Inr (), ?a \<lparr> ap_fcmConnectionsMap := conns, ap_log := log \<rparr>)" by blast
  let ?b = "?a \<lparr> ap_fcmConnectionsMap := conns, ap_log := log \<rparr>"
  have free: "om_find (db_rows d) (db_sequenceId d + 1) = None" and wf: "om_wf (db_rows d)"
    using d(3) om_find_key by (fastforce simp: db_ok_def)+
  have "bs_ok ses" if "om_find (ap_balSessionMap a) sid = Some ses" for sid ses
  proof -
    have "sid \<in> S" using om_find_key [OF that] core_okD(4) [OF app_ok_core [OF assms(1)]] by auto
    then show ?thesis using core_okD(12) [OF app_ok_core [OF assms(1)], of sid] that by (simp add: the_session_def)
  qed
  then obtain a' where n: "notifyDownstreamUploadFailure E p ?b = (Inr (), a')"
    "if sq_fails E (Suc (db_steps (ap_dbConn a))) then ap_wire a' = ap_wire a
     else w_out (ap_wire a') = w_out (ap_wire a) @
         notice E (ap_wire a) payload (om_find (ap_balSessionMap a) (msg_sourceSessionId (ap_heap a p))) \<and>
       (\<exists>r. om_find (db_rows (ap_dbConn a')) (db_sequenceId (ap_dbConn a) + 1) = Some r \<and>
          reject_row (msg_sourceSessionId (ap_heap a p)) r)"
    using notify_run [of ?b p payload E] pay free wf d assms(5) by (auto split: if_splits)
  have "handleFcmNackMessage E i j a = (Inr (), a')"
    using assms(2,3) settle [of "thenM (sendNextPendingDownstreamMessage E) (notifyDownstreamUploadFailure E p)"] send n(1)
    by (simp add: handleFcmNackMessage_def Let_def tryM_def bindM_def [of "getsE _"] getsE_def thenM_ok)
  with n(2) pay show ?thesis by blast
qed

section \<open>An upstream message\<close>

text \<open>The row of an upstream message that still has to be delivered.\<close>

definition upstream_row :: "env \<Rightarrow> json \<Rightarrow> int \<Rightarrow> row \<Rightarrow> bool" where
  "upstream_row E j s r \<longleftrightarrow>
     r_state r \<in> {1, 2} \<and> r_type r = 3 \<and> r_target_session r = c_str (j_string (doc_object j) F_CATEGORY) \<and>
     r_fcm_message_id r = Some (c_str (j_string (doc_object j) F_MESSAGE_ID)) \<and>
     r_payload r = c_str (qt_toJson E (gimmm_msg s ''UPSTREAM'' (j_string (doc_object j) F_CATEGORY) (doc_object j)))"

definition has_row :: "int \<Rightarrow> (row \<Rightarrow> bool) \<Rightarrow> (int \<times> fcm_act) list \<Rightarrow> app \<Rightarrow> bool" where
  "has_row s R L a \<longleftrightarrow> ap_log a = L \<and> (\<exists>r. om_find (db_rows (ap_dbConn a)) s = Some r \<and> R r)"

lemma has_row_forward:
  assumes "\<And>r t. R r \<Longrightarrow> R (update_row 2 t r)"
  shows "keeps (has_row s R L) (forwardMsgToBalsession E sid p)"
proof -
  have off: "keeps (has_row s R L) (on_bal_mgr sid m2)" "keeps (has_row s R L) (write_session E sess j)"
      "keeps (has_row s R L) (payload_of p)" "keeps (has_row s R L) (findBalSession sid)"
      "keeps (has_row s R L) (findBalMessageManager sid)" "keeps (has_row s R L) (set_state p mst)" for m2 sess j mst
    by (auto simp: on_bal_mgr_def write_session_def put_session_def payload_of_def findBalSession_def findBalMessageManager_def
        set_state_def on_msg_def keeps_def zoom_def getsE_def modify_def has_row_def split: prod.splits)
  have upd: "keeps (has_row s R L) (update_msg E p PENDING_ACK)"
    using assms by (auto simp: keeps_def has_row_def update_msg_def on_db_def updateMsgState_def sq_call_def monad_defs om_find_store
        split: option.splits)
  show ?thesis
    unfolding forwardMsgToBalsession_def forwardMsg_def by (auto intro!: keeps_intros off upd)
qed

text \<open>The acknowledgement FCM gets for a message.\<close>

definition fcm_ack :: "json \<Rightarrow> json" where
  "fcm_ack j =
     JObject (om_store F_MESSAGE_TYPE (JString ''ack'')
             (om_store F_MESSAGE_ID (JString (c_str (j_string (doc_object j) ''message_id'')))
             (om_store F_TO (JString (c_str (j_string (doc_object j) ''from''))) [])))"

lemma sendFcmAck_eq: "sendFcmAckMessage E j = sendMessage E (fcm_ack j)"
  by (simp only: sendFcmAckMessage_def fcm_ack_def Let_def)

text \<open>The message the slot makes, and the state with its id taken and the message on the heap.\<close>

definition upstream_msg :: "env \<Rightarrow> json \<Rightarrow> app \<Rightarrow> message" where
  "upstream_msg E j a =
     (let sid = j_string (doc_object j) F_CATEGORY; s = db_sequenceId (ap_dbConn a) + 1
      in Message_new E (ap_next a) s UPSTREAM (j_string (doc_object j) F_MESSAGE_ID) [] ''fcm'' sid
           (Some (gimmm_msg s ''UPSTREAM'' sid (doc_object j))) NEW)"

definition upstream_made :: "env \<Rightarrow> json \<Rightarrow> app \<Rightarrow> app" where
  "upstream_made E j a = a \<lparr> ap_dbConn := (ap_dbConn a) \<lparr> db_sequenceId := db_sequenceId (ap_dbConn a) + 1 \<rparr>,
     ap_heap := (ap_heap a)(ap_next a := upstream_msg E j a), ap_next := Suc (ap_next a) \<rparr>"

definition upstream_saved :: "env \<Rightarrow> json \<Rightarrow> app \<Rightarrow> app" where
  "upstream_saved E j a =
     (let sid = j_string (doc_object j) F_CATEGORY; s = db_sequenceId (ap_dbConn a) + 1;
          row = bound_row E (db_steps (ap_dbConn a)) (upstream_msg E j a) (gimmm_msg s ''UPSTREAM'' sid (doc_object j))
      in (upstream_made E j a) \<lparr> ap_dbConn := (ap_dbConn a) \<lparr> db_sequenceId := s, db_steps := Suc (db_steps (ap_dbConn a)),
           db_rows := om_emplace s row (db_rows (ap_dbConn a)) \<rparr> \<rparr>)"

lemma upstream_run:
  assumes "db_sequenceId (ap_dbConn a) \<noteq> int64_max"
  shows "handleFcmNewUpstreamMessage E i j a =
    tryM (thenM (save_msg E (ap_next a))
      (thenM (sendFcmAckMessage E j) (forwardMsgToBalsession E (j_string (doc_object j) F_CATEGORY) (ap_next a)))) (upstream_made E j a)"
  using assms
  by (simp add: upstream_made_def upstream_msg_def handleFcmNewUpstreamMessage_def Let_def tryM_def on_db_def getNextSequenceId_def
      zoom_def new_msg_def bindM_def [of "zoom _ _ _"] bindM_def [of "new_msg _"] print_then message_print_def Message_new_def)

lemma upstream_save:
  assumes "\<not> sq_fails E (db_steps (ap_dbConn a))" and "om_find (db_rows (ap_dbConn a)) (db_sequenceId (ap_dbConn a) + 1) = None"
  shows "save_msg E (ap_next a) (upstream_made E j a) = (Inr (), upstream_saved E j a)"
  using assms
  by (simp add: upstream_made_def upstream_saved_def upstream_msg_def Let_def save_msg_def on_db_def saveMsg_def Message_new_def sq_call_def
      monad_defs)

lemma upstream_ack:
  assumes "app_ok G X n S q a" and "om_find (db_rows (ap_dbConn a)) (db_sequenceId (ap_dbConn a) + 1) = None"
  shows "\<exists>conns. sendFcmAckMessage E j (upstream_saved E j a) =
      (Inr (), (upstream_saved E j a) \<lparr> ap_fcmConnectionsMap := conns,
         ap_log := ap_log a @ map (Pair (newest a)) (message_stanza E (fcm_ack j)) \<rparr>)"
    and "\<exists>r. om_find (db_rows (ap_dbConn (upstream_saved E j a))) (db_sequenceId (ap_dbConn a) + 1) = Some r \<and>
      upstream_row E j (db_sequenceId (ap_dbConn a) + 1) r \<and> r_state r = MessageState_code NEW"
proof -
  obtain c where c: "om_find (ap_fcmConnectionsMap a) (newest a) = Some c" using newest_slot(2) [OF assms(1)] by blast
  show "\<exists>conns. sendFcmAckMessage E j (upstream_saved E j a) =
      (Inr (), (upstream_saved E j a) \<lparr> ap_fcmConnectionsMap := conns,
         ap_log := ap_log a @ map (Pair (newest a)) (message_stanza E (fcm_ack j)) \<rparr>)"
    using newest_slot(1) [OF assms(1)] c
    by (auto simp: upstream_saved_def upstream_made_def Let_def sendFcmAck_eq sendMessage_def fcm_call_send bindM_def gets_def thenM_def ret_def)
  have "om_wf (db_rows (ap_dbConn a))" using core_okD(1) [OF app_ok_core [OF assms(1)]] by (simp add: db_ok_def)
  then show "\<exists>r. om_find (db_rows (ap_dbConn (upstream_saved E j a))) (db_sequenceId (ap_dbConn a) + 1) = Some r \<and>
      upstream_row E j (db_sequenceId (ap_dbConn a) + 1) r \<and> r_state r = MessageState_code NEW"
    using assms(2)
    by (simp add: upstream_saved_def Let_def om_find_emplace upstream_row_def bound_row_def upstream_msg_def Message_new_def)
qed

lemma upstream_outcome:
  fixes E :: env and i :: int and j :: json
  assumes "app_ok G {} n S q a"
  defines "a' \<equiv> snd (handleFcmNewUpstreamMessage E i j a)" and "s \<equiv> db_sequenceId (ap_dbConn a) + 1"
  shows "(ap_log a' = ap_log a \<and> db_rows (ap_dbConn a') = db_rows (ap_dbConn a)) \<or>
    has_row s (upstream_row E j s) (ap_log a @ map (Pair (newest a)) (message_stanza E (fcm_ack j))) a'"
proof (cases "db_sequenceId (ap_dbConn a) = int64_max")
  case True
  then show ?thesis
    by (simp add: a'_def handleFcmNewUpstreamMessage_def Let_def tryM_def on_db_def getNextSequenceId_def bindM_def zoom_def)
next
  case False
  let ?sid = "j_string (doc_object j) F_CATEGORY" and ?p = "ap_next a"
  have snd_try: "snd (tryM m b) = snd (m b)" for m b
    by (auto simp: tryM_def split: prod.splits sum.splits fault.splits)
  show ?thesis
  proof (cases "sq_fails E (db_steps (ap_dbConn a)) \<or> om_find (db_rows (ap_dbConn a)) s \<noteq> None")
    case True
    then show ?thesis
      unfolding a'_def upstream_run [OF False] snd_try
      by (auto simp: s_def thenM_def bindM_def save_msg_def gets_def on_db_def zoom_def saveMsg_def upstream_made_def upstream_msg_def
          Let_def Message_new_def sq_call_def raise_def)
  next
    case no: False
    let ?L = "ap_log a @ map (Pair (newest a)) (message_stanza E (fcm_ack j))"
    obtain b' where b': "sendFcmAckMessage E j (upstream_saved E j a) = (Inr (), b')" "has_row s (upstream_row E j s) ?L b'"
      using upstream_ack [OF assms(1), of E j] no by (fastforce simp: s_def has_row_def)
    have "has_row s (upstream_row E j s) ?L (snd (forwardMsgToBalsession E ?sid ?p b'))"
      using has_row_forward [of "upstream_row E j s" s ?L E ?sid ?p] b'(2)
      by (auto simp: keeps_def upstream_row_def update_row_def)
    then show ?thesis
      unfolding a'_def upstream_run [OF False] snd_try using upstream_save b'(1) no by (simp add: s_def thenM_ok)
  qed
qed

text \<open>A message whose category is no session: it is saved and acknowledged to FCM before the lookup of
  the session fails, so it is in no queue.\<close>

lemma upstream_stranded:
  fixes E :: env and i :: int and j :: json and a :: app
  defines "s \<equiv> db_sequenceId (ap_dbConn a) + 1"
  assumes "app_ok G {} n S q a" and "om_find (ap_balSessionMap a) (j_string (doc_object j) F_CATEGORY) = None"
    and "db_sequenceId (ap_dbConn a) < int64_max" and "\<not> sq_fails E (db_steps (ap_dbConn a))"
    and "handleFcmNewUpstreamMessage E i j a = (r, a')"
  shows "r = Inr ()" and "ap_log a' = ap_log a @ map (Pair (newest a)) (message_stanza E (fcm_ack j))"
    and "\<exists>row. om_find (db_rows (ap_dbConn a')) s = Some row \<and> upstream_row E j s row \<and> r_state row = MessageState_code NEW"
    and "ap_fcmMsgManager a' = ap_fcmMsgManager a" and "ap_balSessionMap a' = ap_balSessionMap a" and "ap_wire a' = ap_wire a"
    and "sid \<noteq> c_str (j_string (doc_object j) F_CATEGORY) \<Longrightarrow> s \<notin> fst ` set (pending_rows sid (db_rows (ap_dbConn a')))"
proof -
  have free: "om_find (db_rows (ap_dbConn a)) (db_sequenceId (ap_dbConn a) + 1) = None"
    using core_okD(1) [OF app_ok_core [OF assms(2)]] om_find_key by (fastforce simp: db_ok_def)
  from upstream_ack(1) [OF assms(2) free, of E j] obtain conns where ack:
    "sendFcmAckMessage E j (upstream_saved E j a) = (Inr (), (upstream_saved E j a) \<lparr> ap_fcmConnectionsMap := conns,
       ap_log := ap_log a @ map (Pair (newest a)) (message_stanza E (fcm_ack j)) \<rparr>)" (is "_ = (_, ?c)") by blast
  have map: "ap_balSessionMap ?c = ap_balSessionMap a" by (simp add: upstream_saved_def upstream_made_def Let_def)
  have "forwardMsgToBalsession E (j_string (doc_object j) F_CATEGORY) (ap_next a) ?c =
      (Inl (Throw (NoMessageManager (j_string (doc_object j) F_CATEGORY))), ?c)"
    using assms(3) map by (simp add: forwardMsgToBalsession_def findBalMessageManager_def thenM_def bindM_def getsE_def)
  then have "handleFcmNewUpstreamMessage E i j a = (Inr (), ?c)"
    using upstream_run [of a E i j] upstream_save [OF assms(5) free] ack assms(4) by (simp add: thenM_ok tryM_def)
  with assms(6) have "r = Inr ()" "a' = ?c" by simp_all
  then show "r = Inr ()" "ap_log a' = ap_log a @ map (Pair (newest a)) (message_stanza E (fcm_ack j))"
    and row: "\<exists>row. om_find (db_rows (ap_dbConn a')) s = Some row \<and> upstream_row E j s row \<and> r_state row = MessageState_code NEW"
    and "ap_fcmMsgManager a' = ap_fcmMsgManager a" "ap_balSessionMap a' = ap_balSessionMap a" "ap_wire a' = ap_wire a"
    using upstream_ack(2) [OF assms(2) free, of E j] by (simp_all add: s_def upstream_saved_def upstream_made_def Let_def)
  have wf: "om_wf (db_rows (ap_dbConn a'))"
    using core_okD(1) [OF app_ok_core [OF assms(2)]] \<open>a' = ?c\<close>
    by (simp add: upstream_saved_def Let_def db_ok_def om_wf_emplace)
  show "s \<notin> fst ` set (pending_rows sid (db_rows (ap_dbConn a')))" if "sid \<noteq> c_str (j_string (doc_object j) F_CATEGORY)"
    using row that by (auto simp: pending_rows_def upstream_row_def om_find_iff [OF wf, symmetric])
qed

section \<open>Acknowledgements of a session\<close>

lemma bal_ack_settles:
  fixes E :: env
  assumes "app_ok G {} n S q a" and "sid \<in> S" and "findMessage (bs_msgManager (the_session sid a)) k = Inr p"
  defines "a' \<equiv> snd (handleBalAckMsg E sid k a)"
  shows "if sq_fails E (db_steps (ap_dbConn a)) then ap_balSessionMap a' = ap_balSessionMap a \<and> db_rows (ap_dbConn a') = db_rows (ap_dbConn a)
    else settled sid k 3 a'"
proof -
  have ne: "sid \<noteq> ''fcm''" using core_okD(5) [OF app_ok_core [OF assms(1)]] assms(2) by blast
  have sid: "sid \<in> insert ''fcm'' S" using assms(2) by blast
  note core = core_okD [OF app_ok_core [OF assms(1)]]
  have m: "mgr_of sid b = bs_msgManager (the_session sid b)" for b using ne by (simp add: mgr_of_def)
  obtain ses where ses: "om_find (ap_balSessionMap a) sid = Some ses"
    using core(4) assms(2) by (metis not_None_eq om_find_None_iff)
  have key: "om_find (q sid) k = Some p"
    using assms(3) core(10) [OF sid] by (auto simp: findMessage_def m split: option.splits)
  let ?rest = "\<lambda>h. thenM (on_bal_mgr sid (removeMessage h k)) (sendNextPendingUpstreamMessage E sid)"
  have snd_try: "snd (tryM f b) = snd (f b)" for f b
    by (auto simp: tryM_def split: prod.splits sum.splits fault.splits)
  have run: "a' = snd (thenM (update_msg E p DELIVERED) (bindM (gets ap_heap) ?rest) a)"
    using assms(3) ses by (simp add: a'_def handleBalAckMsg_def snd_try findBalMessageManager_def thenM_ok getsE_def bindM_def [of "getsE _"])
  show ?thesis
  proof (cases "sq_fails E (db_steps (ap_dbConn a))")
    case True
    with update_run [OF assms(1) sid key, of E DELIVERED] show ?thesis unfolding run by (auto simp: thenM_fail)
  next
    case False
    with update_run [OF assms(1) sid key, of E DELIVERED] obtain d r where
      u: "update_msg E p DELIVERED a = (Inr (), a \<lparr> ap_dbConn := d \<rparr>)" "om_find (db_rows d) k = Some r" "r_state r = 3" "k \<le> db_sequenceId d" by auto
    obtain mg where mg: "removeMessage (ap_heap a) k (mgr_of sid a) = (Inr (), mg)" "om_find (mm_messages mg) k = None"
      using remove_run [OF assms(1) sid key] by blast
    let ?b = "put_session sid ((the_session sid a) \<lparr> bs_msgManager := mg \<rparr>) (a \<lparr> ap_dbConn := d \<rparr>)"
    have fin: "a' = snd (sendNextPendingUpstreamMessage E sid ?b)"
      using u(1) mg(1) unfolding run
      by (simp add: thenM_ok bindM_def [of "gets _"] gets_def on_bal_mgr_def zoom_def m thenM_def [of "zoom _ _ _"] bindM_def [of "zoom _ _ _"] the_session_def)
    have "settled sid k 3 ?b"
      using u mg(2) the_session_put [of "a \<lparr> ap_dbConn := d \<rparr>"] core(3) by (simp add: settled_def m put_session_def)
    moreover have "keeps (settled sid k 3) (sendNextPendingUpstreamMessage E sid)"
    proof -
      have "keeps (settled sid k 3) (write_session E sess j)" for sess j
        by (auto simp: write_session_def keeps_def zoom_def settled_def m the_session_def split: prod.splits)
      then show ?thesis
        unfolding sendNextPendingUpstreamMessage_def payload_of_def findBalSession_def
        by (auto intro!: keeps_intros split: option.split)
    qed
    ultimately show ?thesis using False fin by (simp add: keeps_def)
  qed
qed

section \<open>An upload request\<close>

text \<open>Whether a message of group \<open>gid\<close> may be sent at once: fewer than 100 are unacknowledged and none of
  its group is queued.\<close>

definition upload_at_once :: "string \<Rightarrow> app \<Rightarrow> bool" where
  "upload_at_once gid a \<longleftrightarrow> unat (mm_pendingAckCount (ap_fcmMsgManager a)) < 100 \<and>
     (gid = [] \<or> (\<forall>e\<in>set (mm_messages (ap_fcmMsgManager a)). msg_groupId (ap_heap a (snd e)) \<noteq> gid))"

lemma fresh_key:
  assumes "app_ok G {} n S q a" and "sid \<in> insert ''fcm'' S"
  shows "e \<in> set (q sid) \<Longrightarrow> fst e < db_sequenceId (ap_dbConn a) + 1" "om_find (q sid) (db_sequenceId (ap_dbConn a) + 1) = None"
    "om_find (db_rows (ap_dbConn a)) (db_sequenceId (ap_dbConn a) + 1) = None"
proof -
  have db: "db_ok (ap_dbConn a)" using core_okD(1) [OF app_ok_core [OF assms(1)]] .
  have lt: "fst e < db_sequenceId (ap_dbConn a) + 1" if "e \<in> set (q sid)" for e
  proof -
    have "pending_row (db_rows (ap_dbConn a)) sid (fst e) (msg_fcmMessageId (ap_heap a (snd e)))"
      using app_ok_mgr(1,3) [OF assms] that by (cases e) (simp add: mgr_ok_def)
    then have "fst e \<in> fst ` set (db_rows (ap_dbConn a))" using om_find_key by (fastforce simp: pending_row_def)
    with db show ?thesis by (auto simp: db_ok_def)
  qed
  then show "e \<in> set (q sid) \<Longrightarrow> fst e < db_sequenceId (ap_dbConn a) + 1" .
  show "om_find (q sid) (db_sequenceId (ap_dbConn a) + 1) = None" using lt by (fastforce simp: om_find_None_iff)
  show "om_find (db_rows (ap_dbConn a)) (db_sequenceId (ap_dbConn a) + 1) = None"
    using db by (fastforce simp: om_find_None_iff db_ok_def)
qed

text \<open>The new message in its queue: what the send test says.\<close>

lemma new_can_send:
  assumes "app_ok G {} n S q a" and "msg_sequenceId x = db_sequenceId (ap_dbConn a) + 1" and "msg_state x = NEW"
  defines "h \<equiv> (ap_heap a)(ap_next a := x)" and "s \<equiv> db_sequenceId (ap_dbConn a) + 1"
  shows "\<exists>m. addMessage h s (ap_next a) (ap_fcmMsgManager a) = (Inr (), m) \<and>
    mm_messages m = om_emplace s (ap_next a) (mm_messages (ap_fcmMsgManager a)) \<and>
    mm_pendingAckCount m = mm_pendingAckCount (ap_fcmMsgManager a) \<and>
    (\<exists>rc. canSendMessage h m (ap_next a) = Inr rc \<and> (rc = 0 \<longleftrightarrow> upload_at_once (msg_groupId x) a))"
proof -
  let ?m = "ap_fcmMsgManager a" and ?p = "ap_next a"
  have mg: "mgr_of ''fcm'' a = ?m" by (simp add: mgr_of_def)
  note ok = app_ok_mgr [OF assms(1) insertI1, unfolded mg] and fresh = fresh_key [OF assms(1) insertI1]
  have lt: "snd e < ?p" if "e \<in> set (q ''fcm'')" for e using ok(4) [of "fst e" "snd e"] that by simp
  then have "mm_ok h ?m" using ok(3) unfolding h_def by (intro mm_ok_heap [OF ok(2)]) fastforce+
  moreover have "om_find (mm_messages ?m) s = None" using fresh(2) ok(3) by (simp add: s_def)
  moreover have "msg_sequenceId (h ?p) = s" using assms(2) by (simp add: h_def s_def)
  ultimately obtain m where m: "addMessage h s ?p ?m = (Inr (), m)" "mm_ok h m" "mm_messages m = om_emplace s ?p (mm_messages ?m)"
    "mm_pendingAckCount m = mm_pendingAckCount ?m"
    using addMessage_spec [of h ?m s ?p] by auto
  have set: "set (mm_messages m) = insert (s, ?p) (set (q ''fcm''))"
    using m(3) ok(3) fresh(2) by (simp add: om_emplace_set s_def)
  have "canSendMessage h m ?p = Inr (send_code {NEW} h (mm_messages m) (unat (mm_pendingAckCount m)) ?p)"
    by (rule canSendMessage_spec [OF m(2), of s]) (simp add: set)
  moreover have "send_code {NEW} h (mm_messages m) (unat (mm_pendingAckCount m)) ?p = 0 \<longleftrightarrow> upload_at_once (msg_groupId x) a"
  proof -
    have old: "h (snd e) = ap_heap a (snd e)" "fst e < s" if "e \<in> set (q ''fcm'')" for e
      using lt [OF that] fresh(1) [OF that] by (auto simp: h_def s_def)
    have "msg_sequenceId (h ?p) = s" "msg_groupId (h ?p) = msg_groupId x" "msg_state (h ?p) = NEW"
      using assms(2,3) by (simp_all add: h_def s_def)
    then show ?thesis
      unfolding send_code_def head_of_group_def upload_at_once_def set m(4) ok(3)
      using old by (auto simp: not_le not_less)
  qed
  ultimately show ?thesis using m by blast
qed

text \<open>Marking and sending, once the row is marked.\<close>

lemma mark_and_send:
  assumes "ap_sendSlots b = [i]" and "om_find (ap_fcmConnectionsMap b) i = Some c" and "msg_payload (ap_heap b p) = Some data"
  shows "\<exists>a'. thenM (set_state p PENDING_ACK) (thenM (on_fcm_mgr (modify incrementPendingAckCount)) (uploadToFcm E p)) b = (Inr (), a') \<and>
    ap_fcmMsgManager a' = incrementPendingAckCount (ap_fcmMsgManager b) \<and> ap_dbConn a' = ap_dbConn b \<and>
    msg_state (ap_heap a' p) = PENDING_ACK \<and> ap_log a' = ap_log b @ map (Pair i) (message_stanza E data)"
  using assms
  by (simp add: thenM_def bindM_def set_state_def on_msg_def zoom_def modify_def on_fcm_mgr_def
      uploadToFcm_def payload_of_def getsE_def sendMessage_def gets_def fcm_call_send ret_def)

lemma upload_outcome:
  fixes E :: env and sid :: string and j :: json
  assumes "app_ok G {} n S q a" and "db_sequenceId (ap_dbConn a) < int64_max" and "\<And>n. \<not> sq_fails E n"
  defines "s \<equiv> db_sequenceId (ap_dbConn a) + 1" and "p \<equiv> ap_next a" and "data \<equiv> j_object (doc_object j) G_FCM_DATA"
    and "go \<equiv> upload_at_once (j_string (doc_object j) G_GROUP_ID) a"
  shows "\<exists>a' r. handleBalDownstreamUploadRequest E sid j a = (Inr (), a') \<and>
    mm_messages (ap_fcmMsgManager a') = om_emplace s p (mm_messages (ap_fcmMsgManager a)) \<and>
    om_find (db_rows (ap_dbConn a')) s = Some r \<and> r_source_session r = c_str sid \<and> r_target_session r = ''fcm'' \<and>
    r_type r = 4 \<and> r_payload r = c_str (qt_toJson E (JObject data)) \<and> r_state r = (if go then 2 else 1) \<and>
    msg_state (ap_heap a' p) = (if go then PENDING_ACK else NEW) \<and>
    mm_pendingAckCount (ap_fcmMsgManager a') = mm_pendingAckCount (ap_fcmMsgManager a) + (if go then 1 else 0) \<and>
    ap_log a' = ap_log a @ (if go then map (Pair (newest a)) (message_stanza E (JObject data)) else [])"
proof -
  let ?gid = "j_string (doc_object j) G_GROUP_ID" and ?d = "ap_dbConn a"
  let ?x = "Message_new E p s DOWNSTREAM (j_string data F_MESSAGE_ID) ?gid sid ''fcm'' (Some (JObject data)) NEW"
  let ?h = "(ap_heap a)(p := ?x)"
  have x: "msg_sequenceId ?x = s" "msg_state ?x = NEW" "msg_groupId ?x = ?gid" "msg_payload ?x = Some (JObject data)" by (simp_all add: Message_new_def)
  obtain m rc where m: "addMessage ?h s p (ap_fcmMsgManager a) = (Inr (), m)" "mm_messages m = om_emplace s p (mm_messages (ap_fcmMsgManager a))"
    "mm_pendingAckCount m = mm_pendingAckCount (ap_fcmMsgManager a)" "canSendMessage ?h m p = Inr rc" "rc = 0 \<longleftrightarrow> go"
    using new_can_send [OF assms(1), of ?x] x unfolding s_def p_def go_def by auto
  let ?r = "bound_row E (db_steps ?d) ?x (JObject data)"
  let ?d1 = "?d \<lparr> db_sequenceId := s, db_steps := Suc (db_steps ?d), db_rows := om_emplace s ?r (db_rows ?d) \<rparr>"
  let ?a1 = "a \<lparr> ap_heap := ?h, ap_next := Suc p, ap_dbConn := ?d1, ap_fcmMsgManager := m \<rparr>"
  let ?send = "thenM (update_msg E p PENDING_ACK) (thenM (set_state p PENDING_ACK) (thenM (on_fcm_mgr (modify incrementPendingAckCount)) (uploadToFcm E p)))"
  have fresh: "om_find (db_rows ?d) s = None" using fresh_key(3) [OF assms(1) insertI1] by (simp add: s_def)
  have wf: "om_wf (db_rows ?d)" using core_okD(1) [OF app_ok_core [OF assms(1)]] by (simp add: db_ok_def)
  have row: "om_find (om_emplace s ?r (db_rows ?d)) s = Some ?r" using fresh wf by (simp add: om_find_emplace)
  have run: "handleBalDownstreamUploadRequest E sid j a = (if go then ?send else ret ()) ?a1"
    using assms(2) assms(3) [of "db_steps ?d"] fresh m(1,4,5) x
    unfolding handleBalDownstreamUploadRequest_def Let_def data_def [symmetric]
    by (simp add: on_db_def getNextSequenceId_def zoom_def new_msg_def print_then message_print_def save_msg_def saveMsg_def sq_call_def
        on_fcm_mgr_def bindM_def [of "zoom _ _ _"] bindM_def [of "new_msg _"] bindM_def [of "gets _"] bindM_def [of "getsE _"] thenM_def [of "zoom _ _ _"]
        thenM_def [of "bindM _ _"] bindM_def [of "bindM _ _"] bindM_def gets_def getsE_def modify_def s_def [symmetric] p_def [symmetric])
  show ?thesis
  proof (cases go)
    case False
    with run m row x show ?thesis
      by (auto simp: ret_def bound_row_def Message_new_def c_str_def)
  next
    case True
    obtain c where c: "om_find (ap_fcmConnectionsMap a) (newest a) = Some c" using newest_slot(2) [OF assms(1)] by blast
    let ?r2 = "update_row 2 (sq_now E (Suc (db_steps ?d))) ?r"
    let ?d2 = "?d1 \<lparr> db_steps := Suc (Suc (db_steps ?d)), db_rows := om_store s ?r2 (om_emplace s ?r (db_rows ?d)) \<rparr>"
    have d2: "update_msg E p PENDING_ACK ?a1 = (Inr (), ?a1 \<lparr> ap_dbConn := ?d2 \<rparr>)" "om_find (db_rows ?d2) s = Some ?r2"
      using assms(3) row x by (simp_all add: update_msg_def on_db_def updateMsgState_def sq_call_def monad_defs om_find_store)
    let ?b = "?a1 \<lparr> ap_dbConn := ?d2 \<rparr>"
    have b: "ap_sendSlots ?b = [newest a]" "om_find (ap_fcmConnectionsMap ?b) (newest a) = Some c" "msg_payload (ap_heap ?b p) = Some (JObject data)"
      using newest_slot(1) [OF assms(1)] c x by simp_all
    obtain a' where "?send ?a1 = (Inr (), a')" "ap_fcmMsgManager a' = incrementPendingAckCount m" "ap_dbConn a' = ?d2"
      "msg_state (ap_heap a' p) = PENDING_ACK" "ap_log a' = ap_log a @ map (Pair (newest a)) (message_stanza E (JObject data))"
      using mark_and_send [OF b, of E] d2(1) by (auto simp: thenM_ok)
    with True run m d2(2) show ?thesis
      by (auto simp: incrementPendingAckCount_def update_row_def bound_row_def Message_new_def c_str_def)
  qed
qed

section \<open>The byte stream of a session\<close>

text \<open>The bytes a peer sends for a list of documents, and the reference for the reader: each document is
  handled in turn, with the bytes behind it left in the socket.\<close>

definition stream_of :: "env \<Rightarrow> json list \<Rightarrow> string" where
  "stream_of E js = concat (map (\<lambda>j. qt_frame E (qt_toBinaryData E j)) js)"

primrec handle_documents :: "env \<Rightarrow> sock \<Rightarrow> string \<Rightarrow> json list \<Rightarrow> (app, unit) M" where
  "handle_documents E s rest [] = ret ()"
| "handle_documents E s rest (j # js) =
     thenM (modify (\<lambda>a. a \<lparr> ap_inbuf := (ap_inbuf a)(s := stream_of E js @ rest) \<rparr>))
    (thenM (tryM (handleBALmsg E s j)) (handle_documents E s rest js))"

lemma read_loop_documents:
  assumes "frames_ok E" and "unframe_consumes E" and "\<forall>j\<in>set js. json_binary_ok E j" and "rest = [] \<or> qt_unframe E rest = None"
    and "ap_inbuf a s = stream_of E js @ rest" and "length js < k"
  shows "bal_read_loop k E s a = handle_documents E s rest js a"
  using assms(3,5,6)
proof (induction js arbitrary: a k)
  case Nil
  then obtain k' where "k = Suc k'" by (cases k) auto
  with Nil assms(4) show ?case by (auto simp: stream_of_def bindM_def gets_def ret_def)
next
  case (Cons j js)
  obtain k' where k: "k = Suc k'" "length js < k'" using Cons.prems(3) by (cases k) auto
  let ?f = "qt_frame E (qt_toBinaryData E j)" and ?tail = "stream_of E js @ rest"
  let ?b = "a \<lparr> ap_inbuf := (ap_inbuf a)(s := ?tail) \<rparr>"
  have buf: "ap_inbuf a s = ?f @ ?tail" using Cons.prems(2) by (simp add: stream_of_def)
  have uf: "qt_unframe E (?f @ ?tail) = Some (qt_toBinaryData E j, ?tail)" using assms(1) by (simp add: frames_ok_def)
  then have "?f \<noteq> []" using assms(2) unfolding unframe_consumes_def by fastforce
  moreover have "qt_fromBinaryData E (qt_toBinaryData E j) = j" using Cons.prems(1) by (simp add: json_binary_ok_def)
  ultimately have loop: "bal_read_loop k E s a = thenM (tryM (handleBALmsg E s j)) (bal_read_loop k' E s) ?b"
    using buf uf k(1) by (simp add: bindM_def gets_def thenM_def modify_def)
  obtain r c where c: "tryM (handleBALmsg E s j) ?b = (r, c)" by fastforce
  have "ap_inbuf c = ap_inbuf ?b" using keepsD [OF keeps_tryM [OF keeps_inbuf_msg] _ c] by simp
  then have "ap_inbuf c s = stream_of E js @ rest" by simp
  then have "bal_read_loop k' E s c = handle_documents E s rest js c" using Cons.IH Cons.prems(1) k(2) by simp
  then have "thenM (tryM (handleBALmsg E s j)) (bal_read_loop k' E s) ?b = thenM (tryM (handleBALmsg E s j)) (handle_documents E s rest js) ?b"
    using c by (auto simp: thenM_def bindM_def split: sum.splits)
  then show ?case unfolding loop by (simp add: thenM_def bindM_def [of "modify _"] modify_def)
qed

lemma stream_length:
  assumes "frames_ok E" and "unframe_consumes E"
  shows "length js \<le> length (stream_of E js)"
proof (induction js)
  case (Cons j js)
  have "qt_unframe E (qt_frame E (qt_toBinaryData E j) @ []) = Some (qt_toBinaryData E j, [])" using assms(1) unfolding frames_ok_def by blast
  then have "0 < length (qt_frame E (qt_toBinaryData E j))" using assms(2) unfolding unframe_consumes_def by fastforce
  then have "Suc 0 \<le> length (qt_frame E (qt_toBinaryData E j))" by linarith
  from add_mono [OF this Cons] show ?case by (simp add: stream_of_def del: length_greater_0_conv)
qed (simp add: stream_of_def)

end
