(* ===== verification/App_Resend.thy ===== *)
theory App_Resend
  imports App_Effects
begin

text \<open>
  What the two resend loops do in a state the program can be in: after a session with FCM is established,
  and after a business application logs on.
\<close>

section \<open>Resending to FCM\<close>

text \<open>The messages that may be sent again: of type DOWNSTREAM, and with no older message of their group in the
  queue.  The reference for the loop: their stanzas, in the order of the queue.\<close>

definition may_resend :: "heap \<Rightarrow> msg_queue \<Rightarrow> ptr \<Rightarrow> bool" where
  "may_resend h q p \<longleftrightarrow> msg_type (h p) = DOWNSTREAM \<and> (msg_groupId (h p) = [] \<or> head_of_group h q p)"

definition resent_stanzas :: "env \<Rightarrow> heap \<Rightarrow> msg_queue \<Rightarrow> msg_queue \<Rightarrow> fcm_act list" where
  "resent_stanzas E h q xs =
     concat (map (\<lambda>e. message_stanza E (the (msg_payload (h (snd e))))) (filter (\<lambda>e. may_resend h q (snd e)) xs))"

lemma resend_down_turn:
  assumes "app_ok G {} n S q a" and "(k, p) \<in> set (q ''fcm'')" and "unat (mm_pendingAckCount (ap_fcmMsgManager a)) < 100"
  shows "\<exists>conns. resend_downstream E p a = (Inr (), a \<lparr> ap_fcmConnectionsMap := conns,
      ap_log := ap_log a @ map (Pair (newest a)) (resent_stanzas E (ap_heap a) (q ''fcm'') [(k, p)]) \<rparr>) \<and>
    app_ok G {} n S q (a \<lparr> ap_fcmConnectionsMap := conns,
      ap_log := ap_log a @ map (Pair (newest a)) (resent_stanzas E (ap_heap a) (q ''fcm'') [(k, p)]) \<rparr>) \<and> fst (last conns) = newest a"
proof -
  note mgr = app_ok_mgr [OF assms(1) insertI1, unfolded mgr_of_def, simplified]
  have "p < ap_next a" "msg_state (ap_heap a p) \<in> {NEW, PENDING_ACK}" using mgr(4) assms(2) by blast+
  then obtain j where j: "msg_payload (ap_heap a p) = Some j" using core_okD(8) [OF app_ok_core [OF assms(1)]] by (auto simp: msg_good_def)
  have "canSendMessageOnReconnect (ap_heap a) (ap_fcmMsgManager a) p =
      Inr (if msg_groupId (ap_heap a p) \<noteq> [] \<and> \<not> head_of_group (ap_heap a) (q ''fcm'') p then 3 else 0)"
    using canSendMessageOnReconnect_spec [OF mgr(2), of k p] mgr(3) assms(2,3) \<open>msg_state _ \<in> _\<close> by (auto simp: send_code_def)
  then have run: "resend_downstream E p a = (if may_resend (ap_heap a) (q ''fcm'') p then sendMessage E j a else (Inr (), a))"
    using j by (simp add: resend_downstream_def payload_of_def bindM_def gets_def getsE_def ret_def may_resend_def)
  show ?thesis
  proof (cases "may_resend (ap_heap a) (q ''fcm'') p")
    case True
    with run sendMessage_run [OF assms(1), of E j] j show ?thesis by (simp add: resent_stanzas_def)
  next
    case False
    with run assms(1) show ?thesis by (intro exI [of _ "ap_fcmConnectionsMap a"]) (simp add: resent_stanzas_def newest_def)
  qed
qed

lemma resend_down_run:
  assumes "app_ok G {} n S q a" and "unat (mm_pendingAckCount (ap_fcmMsgManager a)) < 100"
  shows "\<exists>conns. resendAllPendingDownstreamMessages E a = (Inr (), a \<lparr> ap_fcmConnectionsMap := conns,
      ap_log := ap_log a @ map (Pair (newest a)) (resent_stanzas E (ap_heap a) (q ''fcm'') (q ''fcm'')) \<rparr>)"
proof -
  have q: "mm_messages (ap_fcmMsgManager a) = q ''fcm''" using app_ok_mgr(3) [OF assms(1) insertI1] by (simp add: mgr_of_def)
  have wf: "om_wf (q ''fcm'')" using mm_okD(1) [OF app_ok_mgr(2) [OF assms(1) insertI1]] q by (simp add: mgr_of_def)
  let ?turn = "\<lambda>(k, p). bindM (gets (\<lambda>a. om_find (mm_messages (ap_fcmMsgManager a)) k)) (\<lambda>here.
      if here = None then ret () else thenM (resend_downstream E p) (bindM (gets (\<lambda>a. om_find (mm_messages (ap_fcmMsgManager a)) k)) (\<lambda>still.
        if still = None then raise (Undefined IteratorInvalidated) else ret ())))"
  have "\<exists>conns. forM xs ?turn a = (Inr (), a \<lparr> ap_fcmConnectionsMap := conns,
      ap_log := ap_log a @ map (Pair (newest a)) (resent_stanzas E (ap_heap a) (q ''fcm'') xs) \<rparr>)"
    if "set xs \<subseteq> set (q ''fcm'')" for xs
    using that assms q
  proof (induction xs arbitrary: a)
    case Nil
    show ?case by (intro exI [of _ "ap_fcmConnectionsMap a"]) (simp add: resent_stanzas_def ret_def)
  next
    case (Cons e xs)
    obtain k p where e: "e = (k, p)" by fastforce
    have mem: "(k, p) \<in> set (q ''fcm'')" using Cons.prems(1) e by simp
    then have here: "om_find (mm_messages (ap_fcmMsgManager a)) k = Some p" using om_find_iff [OF wf] Cons.prems(4) by simp
    let ?log = "ap_log a @ map (Pair (newest a)) (resent_stanzas E (ap_heap a) (q ''fcm'') [(k, p)])"
    obtain conns where c: "resend_downstream E p a = (Inr (), a \<lparr> ap_fcmConnectionsMap := conns, ap_log := ?log \<rparr>)"
      "app_ok G {} n S q (a \<lparr> ap_fcmConnectionsMap := conns, ap_log := ?log \<rparr>)" "fst (last conns) = newest a"
      using resend_down_turn [OF Cons.prems(2) mem Cons.prems(3), of E] by blast
    let ?b = "a \<lparr> ap_fcmConnectionsMap := conns, ap_log := ?log \<rparr>"
    obtain conns' where d: "forM xs ?turn ?b = (Inr (), ?b \<lparr> ap_fcmConnectionsMap := conns',
        ap_log := ap_log ?b @ map (Pair (newest ?b)) (resent_stanzas E (ap_heap ?b) (q ''fcm'') xs) \<rparr>)"
      using Cons.IH [OF _ c(2)] Cons.prems(1,3,4) by auto
    have "newest ?b = newest a" using c(3) by (simp add: newest_def)
    moreover have "forM (e # xs) ?turn a = forM xs ?turn ?b"
      using here c(1) e by (simp add: thenM_def bindM_def gets_def ret_def)
    ultimately show ?case using d e by (intro exI [of _ conns']) (simp add: resent_stanzas_def)
  qed
  moreover have "resendAllPendingDownstreamMessages E a = forM (q ''fcm'') ?turn a"
    unfolding resendAllPendingDownstreamMessages_def for_queue_def by (subst bindM_def, subst gets_def) (simp add: q)
  ultimately show ?thesis by simp
qed

text \<open>With 100 unacknowledged messages the loop writes nothing; each message is to be retried by a timer.\<close>

lemma resend_full_turn:
  assumes "app_ok G {} n S q a" and "(k, p) \<in> set (q ''fcm'')" and "\<not> unat (mm_pendingAckCount (ap_fcmMsgManager a)) < 100"
    and "draws_in_range E"
  shows "\<exists>r h ts. resend_downstream E p a = (r, a \<lparr> ap_heap := h, ap_timers := ap_timers a @ ts \<rparr>) \<and>
    (\<forall>z. msg_type (h z) = msg_type (ap_heap a z)) \<and> (\<forall>(msec, t)\<in>set ts. 100 \<le> msec \<and> (\<exists>p. t = TRetryDownstream p)) \<and>
    (r = Inr () \<longrightarrow> map snd ts = (if msg_type (ap_heap a p) = DOWNSTREAM then [TRetryDownstream p] else []) \<and>
       app_ok G {} n S q (a \<lparr> ap_heap := h, ap_timers := ap_timers a @ ts \<rparr>))"
proof -
  note mgr = app_ok_mgr [OF assms(1) insertI1, unfolded mgr_of_def, simplified]
  have p: "p < ap_next a" "msg_state (ap_heap a p) \<in> {NEW, PENDING_ACK}" using mgr(4) assms(2) by blast+
  have "canSendMessageOnReconnect (ap_heap a) (ap_fcmMsgManager a) p = Inr 2"
    using canSendMessageOnReconnect_spec [OF mgr(2), of k p] mgr(3) assms(2,3) p(2) by (auto simp: send_code_def)
  then have run: "resend_downstream E p a =
      (if msg_type (ap_heap a p) = DOWNSTREAM then retryDownstreamWithExponentialBackoff E p a else (Inr (), a))"
    by (simp add: resend_downstream_def bindM_def gets_def getsE_def ret_def)
  have ok: "app_ok G {} n S q b" if "resend_downstream E p a = (Inr (), b)" for b
    using hoareD_ok [OF runs_resend_downstream [where q = q, OF assms(4,2), unfolded runs_def] assms(1) that] .
  show ?thesis
  proof (cases "msg_type (ap_heap a p) = DOWNSTREAM")
    case True
    have "msg_good (ap_heap a p)" using core_okD(8) [OF app_ok_core [OF assms(1)] p(1)] .
    from retry_run [OF this assms(4)] obtain r y ts where
      r: "resend_downstream E p a = (r, a \<lparr> ap_heap := (ap_heap a)(p := y), ap_timers := ap_timers a @ ts \<rparr>)"
      "msg_type y = msg_type (ap_heap a p)" "retry_outcome (ap_heap a p) p r ts"
      using run True by auto
    have "\<forall>(msec, t)\<in>set ts. 100 \<le> msec \<and> (\<exists>p. t = TRetryDownstream p)" "r = Inr () \<longrightarrow> map snd ts = [TRetryDownstream p]"
      using r(3) by (auto simp: retry_outcome_def split: if_splits sum.splits)
    with r ok True show ?thesis
      by (intro exI [of _ r] exI [of _ "(ap_heap a)(p := y)"] exI [of _ ts]) auto
  next
    case False
    with run ok show ?thesis
      by (intro exI [of _ "Inr ()"] exI [of _ "ap_heap a"] exI [of _ "[]"]) auto
  qed
qed

lemma resend_full_run:
  assumes "app_ok G {} n S q a" and "\<not> unat (mm_pendingAckCount (ap_fcmMsgManager a)) < 100" and "draws_in_range E"
  shows "\<exists>r h ts. resendAllPendingDownstreamMessages E a = (r, a \<lparr> ap_heap := h, ap_timers := ap_timers a @ ts \<rparr>) \<and>
    (\<forall>(msec, t)\<in>set ts. 100 \<le> msec \<and> (\<exists>p. t = TRetryDownstream p)) \<and>
    (r = Inr () \<longrightarrow> map snd ts = map (\<lambda>e. TRetryDownstream (snd e)) (filter (\<lambda>e. msg_type (ap_heap a (snd e)) = DOWNSTREAM) (q ''fcm'')))"
proof -
  have q: "mm_messages (ap_fcmMsgManager a) = q ''fcm''" using app_ok_mgr(3) [OF assms(1) insertI1] by (simp add: mgr_of_def)
  have wf: "om_wf (q ''fcm'')" using mm_okD(1) [OF app_ok_mgr(2) [OF assms(1) insertI1]] q by (simp add: mgr_of_def)
  let ?turn = "\<lambda>(k, p). bindM (gets (\<lambda>a. om_find (mm_messages (ap_fcmMsgManager a)) k)) (\<lambda>here.
      if here = None then ret () else thenM (resend_downstream E p) (bindM (gets (\<lambda>a. om_find (mm_messages (ap_fcmMsgManager a)) k)) (\<lambda>still.
        if still = None then raise (Undefined IteratorInvalidated) else ret ())))"
  have "\<exists>r h ts. forM xs ?turn a = (r, a \<lparr> ap_heap := h, ap_timers := ap_timers a @ ts \<rparr>) \<and>
      (\<forall>(msec, t)\<in>set ts. 100 \<le> msec \<and> (\<exists>p. t = TRetryDownstream p)) \<and>
      (r = Inr () \<longrightarrow> map snd ts = map (\<lambda>e. TRetryDownstream (snd e)) (filter (\<lambda>e. msg_type (ap_heap a (snd e)) = DOWNSTREAM) xs))"
    if "set xs \<subseteq> set (q ''fcm'')" for xs
    using that assms(1,2) q
  proof (induction xs arbitrary: a)
    case Nil
    show ?case by (intro exI [of _ "Inr ()"] exI [of _ "ap_heap a"] exI [of _ "[]"]) (simp add: ret_def)
  next
    case (Cons e xs)
    obtain k p where e: "e = (k, p)" by fastforce
    have mem: "(k, p) \<in> set (q ''fcm'')" using Cons.prems(1) e by simp
    then have here: "om_find (mm_messages (ap_fcmMsgManager a)) k = Some p" using om_find_iff [OF wf] Cons.prems(4) by simp
    obtain r h ts where c: "resend_downstream E p a = (r, a \<lparr> ap_heap := h, ap_timers := ap_timers a @ ts \<rparr>)"
      "\<forall>z. msg_type (h z) = msg_type (ap_heap a z)" "\<forall>(msec, t)\<in>set ts. 100 \<le> msec \<and> (\<exists>p. t = TRetryDownstream p)"
      "r = Inr () \<longrightarrow> map snd ts = (if msg_type (ap_heap a p) = DOWNSTREAM then [TRetryDownstream p] else []) \<and>
       app_ok G {} n S q (a \<lparr> ap_heap := h, ap_timers := ap_timers a @ ts \<rparr>)"
      using resend_full_turn [OF Cons.prems(2) mem Cons.prems(3) assms(3)] by blast
    let ?b = "a \<lparr> ap_heap := h, ap_timers := ap_timers a @ ts \<rparr>"
    show ?case
    proof (cases r)
      case (Inl f)
      have "forM (e # xs) ?turn a = (Inl f, ?b)" using here c(1) e Inl by (simp add: thenM_def bindM_def gets_def)
      with c(3) show ?thesis by blast
    next
      case (Inr u)
      then obtain r' h' ts' where d: "forM xs ?turn ?b = (r', ?b \<lparr> ap_heap := h', ap_timers := ap_timers ?b @ ts' \<rparr>)"
        "\<forall>(msec, t)\<in>set ts'. 100 \<le> msec \<and> (\<exists>p. t = TRetryDownstream p)"
        "r' = Inr () \<longrightarrow> map snd ts' = map (\<lambda>e. TRetryDownstream (snd e)) (filter (\<lambda>e. msg_type (ap_heap ?b (snd e)) = DOWNSTREAM) xs)"
        using Cons.IH [of ?b] Cons.prems(1,3,4) c(4) by auto
      have "forM (e # xs) ?turn a = forM xs ?turn ?b"
        using here c(1) e Inr by (simp add: thenM_def bindM_def gets_def ret_def)
      with d c(2-4) e Inr show ?thesis
        by (intro exI [of _ r'] exI [of _ h'] exI [of _ "ts @ ts'"]) auto
    qed
  qed
  moreover have "resendAllPendingDownstreamMessages E a = forM (q ''fcm'') ?turn a"
    unfolding resendAllPendingDownstreamMessages_def for_queue_def by (subst bindM_def, subst gets_def) (simp add: q)
  ultimately show ?thesis by simp
qed

section \<open>Resending to a session\<close>

text \<open>One turn of the resend loop at a message that was never sent: the row is marked and the count goes
  up, the message itself is left as new.\<close>

lemma resend_counts:
  fixes E :: env
  assumes "app_ok G {} n S q a" and "sid \<in> S" and "om_find (q sid) k = Some p" and "msg_type (ap_heap a p) = UPSTREAM"
    and "msg_state (ap_heap a p) = NEW" and "canSendMessageOnReconnect (ap_heap a) (bs_msgManager (the_session sid a)) p = Inr 0"
    and "\<And>n. \<not> sq_fails E n"
  defines "a' \<equiv> snd (resend_upstream E sid p a)"
  shows "ap_heap a' = ap_heap a \<and> mm_messages (bs_msgManager (the_session sid a')) = mm_messages (bs_msgManager (the_session sid a)) \<and>
    mm_pendingAckCount (bs_msgManager (the_session sid a')) = mm_pendingAckCount (bs_msgManager (the_session sid a)) + 1"
proof -
  have sid: "sid \<in> insert ''fcm'' S" using assms(2) by blast
  have wf: "om_wf (ap_balSessionMap a)" using core_okD(3) [OF app_ok_core [OF assms(1)]] .
  obtain d where d: "update_msg E p PENDING_ACK a = (Inr (), a \<lparr> ap_dbConn := d \<rparr>)"
    using update_run [OF assms(1) sid assms(3), of E PENDING_ACK] assms(7) by auto
  let ?s = "(the_session sid a) \<lparr> bs_msgManager := incrementPendingAckCount (bs_msgManager (the_session sid a)) \<rparr>"
  let ?b = "put_session sid ?s (a \<lparr> ap_dbConn := d \<rparr>)"
  have inc: "on_bal_mgr sid (modify incrementPendingAckCount) (a \<lparr> ap_dbConn := d \<rparr>) = (Inr (), ?b)"
    by (simp add: on_bal_mgr_def zoom_def modify_def the_session_def)
  have "a' = snd (forwardMsg E sid p ?b)"
    using assms(4,5,6) d inc
    by (simp add: a'_def resend_upstream_def bindM_def [of "gets _"] bindM_def [of "getsE _"] gets_def getsE_def whenM_def thenM_ok)
  moreover have "keeps (\<lambda>c. ap_heap c = ap_heap a \<and> the_session sid c = ?s) (forwardMsg E sid p)"
  proof -
    have "keeps (\<lambda>c. ap_heap c = ap_heap a \<and> the_session sid c = ?s) (write_session E sess j)" for sess j
      by (auto simp: write_session_def keeps_def zoom_def the_session_def split: prod.splits)
    then show ?thesis
      unfolding forwardMsg_def payload_of_def findBalSession_def by (auto intro!: keeps_intros)
  qed
  moreover have "ap_heap ?b = ap_heap a \<and> the_session sid ?b = ?s"
    using the_session_put [of "a \<lparr> ap_dbConn := d \<rparr>"] wf by (simp add: put_session_def)
  ultimately have "ap_heap a' = ap_heap a \<and> the_session sid a' = ?s" by (simp add: keeps_def)
  then show ?thesis by (simp add: incrementPendingAckCount_def)
qed

text \<open>A row put in flight.\<close>

lemma update_run_2:
  assumes "app_ok G {} n S q a" and "sid \<in> insert ''fcm'' S" and "(k, p) \<in> set (q sid)" and "\<And>n. \<not> sq_fails E n"
  shows "\<exists>d r. update_msg E p PENDING_ACK a = (Inr (), a \<lparr> ap_dbConn := d \<rparr>) \<and> om_find (db_rows d) k = Some r \<and> r_state r = 2 \<and>
    (\<forall>i r. om_find (db_rows (ap_dbConn a)) i = Some r \<and> r_state r = 2 \<longrightarrow> (\<exists>r'. om_find (db_rows d) i = Some r' \<and> r_state r' = 2))"
proof -
  have seq: "msg_sequenceId (ap_heap a p) = k" using app_ok_mgr(4) [OF assms(1,2,3)] by blast
  have "pending_row (db_rows (ap_dbConn a)) sid k (msg_fcmMessageId (ap_heap a p))"
    using app_ok_mgr(1,3) [OF assms(1,2)] assms(3) by (simp add: mgr_ok_def)
  then obtain r where "om_find (db_rows (ap_dbConn a)) k = Some r" by (auto simp: pending_row_def)
  with seq assms(4) show ?thesis
    by (auto simp: update_msg_def on_db_def updateMsgState_def sq_call_def monad_defs om_find_store update_row_def)
qed

text \<open>What the loop writes: the frames of the messages for the application that have no older message of
  their group in the queue.\<close>

definition may_resend_up :: "heap \<Rightarrow> msg_queue \<Rightarrow> ptr \<Rightarrow> bool" where
  "may_resend_up h q p \<longleftrightarrow>
     (msg_type (h p) = UPSTREAM \<or> msg_type (h p) = DOWNSTREAM_ACK \<or> msg_type (h p) = DOWNSTREAM_REJECT \<or>
      msg_type (h p) = DOWNSTREAM_RECEIPT) \<and> (msg_groupId (h p) = [] \<or> head_of_group h q p)"

definition resent_frames :: "env \<Rightarrow> sock \<Rightarrow> heap \<Rightarrow> msg_queue \<Rightarrow> msg_queue \<Rightarrow> (sock \<times> string) list" where
  "resent_frames E c h q xs =
     map (\<lambda>e. (c, qt_frame E (qt_toBinaryData E (the (msg_payload (h (snd e)))))))
         (filter (\<lambda>e. may_resend_up h q (snd e)) xs)"

text \<open>From \<open>a\<close> to \<open>b\<close> the frames \<open>fs\<close> were written and at most \<open>m\<close> messages were counted; rows in flight stay in flight.\<close>

definition resent :: "string \<Rightarrow> sock \<Rightarrow> nat \<Rightarrow> (sock \<times> string) list \<Rightarrow> app \<Rightarrow> app \<Rightarrow> bool" where
  "resent sid c m fs a b \<longleftrightarrow>
     ap_heap b = ap_heap a \<and> bs_state (the_session sid b) = AUTHENTICATED \<and> bs_balConn (the_session sid b) = Some c \<and>
     unat (mm_pendingAckCount (bs_msgManager (the_session sid b))) \<le> unat (mm_pendingAckCount (bs_msgManager (the_session sid a))) + m \<and>
     w_out (ap_wire b) = w_out (ap_wire a) @ fs \<and>
     (\<forall>j r. om_find (db_rows (ap_dbConn a)) j = Some r \<and> r_state r = 2 \<longrightarrow> (\<exists>r'. om_find (db_rows (ap_dbConn b)) j = Some r' \<and> r_state r' = 2))"

lemma resent_trans: "resent sid c m fs a b \<Longrightarrow> resent sid c m' fs' b d \<Longrightarrow> resent sid c (m + m') (fs @ fs') a d"
  unfolding resent_def by fastforce

lemma forward_run:
  fixes E :: env
  assumes "om_find (ap_balSessionMap a) sid = Some ses" and "bs_state ses = AUTHENTICATED" and "bs_balConn ses = Some c"
    and "msg_payload (ap_heap a p) = Some j" and "\<And>n. \<not> qt_writeFails E n"
  shows "\<exists>w. forwardMsg E sid p a = (Inr (), a \<lparr> ap_wire := w \<rparr>) \<and>
    w_out w = w_out (ap_wire a) @ [(c, qt_frame E (qt_toBinaryData E j))]"
  using assms
  by (intro exI [of _ "ap_wire a \<lparr> w_count := Suc (w_count (ap_wire a)), w_out := w_out (ap_wire a) @ [(c, qt_frame E (qt_toBinaryData E j))] \<rparr>"])
    (simp add: forwardMsg_def findBalSession_def payload_of_def write_session_def writeMessage_def sock_write_def tryM_def
      zoom_def bindM_def getsE_def ret_def)

lemma resend_up_turn:
  fixes E :: env
  assumes ok: "app_ok G {} n S q a" and inS: "sid \<in> S" and kp: "(k, p) \<in> set (q sid)"
    and dr: "draws_in_range E" and up: "\<And>n. \<not> sq_fails E n" "\<And>n. \<not> qt_writeFails E n"
    and auth: "bs_state (the_session sid a) = AUTHENTICATED" "bs_balConn (the_session sid a) = Some c"
    and cnt: "unat (mm_pendingAckCount (bs_msgManager (the_session sid a))) < 100"
  shows "\<exists>b. resend_upstream E sid p a = (Inr (), b) \<and> app_ok G {} n S q b \<and>
    resent sid c 1 (resent_frames E c (ap_heap a) (q sid) [(k, p)]) a b \<and>
    (may_resend_up (ap_heap a) (q sid) p \<and> msg_state (ap_heap a p) = NEW \<longrightarrow>
      (\<exists>r. om_find (db_rows (ap_dbConn b)) k = Some r \<and> r_state r = 2))"
proof -
  note core = core_okD [OF app_ok_core [OF ok]]
  have ne: "sid \<noteq> ''fcm''" using core(5) inS by blast
  have sid: "sid \<in> insert ''fcm'' S" using inS by simp
  have m: "bs_msgManager (the_session sid b) = mgr_of sid b" for b using ne by (simp add: mgr_of_def)
  note mgr = app_ok_mgr [OF ok sid]
  have p: "p < ap_next a" "msg_state (ap_heap a p) \<in> {NEW, PENDING_ACK}" "msg_sequenceId (ap_heap a p) = k" using mgr(4) kp by blast+
  then obtain j where j: "msg_payload (ap_heap a p) = Some j" using core(8) by (auto simp: msg_good_def)
  obtain ses where ses: "om_find (ap_balSessionMap a) sid = Some ses"
    using core(4) inS om_find_None_iff [of "ap_balSessionMap a" sid] by (cases "om_find (ap_balSessionMap a) sid") auto
  then have ses': "bs_state ses = AUTHENTICATED" "bs_balConn ses = Some c" using auth by (simp_all add: the_session_def)
  have can: "canSendMessageOnReconnect (ap_heap a) (bs_msgManager (the_session sid a)) p =
      Inr (if msg_groupId (ap_heap a p) \<noteq> [] \<and> \<not> head_of_group (ap_heap a) (q sid) p then 3 else 0)"
    using canSendMessageOnReconnect_spec [OF mgr(2), of k p] mgr(3) kp cnt p(2) by (auto simp: send_code_def m)
  have keep: "app_ok G {} n S q b" if "resend_upstream E sid p a = (Inr (), b)" for b
    using hoareD_ok [OF runs_resend_upstream [where q = q, OF dr inS ne kp, unfolded runs_def] ok that] .
  show ?thesis
  proof (cases "may_resend_up (ap_heap a) (q sid) p")
    case False
    then have run: "resend_upstream E sid p a = (Inr (), a)"
      using can by (auto simp: resend_upstream_def bindM_def gets_def getsE_def ret_def may_resend_up_def)
    with False keep [OF run] auth show ?thesis by (auto simp: resent_def resent_frames_def)
  next
    case go: True
    have run: "resend_upstream E sid p a = thenM (whenM (msg_state (ap_heap a p) \<noteq> PENDING_ACK)
        (thenM (update_msg E p PENDING_ACK) (on_bal_mgr sid (modify incrementPendingAckCount)))) (forwardMsg E sid p) a"
      using go can by (auto simp: resend_upstream_def bindM_def [of "gets _"] bindM_def [of "getsE _"] gets_def getsE_def may_resend_up_def)
    show ?thesis
    proof (cases "msg_state (ap_heap a p) = PENDING_ACK")
      case True
      obtain w where w: "forwardMsg E sid p a = (Inr (), a \<lparr> ap_wire := w \<rparr>)"
        "w_out w = w_out (ap_wire a) @ [(c, qt_frame E (qt_toBinaryData E j))]"
        using forward_run [OF ses ses' j up(2)] by blast
      have r: "resend_upstream E sid p a = (Inr (), a \<lparr> ap_wire := w \<rparr>)" using run True w(1) by (simp add: whenM_def thenM_ok ret_def)
      with keep [OF r] go True w(2) j auth show ?thesis by (auto simp: resent_def resent_frames_def the_session_def)
    next
      case False
      then have new: "msg_state (ap_heap a p) = NEW" using p(2) by simp
      obtain d row where d: "update_msg E p PENDING_ACK a = (Inr (), a \<lparr> ap_dbConn := d \<rparr>)" "om_find (db_rows d) k = Some row" "r_state row = 2"
        "\<And>i r. om_find (db_rows (ap_dbConn a)) i = Some r \<Longrightarrow> r_state r = 2 \<Longrightarrow> \<exists>r'. om_find (db_rows d) i = Some r' \<and> r_state r' = 2"
        using update_run_2 [OF ok sid kp up(1)] by blast
      let ?s = "ses \<lparr> bs_msgManager := incrementPendingAckCount (bs_msgManager ses) \<rparr>"
      let ?b = "put_session sid ?s (a \<lparr> ap_dbConn := d \<rparr>)"
      have inc: "on_bal_mgr sid (modify incrementPendingAckCount) (a \<lparr> ap_dbConn := d \<rparr>) = (Inr (), ?b)"
        using ses by (simp add: on_bal_mgr_def zoom_def modify_def the_session_def)
      have b: "om_find (ap_balSessionMap ?b) sid = Some ?s" "bs_state ?s = AUTHENTICATED" "bs_balConn ?s = Some c" "msg_payload (ap_heap ?b p) = Some j"
        using ses' j by (simp_all add: put_session_def om_find_store)
      obtain w where w: "forwardMsg E sid p ?b = (Inr (), ?b \<lparr> ap_wire := w \<rparr>)"
        "w_out w = w_out (ap_wire ?b) @ [(c, qt_frame E (qt_toBinaryData E j))]"
        using forward_run [OF b up(2)] by blast
      have r: "resend_upstream E sid p a = (Inr (), ?b \<lparr> ap_wire := w \<rparr>)"
        using run new d(1) inc w(1) by (simp add: whenM_def thenM_ok)
      have "unat (mm_pendingAckCount (bs_msgManager ses) + 1) = unat (mm_pendingAckCount (bs_msgManager ses)) + 1"
        using cnt ses by (simp add: the_session_def unat_word_ariths)
      then have "resent sid c 1 (resent_frames E c (ap_heap a) (q sid) [(k, p)]) a (?b \<lparr> ap_wire := w \<rparr>)"
        using go w(2) j d(4) b ses by (simp add: resent_def resent_frames_def the_session_def put_session_def om_find_store incrementPendingAckCount_def)
      with r keep [OF r] d(2,3) show ?thesis by (auto simp: put_session_def)
    qed
  qed
qed

lemma resend_up_run:
  fixes E :: env
  assumes ok: "app_ok G {} n S q a" and inS: "sid \<in> S"
    and dr: "draws_in_range E" and up: "\<And>n. \<not> sq_fails E n" "\<And>n. \<not> qt_writeFails E n"
    and auth: "bs_state (the_session sid a) = AUTHENTICATED" "bs_balConn (the_session sid a) = Some c"
    and cnt: "unat (mm_pendingAckCount (bs_msgManager (the_session sid a))) + length (q sid) \<le> 100"
  shows "\<exists>b. resendPendingUpstreamMessages E sid a = (Inr (), b) \<and> mm_messages (bs_msgManager (the_session sid b)) = q sid \<and>
    resent sid c (length (q sid)) (resent_frames E c (ap_heap a) (q sid) (q sid)) a b \<and>
    (\<forall>(k, p)\<in>set (q sid). may_resend_up (ap_heap a) (q sid) p \<and> msg_state (ap_heap a p) = NEW \<longrightarrow>
      (\<exists>r. om_find (db_rows (ap_dbConn b)) k = Some r \<and> r_state r = 2))"
proof -
  have sid: "sid \<in> insert ''fcm'' S" using inS by simp
  have "sid \<noteq> ''fcm''" using core_okD(5) [OF app_ok_core [OF ok]] inS by blast
  then have m: "bs_msgManager (the_session sid b) = mgr_of sid b" for b by (simp add: mgr_of_def)
  have q: "mm_messages (bs_msgManager (the_session sid b)) = q sid" if "app_ok G {} n S q b" for b
    using app_ok_mgr(3) [OF that sid] by (simp add: m)
  have wf: "om_wf (q sid)" using mm_okD(1) [OF app_ok_mgr(2) [OF ok sid]] app_ok_mgr(3) [OF ok sid] by simp
  let ?mgr = "\<lambda>a. bs_msgManager (the_session sid a)"
  let ?turn = "\<lambda>(k, p). bindM (gets (\<lambda>a. om_find (mm_messages (?mgr a)) k)) (\<lambda>here.
      if here = None then ret () else thenM (resend_upstream E sid p) (bindM (gets (\<lambda>a. om_find (mm_messages (?mgr a)) k)) (\<lambda>still.
        if still = None then raise (Undefined IteratorInvalidated) else ret ())))"
  let ?done = "\<lambda>xs h b. \<forall>(k, p)\<in>set xs. may_resend_up h (q sid) p \<and> msg_state (h p) = NEW \<longrightarrow>
      (\<exists>r. om_find (db_rows (ap_dbConn b)) k = Some r \<and> r_state r = 2)"
  have "\<exists>b. forM xs ?turn a = (Inr (), b) \<and> app_ok G {} n S q b \<and>
      resent sid c (length xs) (resent_frames E c (ap_heap a) (q sid) xs) a b \<and> ?done xs (ap_heap a) b"
    if "set xs \<subseteq> set (q sid)" "unat (mm_pendingAckCount (?mgr a)) + length xs \<le> 100" for xs
    using that ok auth
  proof (induction xs arbitrary: a)
    case Nil
    then show ?case by (simp add: resent_def resent_frames_def ret_def)
  next
    case (Cons e xs)
    obtain k p where e: "e = (k, p)" by fastforce
    have mem: "(k, p) \<in> set (q sid)" using Cons.prems(1) e by simp
    have cnt: "unat (mm_pendingAckCount (?mgr a)) < 100" using Cons.prems(2) by simp
    obtain b where b: "resend_upstream E sid p a = (Inr (), b)" "app_ok G {} n S q b"
      "resent sid c 1 (resent_frames E c (ap_heap a) (q sid) [(k, p)]) a b"
      "may_resend_up (ap_heap a) (q sid) p \<and> msg_state (ap_heap a p) = NEW \<longrightarrow>
        (\<exists>r. om_find (db_rows (ap_dbConn b)) k = Some r \<and> r_state r = 2)"
      using resend_up_turn [OF Cons.prems(3) inS mem dr up Cons.prems(4,5) cnt] by blast
    have hb: "ap_heap b = ap_heap a" using b(3) by (simp add: resent_def)
    obtain d where d: "forM xs ?turn b = (Inr (), d)" "app_ok G {} n S q d"
      "resent sid c (length xs) (resent_frames E c (ap_heap a) (q sid) xs) b d" "?done xs (ap_heap a) d"
      using Cons.IH [OF _ _ b(2)] Cons.prems(1,2) b(3) hb by (auto simp: resent_def)
    have "om_find (mm_messages (?mgr s)) k = Some p" if "app_ok G {} n S q s" for s
      using om_find_iff [OF wf] mem q [OF that] by simp
    then have "forM (e # xs) ?turn a = (Inr (), d)"
      using Cons.prems(3) b(1,2) d(1) e by (simp add: thenM_def bindM_def gets_def ret_def)
    moreover have "resent sid c (length (e # xs)) (resent_frames E c (ap_heap a) (q sid) (e # xs)) a d"
      using resent_trans [OF b(3) d(3)] e by (simp add: resent_frames_def split: if_splits)
    moreover have "?done (e # xs) (ap_heap a) d"
      using b(4) d(3,4) e unfolding resent_def by auto
    ultimately show ?case using d(2) by (intro exI conjI)
  qed
  from this [OF subset_refl cnt] obtain b where "forM (q sid) ?turn a = (Inr (), b)" "app_ok G {} n S q b"
    "resent sid c (length (q sid)) (resent_frames E c (ap_heap a) (q sid) (q sid)) a b" "?done (q sid) (ap_heap a) b" by blast
  moreover have "resendPendingUpstreamMessages E sid a = forM (q sid) ?turn a"
    unfolding resendPendingUpstreamMessages_def for_queue_def by (subst bindM_def, subst gets_def) (simp add: q [OF ok])
  ultimately show ?thesis using q [of b] by (intro exI [of _ b] conjI) simp_all
qed

end
