(* ===== verification/Db_Handle.thy ===== *)
theory Db_Handle
  imports Db
begin

text \<open>
  The connection of \<^verbatim>\<open>DbConnection\<close> to its file: how \<^verbatim>\<open>src/sqlite/sqlite3.c\<close> keeps a database handle with
  its prepared statements, closes it and frees it, and the destructor of \<^verbatim>\<open>src/dbconnection.cpp\<close> on
  top.  Trace and log hooks, virtual tables, open transactions and an allocation that fails do not occur in
  the program and are left out.
\<close>

section \<open>The handle\<close>

text \<open>The values of \<^verbatim>\<open>sqlite.magic\<close> and the result codes.\<close>

definition SQLITE_MAGIC_OPEN :: "32 word" where "SQLITE_MAGIC_OPEN = 0xa029a697"
definition SQLITE_MAGIC_CLOSED :: "32 word" where "SQLITE_MAGIC_CLOSED = 0x9f3c2d33"
definition SQLITE_MAGIC_SICK :: "32 word" where "SQLITE_MAGIC_SICK = 0x4b771290"
definition SQLITE_MAGIC_BUSY :: "32 word" where "SQLITE_MAGIC_BUSY = 0xf03b7906"
definition SQLITE_MAGIC_ZOMBIE :: "32 word" where "SQLITE_MAGIC_ZOMBIE = 0x64cffc7f"

definition SQLITE_OK :: int where "SQLITE_OK = 0"
definition SQLITE_BUSY :: int where "SQLITE_BUSY = 5"
definition SQLITE_MISUSE :: int where "SQLITE_MISUSE = 21"

lemmas sqlite_codes = SQLITE_MAGIC_OPEN_def SQLITE_MAGIC_CLOSED_def SQLITE_MAGIC_SICK_def SQLITE_MAGIC_BUSY_def
  SQLITE_MAGIC_ZOMBIE_def SQLITE_OK_def SQLITE_BUSY_def SQLITE_MISUSE_def

text \<open>\<open>sq_pVdbe\<close> is the chain of the statements that are not finalized, by address, the newest first.
  \<open>sq_aDb\<close> are the attached databases: none for a null \<^verbatim>\<open>pBt\<close>, else the count \<^verbatim>\<open>nBackup\<close> of its b-tree.
  \<open>sq_freed\<close> tells that the memory of the handle was given back; any use after that is undefined.\<close>

type_synonym stmt = nat

record sqlite3 =
  sq_magic :: "32 word"
  sq_pVdbe :: "stmt list"
  sq_aDb :: "nat option list"
  sq_errCode :: int
  sq_freed :: bool

definition sqlite3BtreeIsInBackup :: "nat \<Rightarrow> bool" where
  "sqlite3BtreeIsInBackup nBackup \<longleftrightarrow> nBackup \<noteq> 0"

definition connectionIsBusy :: "sqlite3 \<Rightarrow> bool" where
  "connectionIsBusy db \<longleftrightarrow>
     (if sq_pVdbe db \<noteq> [] then True
      else list_ex (\<lambda>pBt. pBt \<noteq> None \<and> sqlite3BtreeIsInBackup (the pBt)) (sq_aDb db))"

definition sqlite3SafetyCheckSickOrOk :: "sqlite3 \<Rightarrow> bool" where
  "sqlite3SafetyCheckSickOrOk db \<longleftrightarrow>
     \<not> (sq_magic db \<noteq> SQLITE_MAGIC_SICK \<and> sq_magic db \<noteq> SQLITE_MAGIC_OPEN \<and> sq_magic db \<noteq> SQLITE_MAGIC_BUSY)"

text \<open>Reading a member through the pointer.\<close>

definition through :: "(sqlite3 \<Rightarrow> 'a) \<Rightarrow> (sqlite3, 'a) M" where
  "through f = getsE (\<lambda>db. if sq_freed db then Inl (Undefined UseAfterFree) else Inr (f db))"

section \<open>Statements\<close>

text \<open>What \<^verbatim>\<open>sqlite3_prepare_v2\<close> does to the handle when it returns a statement at address \<open>p\<close>.\<close>

definition sqlite3VdbeCreate :: "stmt \<Rightarrow> (sqlite3, unit) M" where
  "sqlite3VdbeCreate p =
     bindM (through sq_pVdbe) (\<lambda>chain. modify (\<lambda>db. db \<lparr> sq_pVdbe := p # chain \<rparr>))"

definition sqlite3VdbeDelete :: "stmt \<Rightarrow> (sqlite3, unit) M" where
  "sqlite3VdbeDelete p = modify (\<lambda>db. db \<lparr> sq_pVdbe := remove1 p (sq_pVdbe db) \<rparr>)"

text \<open>When the last statement of a zombie is gone the handle is freed.\<close>

definition sqlite3LeaveMutexAndCloseZombie :: "(sqlite3, unit) M" where
  "sqlite3LeaveMutexAndCloseZombie =
     bindM (through (\<lambda>db. sq_magic db \<noteq> SQLITE_MAGIC_ZOMBIE \<or> connectionIsBusy db)) (\<lambda>stays.
       if stays then ret ()
       else modify (\<lambda>db. db \<lparr> sq_aDb := map (\<lambda>_. None) (sq_aDb db), sq_errCode := SQLITE_OK,
                             sq_magic := SQLITE_MAGIC_CLOSED, sq_freed := True \<rparr>))"

text \<open>What the last run of a statement left in it: whether \<^verbatim>\<open>magic\<close> is RUN or HALT (it is, from the preparation
  on), the program counter, negative while the statement was prepared or reset and not run since, the
  result code and whether the statement had expired.\<close>

record vdbe =
  vd_ready :: bool
  vd_pc :: int
  vd_rc :: int
  vd_expired :: bool

text \<open>\<^verbatim>\<open>db->errMask\<close> is \<^verbatim>\<open>0xff\<close>: the program does not ask for extended codes.\<close>

definition errMask :: int where "errMask = 0xff"

text \<open>\<^verbatim>\<open>sqlite3VdbeTransferError\<close> and \<^verbatim>\<open>sqlite3ErrorWithMsg\<close> store the code.  A statement that was not run leaves
  the code of the connection as it is, unless it had expired.\<close>

definition sqlite3VdbeReset :: "vdbe \<Rightarrow> (sqlite3, int) M" where
  "sqlite3VdbeReset v =
     thenM (if vd_pc v \<ge> 0 then modify (\<lambda>db. db \<lparr> sq_errCode := vd_rc v \<rparr>)
            else if vd_rc v \<noteq> 0 \<and> vd_expired v then modify (\<lambda>db. db \<lparr> sq_errCode := vd_rc v \<rparr>)
            else ret ())
           (ret (and (vd_rc v) errMask))"

text \<open>\<open>vd\<close> gives the state of a statement.  One that is not in the chain was finalized before, so its memory was
  given back.\<close>

definition sqlite3VdbeFinalize :: "(stmt \<Rightarrow> vdbe) \<Rightarrow> stmt \<Rightarrow> (sqlite3, int) M" where
  "sqlite3VdbeFinalize vd p =
     bindM (if vd_ready (vd p) then sqlite3VdbeReset (vd p) else ret SQLITE_OK) (\<lambda>rc.
       thenM (sqlite3VdbeDelete p) (ret rc))"

definition sqlite3ApiExit :: "int \<Rightarrow> (sqlite3, int) M" where
  "sqlite3ApiExit rc = ret (and rc errMask)"

definition sqlite3_finalize :: "(stmt \<Rightarrow> vdbe) \<Rightarrow> stmt option \<Rightarrow> (sqlite3, int) M" where
  "sqlite3_finalize vd pStmt =
     (case pStmt of
        None \<Rightarrow> ret SQLITE_OK
      | Some p \<Rightarrow>
          bindM (through sq_pVdbe) (\<lambda>chain.
            if p \<notin> set chain then raise (Undefined UseAfterFree)
            else bindM (sqlite3VdbeFinalize vd p) (\<lambda>rc0.
                 bindM (sqlite3ApiExit rc0) (\<lambda>rc.
                   thenM sqlite3LeaveMutexAndCloseZombie (ret rc)))))"

section \<open>Closing\<close>

definition sqlite3Close :: "bool \<Rightarrow> (sqlite3, int) M" where
  "sqlite3Close forceZombie =
     bindM (through sqlite3SafetyCheckSickOrOk) (\<lambda>ok.
       if \<not> ok then ret SQLITE_MISUSE
       else bindM (through connectionIsBusy) (\<lambda>busy.
         if \<not> forceZombie \<and> busy then
           thenM (modify (\<lambda>db. db \<lparr> sq_errCode := SQLITE_BUSY \<rparr>)) (ret SQLITE_BUSY)
         else
           thenM (modify (\<lambda>db. db \<lparr> sq_magic := SQLITE_MAGIC_ZOMBIE \<rparr>))
          (thenM sqlite3LeaveMutexAndCloseZombie (ret SQLITE_OK))))"

definition sqlite3_close :: "(sqlite3, int) M" where
  "sqlite3_close = sqlite3Close False"

section \<open>What DbConnection does with it\<close>

text \<open>A connection as \<^verbatim>\<open>sqlite3_open\<close> returns it: the file is open, the temporary database is not.\<close>

definition opened_handle :: sqlite3 where
  "opened_handle =
     \<lparr> sq_magic = SQLITE_MAGIC_OPEN, sq_pVdbe = [], sq_aDb = [Some 0, None], sq_errCode = SQLITE_OK, sq_freed = False \<rparr>"

text \<open>The two statements of \<^verbatim>\<open>prepareStatements\<close>.\<close>

definition prepare_handles :: "stmt \<Rightarrow> stmt \<Rightarrow> (sqlite3, unit) M" where
  "prepare_handles insertStmt updateStmt = thenM (sqlite3VdbeCreate insertStmt) (sqlite3VdbeCreate updateStmt)"

definition DbConnection_destroy :: "(stmt \<Rightarrow> vdbe) \<Rightarrow> stmt option \<Rightarrow> stmt option \<Rightarrow> (sqlite3, unit) M" where
  "DbConnection_destroy vd insertStmt updateStmt =
     bindM sqlite3_close (\<lambda>_.
     bindM (sqlite3_finalize vd insertStmt) (\<lambda>_.
     bindM (sqlite3_finalize vd updateStmt) (\<lambda>_. ret ())))"

section \<open>Lemmas\<close>

named_theorems handle_defs

lemmas [handle_defs] = through_def monad_defs modify_def sqlite3VdbeCreate_def sqlite3VdbeDelete_def
  sqlite3LeaveMutexAndCloseZombie_def sqlite3VdbeReset_def sqlite3VdbeFinalize_def sqlite3ApiExit_def sqlite3_finalize_def
  sqlite3Close_def

text \<open>What \<^verbatim>\<open>sqlite3_close\<close> does to an open connection.\<close>

lemma sqlite3_close_open:
  assumes "sq_magic db = SQLITE_MAGIC_OPEN" and "\<not> sq_freed db"
  shows "sqlite3_close db =
    (if connectionIsBusy db then (Inr SQLITE_BUSY, db \<lparr> sq_errCode := SQLITE_BUSY \<rparr>)
     else (Inr SQLITE_OK, db \<lparr> sq_aDb := map (\<lambda>_. None) (sq_aDb db), sq_errCode := SQLITE_OK,
             sq_magic := SQLITE_MAGIC_CLOSED, sq_freed := True \<rparr>))"
  using assms
  by (auto simp: sqlite3_close_def handle_defs sqlite3SafetyCheckSickOrOk_def connectionIsBusy_def)

text \<open>The code of the connection after a statement is finalized.\<close>

definition reported :: "vdbe \<Rightarrow> int \<Rightarrow> int" where
  "reported v code = (if vd_ready v \<and> (vd_pc v \<ge> 0 \<or> vd_rc v \<noteq> 0 \<and> vd_expired v) then vd_rc v else code)"

lemma finalize_listed:
  assumes "p \<in> set (sq_pVdbe db)" and "\<not> sq_freed db" and "sq_magic db \<noteq> SQLITE_MAGIC_ZOMBIE"
  shows "\<exists>rc. sqlite3_finalize vd (Some p) db =
    (Inr rc, db \<lparr> sq_pVdbe := remove1 p (sq_pVdbe db), sq_errCode := reported (vd p) (sq_errCode db) \<rparr>)"
  using assms by (simp add: handle_defs reported_def)

lemma prepared_handle:
  "prepare_handles insertStmt updateStmt db =
     (if sq_freed db then (Inl (Undefined UseAfterFree), db)
      else (Inr (), db \<lparr> sq_pVdbe := updateStmt # insertStmt # sq_pVdbe db \<rparr>))"
  by (simp add: prepare_handles_def handle_defs)

lemma opened_facts:
  "sq_magic opened_handle = SQLITE_MAGIC_OPEN" "\<not> sq_freed opened_handle" "sq_pVdbe opened_handle = []"
  "sq_aDb opened_handle = [Some 0, None]" "SQLITE_MAGIC_OPEN \<noteq> SQLITE_MAGIC_ZOMBIE"
  by (simp_all add: opened_handle_def sqlite_codes)

lemma close_prepared:
  "sqlite3_close (opened_handle \<lparr> sq_pVdbe := p # ps \<rparr>) =
     (Inr SQLITE_BUSY, opened_handle \<lparr> sq_pVdbe := p # ps, sq_errCode := SQLITE_BUSY \<rparr>)"
  by (simp add: sqlite3_close_open opened_facts connectionIsBusy_def)

lemma finalize_prepared:
  assumes "insertStmt \<noteq> updateStmt"
  shows "thenM (sqlite3_finalize vd (Some insertStmt)) (thenM (sqlite3_finalize vd (Some updateStmt)) m)
      (opened_handle \<lparr> sq_pVdbe := [updateStmt, insertStmt], sq_errCode := code \<rparr>) =
    m (opened_handle \<lparr> sq_errCode := reported (vd updateStmt) (reported (vd insertStmt) code) \<rparr>)"
proof -
  let ?db = "opened_handle \<lparr> sq_pVdbe := [updateStmt, insertStmt], sq_errCode := code \<rparr>"
  let ?db1 = "opened_handle \<lparr> sq_pVdbe := [updateStmt], sq_errCode := reported (vd insertStmt) code \<rparr>"
  obtain rc1 where 1: "sqlite3_finalize vd (Some insertStmt) ?db = (Inr rc1, ?db1)"
    using finalize_listed [of insertStmt ?db vd] assms by (auto simp: opened_facts)
  obtain rc2 where 2: "sqlite3_finalize vd (Some updateStmt) ?db1 =
      (Inr rc2, opened_handle \<lparr> sq_pVdbe := [], sq_errCode := reported (vd updateStmt) (reported (vd insertStmt) code) \<rparr>)"
    using finalize_listed [of updateStmt ?db1 vd] by (auto simp: opened_facts)
  have "opened_handle \<lparr> sq_pVdbe := [], sq_errCode := x \<rparr> = opened_handle \<lparr> sq_errCode := x \<rparr>" for x
    by (simp add: opened_handle_def)
  with 1 2 show ?thesis by (simp add: thenM_def bindM_def)
qed

lemma destroy_prepared:
  assumes "insertStmt \<noteq> updateStmt"
  shows "DbConnection_destroy vd (Some insertStmt) (Some updateStmt) (opened_handle \<lparr> sq_pVdbe := [updateStmt, insertStmt] \<rparr>) =
    (Inr (), opened_handle \<lparr> sq_errCode := reported (vd updateStmt) (reported (vd insertStmt) SQLITE_BUSY) \<rparr>)"
  using finalize_prepared [OF assms, of vd "ret ()" SQLITE_BUSY]
  by (simp add: DbConnection_destroy_def thenM_def bindM_def [of sqlite3_close] close_prepared ret_def)

text \<open>C32. The destructor of \<^verbatim>\<open>DbConnection\<close> never closes the database: it closes first, while its own two
  statements are still there, so \<^verbatim>\<open>sqlite3_close\<close> answers SQLITE_BUSY and does nothing; then the statements
  go, and the connection stays open with its file, whatever the statements did last.  Its error code is
  the one of the last statement that was run, and still SQLITE_BUSY when none was.  The same calls with the
  close last do close it.\<close>

theorem destructor_never_closes_database:
  assumes "insertStmt \<noteq> updateStmt" and "prepare_handles insertStmt updateStmt opened_handle = (Inr (), db)"
  shows "fst (sqlite3_close db) = Inr SQLITE_BUSY \<and>
    DbConnection_destroy vd (Some insertStmt) (Some updateStmt) db =
      (Inr (), opened_handle \<lparr> sq_errCode := reported (vd updateStmt) (reported (vd insertStmt) SQLITE_BUSY) \<rparr>) \<and>
    (\<exists>db'. thenM (sqlite3_finalize vd (Some insertStmt)) (thenM (sqlite3_finalize vd (Some updateStmt)) sqlite3_close) db =
        (Inr SQLITE_OK, db') \<and> sq_freed db' \<and> list_all (\<lambda>pBt. pBt = None) (sq_aDb db'))"
proof -
  have db: "db = opened_handle \<lparr> sq_pVdbe := [updateStmt, insertStmt] \<rparr>"
    using assms(2) by (simp add: prepared_handle opened_handle_def)
  then have "db = opened_handle \<lparr> sq_pVdbe := [updateStmt, insertStmt], sq_errCode := SQLITE_OK \<rparr>" by (simp add: opened_handle_def)
  then have "\<exists>db'. thenM (sqlite3_finalize vd (Some insertStmt)) (thenM (sqlite3_finalize vd (Some updateStmt)) sqlite3_close) db =
      (Inr SQLITE_OK, db') \<and> sq_freed db' \<and> list_all (\<lambda>pBt. pBt = None) (sq_aDb db')"
    using finalize_prepared [OF assms(1), of vd sqlite3_close SQLITE_OK]
    by (simp add: sqlite3_close_open opened_facts connectionIsBusy_def sqlite3BtreeIsInBackup_def)
  then show ?thesis using destroy_prepared [OF assms(1), of vd] by (simp add: db close_prepared)
qed

theorem destructor_never_closes_database_witness:
  "\<exists>db. prepare_handles 1 2 opened_handle = (Inr (), db) \<and> fst (sqlite3_close db) = Inr SQLITE_BUSY \<and>
     DbConnection_destroy (\<lambda>_. \<lparr> vd_ready = True, vd_pc = - 1, vd_rc = 0, vd_expired = False \<rparr>) (Some 1) (Some 2) db =
       (Inr (), opened_handle \<lparr> sq_errCode := SQLITE_BUSY \<rparr>)"
proof -
  have p: "prepare_handles 1 2 opened_handle = (Inr (), opened_handle \<lparr> sq_pVdbe := [2, 1] \<rparr>)"
    by (simp add: prepared_handle opened_handle_def)
  from destructor_never_closes_database [OF _ p, of "\<lambda>_. \<lparr> vd_ready = True, vd_pc = - 1, vd_rc = 0, vd_expired = False \<rparr>"] p
  show ?thesis by (simp add: reported_def)
qed

end
