(* ===== verification/Main_Program.thy ===== *)
theory Main_Program
  imports App_Effects Db_Handle "HOL-Library.Multiset"
begin

text \<open>
  \<^verbatim>\<open>src/main.cpp\<close> and the end of the program: the process around the application, with the actions it
  has installed for the POSIX signals, the delivery of a signal, the loop over the events, and the
  destructors that run when \<^verbatim>\<open>main\<close> returns.
\<close>

section \<open>Signals\<close>

datatype signum = SIGINT | SIGTERM | SIGHUP

text \<open>The static functions of the class that are installed, and \<^verbatim>\<open>struct sigaction\<close>; the masks are empty.
  The flags are those of Linux.\<close>

datatype sig_handler = HupSignalHandler | TermSignalHandler

record sigact =
  sa_handler :: sig_handler
  sa_flags :: "32 word"

definition SA_RESTART :: "32 word" where "SA_RESTART = 0x10000000"
definition SA_RESETHAND :: "32 word" where "SA_RESETHAND = 0x80000000"

text \<open>How a process ends: \<^verbatim>\<open>main\<close> returns, \<^verbatim>\<open>exit\<close> or \<^verbatim>\<open>qFatal\<close>, a signal with the default action, or a slot
  that ends in an exception nothing catches or in what C++ leaves undefined.\<close>

datatype ending = Returned | Exited | KilledBy signum | Failed fault

fun fault_ending :: "fault \<Rightarrow> ending" where
  "fault_ending Exit = Exited"
| "fault_ending f = Failed f"

text \<open>The process.  \<open>pr_action\<close> is the action of a signal, none for the default one, which ends the process.
  \<open>pr_handle\<close> is the connection to the database file, with the two statements.\<close>

record process =
  pr_app :: app
  pr_handle :: sqlite3
  pr_insertStmt :: stmt
  pr_updateStmt :: stmt
  pr_action :: "signum \<Rightarrow> sigact option"
  pr_ended :: "ending option"

text \<open>What the C library brings: whether \<^verbatim>\<open>sigaction\<close> fails for a signal, and what is in the memory of the
  local variable \<^verbatim>\<open>term\<close>, whose \<^verbatim>\<open>sa_flags\<close> no statement sets.  What the end brings: which sockets are
  connected, which of them are closed at once and say so (the others still have bytes to write), the order in
  which \<^verbatim>\<open>std::map\<close> destroys its elements, and where the last runs of the statements left them.\<close>

record posix =
  px_fails :: "signum \<Rightarrow> bool"
  px_stack :: "32 word"
  px_connected :: "int \<Rightarrow> bool"
  px_closes :: "int \<Rightarrow> bool"
  px_order :: "int list \<Rightarrow> int list"
  px_stmt :: "stmt \<Rightarrow> vdbe"

definition sigaction :: "posix \<Rightarrow> signum \<Rightarrow> sigact \<Rightarrow> (process, bool) M" where
  "sigaction P s sa =
     (if px_fails P s then ret True
      else thenM (modify (\<lambda>p. p \<lparr> pr_action := (pr_action p)(s := Some sa) \<rparr>)) (ret False))"

definition setup_posix_signal_handlers :: "posix \<Rightarrow> (process, nat) M" where
  "setup_posix_signal_handlers P =
     (let hup = \<lparr> sa_handler = HupSignalHandler, sa_flags = or 0 SA_RESTART \<rparr>
      in bindM (sigaction P SIGINT hup) (\<lambda>failed.
           if failed then ret 1
           else
             (let term = \<lparr> sa_handler = TermSignalHandler, sa_flags = or (px_stack P) SA_RESTART \<rparr>
              in bindM (sigaction P SIGTERM term) (\<lambda>failed.
                   if failed then ret 2 else ret 0))))"

text \<open>The kernel delivers a signal: the default action ends the process; a handler runs, after its action has
  gone back to the default when \<^verbatim>\<open>SA_RESETHAND\<close> is set.\<close>

definition handler_event :: "sig_handler \<Rightarrow> app_event" where
  "handler_event h = (case h of HupSignalHandler \<Rightarrow> AHup | TermSignalHandler \<Rightarrow> ATerm)"

definition end_with :: "ending \<Rightarrow> process \<Rightarrow> process" where
  "end_with e p = p \<lparr> pr_ended := Some e \<rparr>"

definition happens :: "world \<Rightarrow> app_event \<Rightarrow> process \<Rightarrow> process" where
  "happens w ev p =
     (case app_reacts w ev (pr_app p) of
        (Inl f, a) \<Rightarrow> end_with (fault_ending f) (p \<lparr> pr_app := a \<rparr>)
      | (Inr _, a) \<Rightarrow> p \<lparr> pr_app := a \<rparr>)"

definition delivered :: "world \<Rightarrow> signum \<Rightarrow> process \<Rightarrow> process" where
  "delivered w s p =
     (case pr_action p s of
        None \<Rightarrow> end_with (KilledBy s) p
      | Some sa \<Rightarrow> happens w (handler_event (sa_handler sa))
          (if and (sa_flags sa) SA_RESETHAND \<noteq> 0 then p \<lparr> pr_action := (pr_action p)(s := None) \<rparr> else p))"

section \<open>The loop and the end\<close>

datatype os_event = Event app_event | Signal signum

fun os_step :: "world \<Rightarrow> os_event \<Rightarrow> process \<Rightarrow> process" where
  "os_step w (Event ev) p = happens w ev p"
| "os_step w (Signal s) p = delivered w s p"

definition stopped :: "process \<Rightarrow> bool" where
  "stopped p \<longleftrightarrow> pr_ended p \<noteq> None \<or> ap_quit (pr_app p)"

text \<open>\<^verbatim>\<open>QCoreApplication::exec\<close> until \<^verbatim>\<open>quit\<close>, over the events that come.\<close>

primrec exec :: "world \<Rightarrow> os_event list \<Rightarrow> process \<Rightarrow> process" where
  "exec w [] p = p"
| "exec w (e # es) p = (if stopped p then p else exec w es (os_step w e p))"

text \<open>The destructor of the application: the server stops to listen; then its members go in the reverse order of
  their declaration, so the database connection before the FCM connections.\<close>

definition Application_destroy :: "world \<Rightarrow> posix \<Rightarrow> process \<Rightarrow> process" where
  "Application_destroy w P p =
     (let closed = (pr_app p) \<lparr> ap_listening := False \<rparr> in
      case DbConnection_destroy (px_stmt P) (Some (pr_insertStmt p)) (Some (pr_updateStmt p)) (pr_handle p) of
        (Inl f, h) \<Rightarrow> end_with (fault_ending f) (p \<lparr> pr_handle := h, pr_app := closed \<rparr>)
      | (Inr _, h) \<Rightarrow>
          (case forM (px_order P (map fst (ap_fcmConnectionsMap closed)))
                  (\<lambda>i. fcm_event_at (wo_env w) (wo_what w) i
                         (FcmConnection_destroy (wo_env w) (px_connected P i) (px_closes P i))) closed of
             (Inl f, a) \<Rightarrow> end_with (fault_ending f) (p \<lparr> pr_handle := h, pr_app := a \<rparr>)
           | (Inr _, a) \<Rightarrow> p \<lparr> pr_handle := h, pr_app := a \<rparr>))"

text \<open>\<^verbatim>\<open>main\<close> from its second line on; \<open>booted\<close> is the process when the constructor, with its two statements, and the
  installation of the handlers are done.  The result of \<^verbatim>\<open>setup_posix_signal_handlers\<close> is not looked at.  \<open>p\<close> is the
  process before, with the actions it inherits.\<close>

definition main_return :: "world \<Rightarrow> posix \<Rightarrow> process \<Rightarrow> process" where
  "main_return w P p =
     (if pr_ended p = None \<and> ap_quit (pr_app p)
      then (let q = Application_destroy w P p in if pr_ended q = None then end_with Returned q else q)
      else p)"

definition booted :: "posix \<Rightarrow> process \<Rightarrow> process" where
  "booted P p =
     snd (setup_posix_signal_handlers P
       (p \<lparr> pr_handle := snd (prepare_handles (pr_insertStmt p) (pr_updateStmt p) opened_handle) \<rparr>))"

definition main :: "world \<Rightarrow> posix \<Rightarrow> os_event list \<Rightarrow> process \<Rightarrow> process" where
  "main w P es p =
     (case Application (wo_env w) (wo_host w) (app_members (wo_memory w) (wo_file w)) of
        (Inl f, a) \<Rightarrow> end_with (fault_ending f) (p \<lparr> pr_app := a \<rparr>)
      | (Inr _, a) \<Rightarrow>
          main_return w P (exec w es (booted P (p \<lparr> pr_app := a \<rparr>))))"

section \<open>A signal is not lost\<close>

text \<open>What the signals go through: the bytes in the two pipes and the request to quit.  Only the handlers and the
  notifiers touch it.\<close>

definition sig_is :: "nat \<times> nat \<times> bool \<Rightarrow> app \<Rightarrow> bool" where
  "sig_is x a \<longleftrightarrow> x = (ap_sigintPipe a, ap_sigtermPipe a, ap_quit a)"

lemma sig_parts [keeps_intros]:
  "keeps (sig_is x) (on_db m1)" "keeps (sig_is x) (on_fcm_mgr m2)"
  "keeps (sig_is x) (on_bal_mgr sid m2)" "keeps (sig_is x) (on_msg p m3)"
  "keeps (sig_is x) (new_msg f)" "keeps (sig_is x) (write_session E sess j)"
  "keeps (sig_is x) (start_timer ms t)" "keeps (sig_is x) (fcm_run i m4)"
  "keeps (sig_is x) (payload_of p)" "keeps (sig_is x) (findBalSession sid)"
  "keeps (sig_is x) (findBalMessageManager sid)" "keeps (sig_is x) (say txt)"
  by (auto simp: on_db_def on_fcm_mgr_def on_bal_mgr_def on_msg_def write_session_def put_session_def say_def
      start_timer_def payload_of_def findBalSession_def findBalMessageManager_def new_msg_def fcm_run_def keeps_def
      zoom_def modify_def getsE_def sig_is_def split: option.splits prod.splits)

lemma sig_messages [keeps_intros]:
  "keeps (sig_is x) (set_state p st)" "keeps (sig_is x) (set_retry p b)"
  "keeps (sig_is x) (print_msg E p)" "keeps (sig_is x) (save_msg E p)"
  "keeps (sig_is x) (update_msg E p st)" "keeps (sig_is x) (log_act i y)"
  unfolding set_state_def set_retry_def print_msg_def save_msg_def update_msg_def log_act_def
  by (auto intro!: keeps_intros keeps_modify simp: sig_is_def split: fcm_act.split)

lemma sig_send [keeps_intros]:
  "keeps (sig_is x) (sendMessage E j)" "keeps (sig_is x) (uploadToFcm E p)"
  "keeps (sig_is x) (sendNextPendingDownstreamMessage E)"
  "keeps (sig_is x) (sendNextPendingUpstreamMessage E sid)"
  "keeps (sig_is x) (forwardMsg E sid p)" "keeps (sig_is x) (forwardMsgToBalsession E sid p)"
  "keeps (sig_is x) (notifyDownstreamUploadFailure E p)"
proof -
  show send: "keeps (sig_is x) (sendMessage E j)" for j
    unfolding sendMessage_def fcm_call_def by (auto intro!: keeps_intros keeps_forM)
  show up: "keeps (sig_is x) (uploadToFcm E p)" for p
    unfolding uploadToFcm_def by (intro keeps_intros send)
  show fw: "keeps (sig_is x) (forwardMsg E sid p)" for sid p
    unfolding forwardMsg_def by (auto intro!: keeps_intros)
  show "keeps (sig_is x) (sendNextPendingDownstreamMessage E)" "keeps (sig_is x) (sendNextPendingUpstreamMessage E sid)"
    "keeps (sig_is x) (forwardMsgToBalsession E sid p)" "keeps (sig_is x) (notifyDownstreamUploadFailure E p)"
    unfolding sendNextPendingDownstreamMessage_def sendNextPendingUpstreamMessage_def forwardMsgToBalsession_def
      notifyDownstreamUploadFailure_def Let_def
    by (auto intro!: keeps_intros up fw split: option.split)
qed

lemma sig_retry [keeps_intros]:
  "keeps (sig_is x) (retryDownstreamWithExponentialBackoff E p)"
  "keeps (sig_is x) (retryUpstreamWithExponentialBackoff E p)"
  unfolding retryDownstreamWithExponentialBackoff_def retryUpstreamWithExponentialBackoff_def Let_def
  by (auto intro!: keeps_intros)

lemma sig_resend [keeps_intros]:
  "keeps (sig_is x) (resendPendingUpstreamMessages E sid)"
  "keeps (sig_is x) (resendAllPendingDownstreamMessages E)"
  unfolding resendPendingUpstreamMessages_def resendAllPendingDownstreamMessages_def resend_upstream_def resend_downstream_def
    for_queue_def
  by (auto intro!: keeps_intros keeps_forM)

lemma sig_open [keeps_intros]: "keeps (sig_is x) (openFcmHandle E)"
  unfolding openFcmHandle_def createFcmHandle_def getNextFcmConnectionId_def setupFcmHandle_def fcm_call_def
    handleFcmConnectionStarted_def
  by (auto intro!: keeps_intros keeps_forM keeps_modify simp: sig_is_def)

lemma sig_slot: "keeps (sig_is x) (fcm_slot E what s)"
proof -
  have up: "keeps (sig_is x) (handleFcmNewUpstreamMessage E i j)" for i j
    unfolding handleFcmNewUpstreamMessage_def sendFcmAckMessage_def Let_def by (auto intro!: keeps_intros)
  have receipt: "keeps (sig_is x) (handleFcmReceiptMessage E i j)" for i j
    unfolding handleFcmReceiptMessage_def Let_def by (auto intro!: keeps_intros)
  have ack: "keeps (sig_is x) (handleFcmAckMessage E i j)" for i j
    unfolding handleFcmAckMessage_def Let_def by (auto intro!: keeps_intros)
  have nack: "keeps (sig_is x) (handleFcmNackMessage E i j)" for i j
    unfolding handleFcmNackMessage_def Let_def by (auto intro!: keeps_intros)
  have drain: "keeps (sig_is x) (handleFcmConnectionDrainingStarted E i)" for i
    unfolding handleFcmConnectionDrainingStarted_def by (auto intro!: keeps_intros keeps_modify simp: sig_is_def)
  note says = handleFcmConnectionStarted_def handleFcmConnectionEstablished_def handleFcmConnectionShutdownStarted_def
    handleFcmConnectionShutdownCompleted_def handleFcmConnectionLost_def handleFcmXmppHandshakeStarted_def
    handleFcmStreamClosed_def handleFcmHeartbeatRecieved_def handleFcmConnectionError_def handleFcmSessionEstablished_def
  show ?thesis by (cases s) (simp_all add: says keeps_intros up receipt ack nack drain)
qed

lemma sig_event_at [keeps_intros]: "keeps (sig_is x) (fcm_event_at E what i m)"
  unfolding fcm_event_at_def deliver_def
  by (auto intro!: keeps_intros keeps_forM sig_slot split: fcm_act.split)

lemma sig_balmsg [keeps_intros]: "keeps (sig_is x) (handleBALmsg E s j)"
  unfolding handleBALmsg_def handleBalLogonRequest_def handleBalDownstreamUploadRequest_def handleBalAckMsg_def Let_def
  by (auto intro!: keeps_intros keeps_modify simp: sig_is_def put_session_def split: option.split)

lemma sig_read_loop [keeps_intros]: "keeps (sig_is x) (bal_read_loop k E s)"
proof (induction k)
  case (Suc k)
  have "keeps (sig_is x) (modify (\<lambda>a. a \<lparr> ap_inbuf := (ap_inbuf a)(s := rest) \<rparr>))" for rest
    by (rule keeps_modify) (simp add: sig_is_def)
  with Suc show ?case by (auto intro!: keeps_intros split: option.split)
qed (simp add: keeps_intros)


lemma sig_start: "keeps (sig_is (0, 0, False)) (Application E H)"
proof -
  have "keeps (sig_is x) (load_fcm E)" "keeps (sig_is x) (load_bal E sid)" for x sid
    by (auto simp: load_fcm_def load_bal_def zoom_def keeps_def sig_is_def put_session_def split: prod.splits)
  moreover have exit: "keeps (sig_is x) (exit_if b)" for x b by (simp add: exit_if_def keeps_intros)
  have "keeps (sig_is (0, 0, False)) (readConfigFile H)"
    unfolding readConfigFile_def Let_def by (intro keeps_thenM exit keeps_modify; simp add: sig_is_def)
  moreover have "keeps (sig_is (0, 0, False)) (setupTcpServer H)"
    unfolding setupTcpServer_def by (intro keeps_intros) (auto simp: split_def sig_is_def intro!: keeps_thenM exit keeps_modify)
  moreover have "keeps (sig_is (0, 0, False)) (setupOsSignalCatcher H)"
    unfolding setupOsSignalCatcher_def by (intro keeps_thenM exit keeps_modify) (simp add: sig_is_def)
  ultimately show ?thesis
    unfolding Application_def start_def by (auto intro!: keeps_intros keeps_forM)
qed



section \<open>The end of the application\<close>

text \<open>Whether the socket of a connection reports its loss while the destructor closes it; then the slot for it draws the
  delay of the next attempt, which can overflow, unless the connection is draining.\<close>

definition redials :: "posix \<Rightarrow> int \<Rightarrow> fcmconn \<Rightarrow> bool" where
  "redials P i c \<longleftrightarrow> px_connected P i \<and> px_closes P i \<and> \<not> fc_connectionDrainingInProgress c"

definition overflows :: "env \<Rightarrow> posix \<Rightarrow> int \<Rightarrow> fcmconn \<Rightarrow> bool" where
  "overflows E P i c \<longleftrightarrow> redials P i c \<and> (case fst (backoff_next E (fc_expBoff c)) of Inl _ \<Rightarrow> True | Inr _ \<Rightarrow> False)"











section \<open>Runs of the loop\<close>

lemma step_frame [simp]:
  "pr_handle (os_step w e p) = pr_handle p" "pr_insertStmt (os_step w e p) = pr_insertStmt p"
  "pr_updateStmt (os_step w e p) = pr_updateStmt p"
  by (cases e; simp add: happens_def delivered_def end_with_def split: prod.split sum.split option.split)+

lemma exec_frame [simp]:
  "pr_handle (exec w es p) = pr_handle p" "pr_insertStmt (exec w es p) = pr_insertStmt p"
  "pr_updateStmt (exec w es p) = pr_updateStmt p"
  by (induction es arbitrary: p) simp_all










section \<open>The start of the process\<close>

lemma booted_frame:
  "pr_app (booted P p) = pr_app p" "pr_ended (booted P p) = pr_ended p" "pr_insertStmt (booted P p) = pr_insertStmt p"
  "pr_updateStmt (booted P p) = pr_updateStmt p"
  "pr_handle (booted P p) = opened_handle \<lparr> sq_pVdbe := [pr_updateStmt p, pr_insertStmt p] \<rparr>"
  by (simp_all add: booted_def setup_posix_signal_handlers_def sigaction_def Let_def monad_defs modify_def prepared_handle opened_facts)


lemma boots_fresh: "app_boots w a \<Longrightarrow> sig_is (0, 0, False) a"
  unfolding app_boots_def by (rule keepsD [OF sig_start]) (simp_all add: sig_is_def app_members_def)


lemma main_booted: "app_boots w a \<Longrightarrow> main w P es p = main_return w P (exec w es (booted P (p \<lparr> pr_app := a \<rparr>)))"
  by (simp add: main_def app_boots_def)






section \<open>What a signal comes to\<close>

text \<open>A machine to try it on: every call succeeds, \<open>flags\<close> are on the stack, every socket is connected and closes
  at once, no statement was run.\<close>

definition posix0 :: "32 word \<Rightarrow> posix" where
  "posix0 flags = \<lparr> px_fails = (\<lambda>_. False), px_stack = flags, px_connected = (\<lambda>_. True), px_closes = (\<lambda>_. True), px_order = rev,
     px_stmt = (\<lambda>_. \<lparr> vd_ready = True, vd_pc = - 1, vd_rc = 0, vd_expired = False \<rparr>) \<rparr>"

definition process0 :: process where
  "process0 = \<lparr> pr_app = app_members heap0 db0, pr_handle = opened_handle, pr_insertStmt = 1, pr_updateStmt = 2,
     pr_action = (\<lambda>_. None), pr_ended = None \<rparr>"

lemma world0_boots:
  "\<exists>a. app_boots (world0 JNull) a \<and> (\<forall>(i, c)\<in>set (ap_fcmConnectionsMap a). \<not> overflows (wo_env (world0 JNull)) (posix0 0) i c)"
proof -
  have "case app_runs (world0 JNull) [] of None \<Rightarrow> False
    | Some a \<Rightarrow> \<forall>(i, c)\<in>set (ap_fcmConnectionsMap a). \<not> overflows (wo_env (world0 JNull)) (posix0 0) i c"  by code_simp
  then show ?thesis by (auto simp: app_runs_def app_boots_def split: prod.splits sum.splits)
qed



text \<open>C19. What ends the process without that.  SIGHUP is never caught, and neither signal is when the first
  \<^verbatim>\<open>sigaction\<close> fails, since \<^verbatim>\<open>main\<close> does not look at the result: the default action kills the program.
  \<^verbatim>\<open>term.sa_flags\<close> is never set: where the stack has the bit of \<^verbatim>\<open>SA_RESETHAND\<close>, a second SIGTERM before the
  notifier ran kills the program as well, with no end of the stream sent; a second SIGINT never does.\<close>

theorem signals_that_kill:
  assumes "app_boots w a" and "pr_ended p0 = None" and "pr_action p0 = (\<lambda>_. None)"
  shows "pr_ended (main w P [Signal SIGHUP] p0) = Some (KilledBy SIGHUP) \<and>
    (px_fails P SIGINT \<longrightarrow> (\<forall>s. pr_ended (main w P [Signal s] p0) = Some (KilledBy s))) \<and>
    (\<not> px_fails P SIGINT \<longrightarrow> pr_ended (main w P [Signal SIGINT, Signal SIGINT] p0) = None) \<and>
    (\<not> px_fails P SIGINT \<and> \<not> px_fails P SIGTERM \<longrightarrow>
       (let q = main w P [Signal SIGTERM, Signal SIGTERM] p0 in
        pr_ended q = (if and (px_stack P) SA_RESETHAND \<noteq> 0 then Some (KilledBy SIGTERM) else None) \<and>
        ap_log (pr_app q) = ap_log a))"
proof -
  have fresh: "\<not> ap_quit a" using boots_fresh [OF assms(1)] by (simp add: sig_is_def)
  have flags: "and (or f SA_RESTART) SA_RESETHAND = and f SA_RESETHAND" "and SA_RESTART SA_RESETHAND = 0" for f
    by (simp_all add: SA_RESTART_def SA_RESETHAND_def and.left_commute bit.conj_disj_distrib2)
  note run = main_booted [OF assms(1)] main_return_def stopped_def delivered_def happens_def handler_event_def app_reacts_def
    hupSignalHandler_def termSignalHandler_def modify_def end_with_def booted_frame
  have acts: "pr_action (booted P p) s = (if px_fails P SIGINT then pr_action p s
      else if s = SIGINT then Some \<lparr> sa_handler = HupSignalHandler, sa_flags = SA_RESTART \<rparr>
      else if s = SIGTERM \<and> \<not> px_fails P SIGTERM then Some \<lparr> sa_handler = TermSignalHandler, sa_flags = or (px_stack P) SA_RESTART \<rparr>
      else pr_action p s)" for p s
    by (simp add: booted_def setup_posix_signal_handlers_def sigaction_def Let_def monad_defs modify_def)
  show ?thesis
    using assms(2,3) fresh by (auto simp: run acts flags Let_def)
qed

theorem signals_that_kill_witness:
  "pr_ended (main (world0 JNull) (posix0 SA_RESETHAND) [Signal SIGTERM, Signal SIGTERM] process0) = Some (KilledBy SIGTERM)"
proof -
  obtain a where a: "app_boots (world0 JNull) a" using world0_boots by blast
  have "and (px_stack (posix0 SA_RESETHAND)) SA_RESETHAND \<noteq> 0" by (simp add: posix0_def SA_RESETHAND_def)
  with signals_that_kill [OF a, of process0 "posix0 SA_RESETHAND"] show ?thesis
    by (simp add: process0_def posix0_def Let_def)
qed

end
