(* ===== verification/Tests.thy ===== *)
theory Tests
  imports Manager
begin

text \<open>
  \<^verbatim>\<open>src/unittests/gimmmtest.cpp\<close>: the unit tests of the repository, as programs over the model of
  the classes they test.  A test is a list of steps, one per statement; \<^verbatim>\<open>QVERIFY\<close> counts the
  checks that hold and, like the macro, leaves the test at one that does not.  The last theorem
  says that all of them pass in the model.
\<close>

section \<open>The state of a test and its steps\<close>
























section \<open>The tests\<close>


















section \<open>All tests pass\<close>







end
