(* ===== verification/Handshake.thy ===== *)
theory Handshake
  imports Fcm "HOL-Library.Countable"
begin

text \<open>
  The XMPP handshake of \<^verbatim>\<open>src/fcmconnection.cpp\<close> against the exchange that \<^verbatim>\<open>src/xmpp_handshake.xml\<close>
  documents.  The documented behaviour of \<^verbatim>\<open>QXmlStreamReader\<close> on well-formed input that arrives in whole
  tokens is \<open>reads_tokens\<close>: a view of the reader's state as the current token and the tokens to come.
  \<open>token_reader\<close> is a concrete reader that behaves so.
\<close>

section \<open>A reader of tokens\<close>

datatype xml_token =
    XStart string string "(string \<times> string) list"
  | XEnd
  | XText string
  | XOther
  | XEndDocument

type_synonym view = "xml_token option \<times> xml_token list"

text \<open>\<open>XOther\<close> is any other token: none read yet, the start of the document, a comment.  The view of a reader
  is its current token (\<open>None\<close> when the last read found the input used up) and the tokens to come.
  \<^verbatim>\<open>readNextStartElement\<close> stops at a start element, at the end of the current element or at the end of
  the input.\<close>

fun next_start :: "xml_token list \<Rightarrow> bool \<times> view" where
  "next_start [] = (False, None, [])"
| "next_start (XStart n ns as # ts) = (True, Some (XStart n ns as), ts)"
| "next_start (XEnd # ts) = (False, Some XEnd, ts)"
| "next_start (XText s # ts) = next_start ts"
| "next_start (XOther # ts) = next_start ts"
| "next_start (XEndDocument # ts) = (False, Some XEndDocument, ts)"

text \<open>\<^verbatim>\<open>readElementText\<close> on an element without child elements.\<close>

fun element_text :: "xml_token list \<Rightarrow> (string \<times> view) option" where
  "element_text (XText s # XEnd # ts) = Some (s, Some XEnd, ts)"
| "element_text (XEnd # ts) = Some ([], Some XEnd, ts)"
| "element_text _ = None"

definition attribute :: "(string \<times> string) list \<Rightarrow> string \<Rightarrow> string" where
  "attribute as k = (case map_of as k of None \<Rightarrow> [] | Some v \<Rightarrow> v)"

fun read_token :: "xml_token list \<Rightarrow> view" where
  "read_token [] = (None, [])"
| "read_token (t # ts) = (Some t, ts)"

text \<open>\<open>toks\<close> gives the tokens of a packet that holds whole tokens.\<close>

definition reads_tokens :: "xml_api \<Rightarrow> (nat \<Rightarrow> view option) \<Rightarrow> (string \<Rightarrow> xml_token list option) \<Rightarrow> bool" where
  "reads_tokens X tv toks \<longleftrightarrow> (\<forall>r cur rest. tv r = Some (cur, rest) \<longrightarrow>
     fst (x_readNextStartElement X r) = fst (next_start rest) \<and>
     tv (snd (x_readNextStartElement X r)) = Some (snd (next_start rest)) \<and>
     (\<forall>t v. element_text rest = Some (t, v) \<longrightarrow> fst (x_readElementText X r) = t \<and> tv (snd (x_readElementText X r)) = Some v) \<and>
     (\<forall>n ns as. cur = Some (XStart n ns as) \<longrightarrow> x_name X r = n \<and> x_namespaceUri X r = ns \<and> x_attribute X r = attribute as) \<and>
     (x_atEnd X r \<longleftrightarrow> rest = [] \<and> (cur = None \<or> cur = Some XEndDocument)) \<and>
     tv (x_readNext X r) = Some (read_token rest) \<and>
     (x_isEndDocument X r \<longleftrightarrow> cur = Some XEndDocument) \<and>
     x_error X r \<in> {NoXmlError, PrematureEndOfDocumentError} \<and>
     (\<forall>bytes ts. toks bytes = Some ts \<longrightarrow> tv (x_addData X bytes r) = Some (cur, rest @ ts)))"

section \<open>Symbolic runs\<close>

text \<open>The connection \<open>c\<close> is \<open>k\<close> but for its reader, which has the view \<open>v\<close>.\<close>

definition sees :: "(nat \<Rightarrow> view option) \<Rightarrow> fcmconn \<times> view \<Rightarrow> fcmconn \<Rightarrow> bool" where
  "sees tv s c \<longleftrightarrow> tv (fc_reader c) = Some (snd s) \<and> c \<lparr> fc_reader := 0 \<rparr> = fst s"

definition step :: "(nat \<Rightarrow> view option) \<Rightarrow> (fcmconn, 'a) M \<Rightarrow> fcmconn \<times> view \<Rightarrow> 'a \<Rightarrow> fcmconn \<times> view \<Rightarrow> bool" where
  "step tv m s x s' \<longleftrightarrow> (\<forall>c. sees tv s c \<longrightarrow> (\<exists>c'. m c = (Inr x, c') \<and> sees tv s' c'))"

abbreviation adds :: "fcm_act list \<Rightarrow> fcmconn \<Rightarrow> fcmconn" where
  "adds as k \<equiv> k \<lparr> fc_acts := fc_acts k @ as \<rparr>"

lemma stepD: "step tv m s x s' \<Longrightarrow> sees tv s c \<Longrightarrow> \<exists>c'. m c = (Inr x, c') \<and> sees tv s' c'"
  by (simp add: step_def)

lemma step_run:
  assumes "step tv m (c\<lparr>fc_reader := 0\<rparr>, v) x (k, w)" and "tv (fc_reader c) = Some v"
  shows "\<exists>r. m c = (Inr x, k\<lparr>fc_reader := r\<rparr>) \<and> tv r = Some w"
proof -
  obtain c' where "m c = (Inr x, c')" "tv (fc_reader c') = Some w" "c'\<lparr>fc_reader := 0\<rparr> = k"
    using assms by (auto simp: step_def sees_def)
  then show ?thesis by (intro exI [of _ "fc_reader c'"]) auto
qed

lemma step_bind: "step tv m s x s' \<Longrightarrow> step tv (f x) s' y s'' \<Longrightarrow> step tv (bindM m f) s y s''"
  by (fastforce simp: step_def bindM_def)

lemma step_then: "step tv m s () s' \<Longrightarrow> step tv m' s' y s'' \<Longrightarrow> step tv (thenM m m') s y s''"
  unfolding thenM_def by (rule step_bind)

lemma step_ret: "step tv (ret x) s x s"
  by (simp add: step_def ret_def)

lemma step_gets: "(\<And>c. sees tv s c \<Longrightarrow> g c = x) \<Longrightarrow> step tv (gets g) s x s"
  by (simp add: step_def gets_def)

lemma step_get: "(\<And>c. sees tv s c \<Longrightarrow> step tv (f c) s y s') \<Longrightarrow> step tv (bindM (gets id) f) s y s'"
  by (auto simp: step_def bindM_def gets_def)

lemma step_act: "step tv (act a) (k, v) () (k \<lparr> fc_acts := fc_acts k @ [a] \<rparr>, v)"
  by (auto simp: step_def act_def modify_def sees_def)

lemma step_modify:
  "(\<And>c. f c \<lparr> fc_reader := 0 \<rparr> = g (c \<lparr> fc_reader := 0 \<rparr>) \<and> fc_reader (f c) = fc_reader c) \<Longrightarrow>
   step tv (modify f) (k, v) () (g k, v)"
  by (auto simp: step_def modify_def sees_def)

lemma step_acts: "step tv (acts as) (k, v) () (adds as k, v)"
proof (induction as arbitrary: k)
  case (Cons a as)
  have "step tv (acts as) (adds [a] k, v) () (adds (a # as) k, v)" using Cons.IH [of "adds [a] k"] by simp
  then show ?case
    unfolding acts_def forM.simps by (rule step_then [OF step_act])
qed (simp add: acts_def step_ret)

lemma step_emit: "step tv (emit s) (k, v) () (k \<lparr> fc_acts := fc_acts k @ [Emit (s (fc_id k))] \<rparr>, v)"
  unfolding emit_def
  by (rule step_bind [where x = "fc_id k", OF step_gets step_act]) (auto simp: sees_def)

lemma step_reader:
  assumes "\<And>r. tv r = Some (cur, rest) \<Longrightarrow> fst (g r) = b \<and> tv (snd (g r)) = Some v"
  shows "step tv (\<lambda>c. case g (fc_reader c) of (x, r) \<Rightarrow> (Inr x, c \<lparr> fc_reader := r \<rparr>)) (k, cur, rest) b (k, v)"
  unfolding step_def sees_def
proof (intro allI impI)
  fix c
  assume "tv (fc_reader c) = Some (snd (k, cur, rest)) \<and> c\<lparr>fc_reader := 0\<rparr> = fst (k, cur, rest)"
  then have c: "tv (fc_reader c) = Some (cur, rest)" "c\<lparr>fc_reader := 0\<rparr> = k" by simp_all
  then show "\<exists>c'. (case g (fc_reader c) of (x, r) \<Rightarrow> (Inr x, c \<lparr> fc_reader := r \<rparr>)) = (Inr b, c') \<and>
      tv (fc_reader c') = Some (snd (k, v)) \<and> c'\<lparr>fc_reader := 0\<rparr> = fst (k, v)"
    using assms [OF c(1)] by (cases "g (fc_reader c)") auto
qed

lemma reads_tokensD:
  assumes "reads_tokens X tv toks" and "tv r = Some (cur, rest)"
  shows "fst (x_readNextStartElement X r) = fst (next_start rest)"
    and "tv (snd (x_readNextStartElement X r)) = Some (snd (next_start rest))"
    and "element_text rest = Some (t, v) \<Longrightarrow> fst (x_readElementText X r) = t \<and> tv (snd (x_readElementText X r)) = Some v"
    and "cur = Some (XStart n ns as) \<Longrightarrow> x_name X r = n \<and> x_namespaceUri X r = ns \<and> x_attribute X r = attribute as"
    and "x_atEnd X r \<longleftrightarrow> rest = [] \<and> (cur = None \<or> cur = Some XEndDocument)"
    and "tv (x_readNext X r) = Some (read_token rest)"
    and "x_isEndDocument X r \<longleftrightarrow> cur = Some XEndDocument"
    and "x_error X r \<in> {NoXmlError, PrematureEndOfDocumentError}"
    and "toks bytes = Some ts \<Longrightarrow> tv (x_addData X bytes r) = Some (cur, rest @ ts)"
  using assms(1) [unfolded reads_tokens_def, rule_format, OF assms(2)] by blast+

lemma step_start:
  "reads_tokens X tv toks \<Longrightarrow> next_start rest = (b, v) \<Longrightarrow> step tv (readNextStartElement X) (k, cur, rest) b (k, v)"
  unfolding readNextStartElement_def by (rule step_reader) (simp add: reads_tokensD(1,2))

lemma step_text:
  "reads_tokens X tv toks \<Longrightarrow> element_text rest = Some (t, v) \<Longrightarrow> step tv (readElementText X) (k, cur, rest) t (k, v)"
  unfolding readElementText_def by (rule step_reader) (simp add: reads_tokensD(3))

lemma at_start:
  assumes "reads_tokens X tv toks" and "sees tv (k, Some (XStart n ns as), rest) c"
  shows "x_name X (fc_reader c) = n" "x_namespaceUri X (fc_reader c) = ns" "x_attribute X (fc_reader c) = attribute as"
    "at_elem X m ms c \<longleftrightarrow> n = m \<and> ns = ms" "at_name X m c \<longleftrightarrow> n = m"
  using reads_tokensD(4) [OF assms(1), of "fc_reader c" _ rest n ns as] assms(2) by (auto simp: sees_def at_elem_def at_name_def)

lemma loop_stop:
  "reads_tokens X tv toks \<Longrightarrow> next_start rest = (False, v) \<Longrightarrow> 0 < n \<Longrightarrow> step tv (start_loop n X body) (k, cur, rest) () (k, v)"
  by (cases n) (auto intro!: step_bind [OF step_start] step_ret)

lemma loop_go:
  "reads_tokens X tv toks \<Longrightarrow> next_start rest = (True, v) \<Longrightarrow> step tv body (k, v) () s' \<Longrightarrow>
   step tv (start_loop n X body) s' () s'' \<Longrightarrow> step tv (start_loop (Suc n) X body) (k, cur, rest) () s''"
  by (auto intro!: step_bind [OF step_start] step_then)

section \<open>The stanzas of the handshake\<close>

definition mechanism_tokens :: "string list \<Rightarrow> xml_token list" where
  "mechanism_tokens ms = concat (map (\<lambda>m. [XStart ''mechanism'' SASL_NSPACE_URI [], XText m, XEnd]) ms)"

definition sasl_features :: "string list \<Rightarrow> xml_token list" where
  "sasl_features ms =
     [XStart ''features'' STREAM_NSPACE_URI [], XStart ''mechanisms'' SASL_NSPACE_URI []] @ mechanism_tokens ms @
     [XEnd, XEnd]"

definition sasl_success :: "xml_token list" where
  "sasl_success = [XStart ''success'' SASL_NSPACE_URI [], XEnd]"

definition bind_features :: "xml_token list" where
  "bind_features =
     [XStart ''features'' STREAM_NSPACE_URI [], XStart ''bind'' BIND_NSPACE_URI [], XEnd,
      XStart ''session'' SESSION_NSPACE_URI [], XEnd, XEnd]"

definition bind_result :: "string \<Rightarrow> xml_token list" where
  "bind_result jid =
     [XStart ''iq'' DEFAULT_NSPACE_URI [(''type'', ''result'')], XStart ''bind'' BIND_NSPACE_URI [],
      XStart ''jid'' BIND_NSPACE_URI [], XText jid, XEnd, XEnd, XEnd]"

definition stream_start :: "(string \<times> string) list \<Rightarrow> xml_token" where
  "stream_start as = XStart ''stream'' STREAM_NSPACE_URI as"

lemmas uri_defs = SASL_NSPACE_URI_def STREAM_NSPACE_URI_def BIND_NSPACE_URI_def SESSION_NSPACE_URI_def
  DEFAULT_NSPACE_URI_def

lemma readMechanisms_step:
  assumes R: "reads_tokens X tv toks" and n: "length ms < n"
  shows "step tv (readMechanisms n X) (k, cur, mechanism_tokens ms @ XEnd # rest) ()
     (adds [SingleShot 10 TSendAuthenticationInfo] (k \<lparr> fc_authMethodVect := fc_authMethodVect k @ ms \<rparr>), Some XEnd, rest)"
proof -
  let ?body = "bindM (gets (at_name X ''mechanism'')) (\<lambda>b. if b then readMechanism X else skipCurrentElement X)"
  have body: "step tv ?body (k, Some (XStart ''mechanism'' SASL_NSPACE_URI []), XText m # XEnd # ts) ()
      (k \<lparr> fc_authMethodVect := fc_authMethodVect k @ [m] \<rparr>, Some XEnd, ts)" for k m ts
    unfolding readMechanism_def
    by (rule step_bind [where x = True, OF step_gets])
      (auto simp: at_start [OF R] intro!: step_bind [OF step_text [OF R]] step_modify)
  have "step tv (start_loop n X ?body) (k, cur, mechanism_tokens ms @ XEnd # rest) ()
      (k \<lparr> fc_authMethodVect := fc_authMethodVect k @ ms \<rparr>, Some XEnd, rest)"
    using n
  proof (induction ms arbitrary: n k cur)
    case Nil
    then show ?case by (simp add: mechanism_tokens_def loop_stop [OF R])
  next
    case (Cons m ms)
    then obtain n' where n': "n = Suc n'" "length ms < n'" by (cases n) auto
    have "step tv (start_loop n' X ?body) (k \<lparr> fc_authMethodVect := fc_authMethodVect k @ [m] \<rparr>, Some XEnd, mechanism_tokens ms @ XEnd # rest) ()
      (k \<lparr> fc_authMethodVect := fc_authMethodVect k @ [m] @ ms \<rparr>, Some XEnd, rest)"
      using Cons.IH [OF n'(2), of "k \<lparr> fc_authMethodVect := fc_authMethodVect k @ [m] \<rparr>"] by simp
    then show ?case
      unfolding n' by (intro loop_go [OF R _ body]) (simp_all add: mechanism_tokens_def)
  qed
  then show ?thesis
    unfolding readMechanisms_def by (rule step_then) (use step_act in fastforce)
qed

lemma readBind_step:
  assumes R: "reads_tokens X tv toks"
  shows "step tv (readBind X) (k, cur, XEnd # rest) () (adds [SingleShot 10 TSendIQBind] k, Some XEnd, rest)"
  unfolding readBind_def thenM_def by (rule step_bind [OF step_text [OF R]], simp, rule step_act)

lemma step_dispatch:
  assumes R: "reads_tokens X tv toks"
    and "\<And>c. sees tv (k, Some (XStart n ns as), rest) c \<Longrightarrow> x_name X (fc_reader c) = n \<Longrightarrow>
      x_attribute X (fc_reader c) = attribute as \<Longrightarrow> x_namespaceUri X (fc_reader c) = ns \<Longrightarrow>
      (\<And>m ms. at_elem X m ms c \<longleftrightarrow> n = m \<and> ns = ms) \<Longrightarrow>
      step tv (f c) (k, Some (XStart n ns as), rest) y s'"
  shows "step tv (bindM (gets id) f) (k, Some (XStart n ns as), rest) y s'"
  by (rule step_get) (rule assms(2), assumption, simp_all add: at_start [OF R])

lemma features_step:
  assumes R: "reads_tokens X tv toks" and n: "length ms + 1 < n"
  shows "step tv (handleFeatures n X) (k, cur, tl (sasl_features ms) @ rest) ()
     (adds [SingleShot 10 TSendAuthenticationInfo] (k \<lparr> fc_authMethodVect := fc_authMethodVect k @ ms \<rparr>), Some XEnd, rest)"
proof -
  obtain m where m: "n = Suc m" "0 < m" using n by (cases n) auto
  show ?thesis
    unfolding handleFeatures_def sasl_features_def
    apply (subst m(1))
    apply (rule loop_go [OF R])
      apply simp
     apply (rule step_dispatch [OF R])
     apply simp
     apply (rule readMechanisms_step [OF R])
    using n apply simp
    apply (rule loop_stop [OF R])
     apply (simp_all add: m)
    done
qed

lemma bind_features_step:
  assumes R: "reads_tokens X tv toks" and n: "2 < n"
  shows "step tv (handleFeatures n X) (k, cur, tl bind_features @ rest) () (adds [SingleShot 10 TSendIQBind] k, Some XEnd, rest)"
proof -
  obtain m where m: "n = Suc (Suc m)" "0 < m" using n by (cases n; cases "n - 1") auto
  show ?thesis
    unfolding handleFeatures_def bind_features_def
    apply (subst m(1))
    apply (rule loop_go [OF R])
      apply simp
     apply (rule step_dispatch [OF R])
     apply (simp add: uri_defs)
     apply (rule readBind_step [OF R])
    apply (rule loop_go [OF R])
      apply simp
     apply (rule step_dispatch [OF R])
     apply (simp add: uri_defs readSession_def)
     apply (simp add: thenM_def)
     apply (rule step_bind [OF step_text [OF R]])
      apply simp
     apply (rule step_ret)
    apply (rule loop_stop [OF R])
     apply (simp_all add: m)
    done
qed

lemma success_step:
  assumes R: "reads_tokens X tv toks"
  shows "step tv (handleSaslSuccess X) (k, cur, XEnd # rest) ()
     (adds [Emit (saslSucess (fc_id k)), SingleShot 10 TStartNewStream] k, Some XEnd, rest)"
  unfolding handleSaslSuccess_def
  apply (subst thenM_def)
  apply (rule step_bind [OF step_text [OF R]])
   apply simp
  apply (rule step_then [OF step_emit])
  using step_act [of tv "SingleShot 10 TStartNewStream" "adds [Emit (saslSucess (fc_id k))] k"] apply simp
  done

text \<open>\<^verbatim>\<open>readJid\<close> leaves the text and the end of the \<^verbatim>\<open>jid\<close> element to the loops of its callers: each of them
  ends one end tag early, and what follows the \<^verbatim>\<open>jid\<close> start tag is left but for the first two end tags.\<close>

definition bound :: "fcmconn \<Rightarrow> fcmconn" where
  "bound k = adds [Emit (sessionEstablished (fc_id k))]
     (k \<lparr> fc_state := FS_AUTHENTICATED, fc_expBoff := backoff_reset (fc_expBoff k) \<rparr>)"

lemma readJid_step: "step tv readJid (k, v) () (bound k, v)"
  by (auto simp: readJid_def bound_def step_def sees_def emit_def act_def monad_defs)

lemma bind_result_step:
  assumes R: "reads_tokens X tv toks" and n: "1 < n"
  shows "step tv (handleIq n X) (k, cur, tl (bind_result jid) @ rest) () (bound k, Some XEnd, XEnd # rest)"
proof -
  obtain m where m: "n = Suc m" "0 < m" using n by (cases n) auto
  have jid: "step tv (readIQBindResult n X) (k, cur', drop 2 (bind_result jid) @ rest) () (bound k, Some XEnd, XEnd # XEnd # rest)" for cur'
    unfolding readIQBindResult_def bind_result_def
    apply (subst m(1))
    apply (rule loop_go [OF R])
      apply simp
     apply (rule step_bind [where x = True, OF step_gets])
      apply (simp add: at_start [OF R])
     apply simp
     apply (rule readJid_step)
    apply (rule loop_stop [OF R])
     apply (simp_all add: m)
    done
  show ?thesis
    unfolding handleIq_def
    apply (subst m(1))
    apply (rule loop_go [OF R, where v = "(Some (XStart ''bind'' BIND_NSPACE_URI []), drop 2 (bind_result jid) @ rest)"])
      apply (simp add: bind_result_def)
     apply (rule step_bind [where x = True, OF step_gets])
      apply (simp add: at_start [OF R])
     apply simp
     apply (rule jid)
    apply (rule loop_stop [OF R])
     apply (simp_all add: m)
    done
qed

lemma drain_step:
  assumes R: "reads_tokens X tv toks"
  shows "XEndDocument \<notin> set rest \<Longrightarrow> cur \<noteq> Some XEndDocument \<Longrightarrow> length rest + 1 < n \<Longrightarrow>
    step tv (handleOtherElement n X) (k, cur, rest) () (k, None, [])"
proof (induction n arbitrary: rest cur)
  case (Suc n)
  let ?t = "fst (read_token rest)"
  have next_read: "step tv (modify (\<lambda>c. c\<lparr>fc_reader := x_readNext X (fc_reader c)\<rparr>)) (k, cur, rest) () (k, read_token rest)"
    using reads_tokensD(6) [OF R] by (auto simp: step_def sees_def modify_def)
  have t: "?t \<noteq> Some XEndDocument" using Suc.prems by (cases rest) auto
  have end': "step tv (gets (\<lambda>c. x_atEnd X (fc_reader c))) (k, cur, rest) (rest = [] \<and> cur = None) (k, cur, rest)"
    using Suc.prems by (intro step_gets) (auto simp: sees_def reads_tokensD(5) [OF R])
  have doc: "step tv (gets (\<lambda>c. x_isEndDocument X (fc_reader c))) (k, read_token rest) False (k, read_token rest)"
    using t by (intro step_gets) (cases rest, auto simp: sees_def reads_tokensD(7) [OF R])
  have more: "step tv (handleOtherElement n X) (k, read_token rest) () (k, None, [])"
    if "\<not> (rest = [] \<and> cur = None)"
  proof (cases rest)
    case Nil
    with that Suc.prems obtain m where "n = Suc m" by (cases n) auto
    with Nil show ?thesis by (auto simp: step_def sees_def monad_defs reads_tokensD(5) [OF R])
  next
    case (Cons u us)
    with Suc show ?thesis by auto
  qed
  show ?case
  proof (cases "rest = [] \<and> cur = None")
    case True
    with end' show ?thesis by (auto intro!: step_bind step_ret)
  next
    case False
    show ?thesis
      apply (simp only: handleOtherElement.simps)
      apply (rule step_bind [OF end'])
      using False apply simp
      apply (intro step_then [OF next_read] impI conjI step_bind [OF doc])
       apply (simp_all add: whenM_def step_then [OF step_ret] more)
      done
  qed
qed simp

text \<open>A packet whose stanzas the main loop handles up to \<open>rest\<close>; the rest is read and dropped.\<close>

lemma packet_step:
  assumes R: "reads_tokens X tv toks" and b: "toks b = Some ts" "length b \<noteq> 1"
    and main: "step tv (start_loop n X (handleStartElement E n X)) (k, cur, ts) () (k', cur', rest)"
    and rest: "XEndDocument \<notin> set rest" "cur' \<noteq> Some XEndDocument" "length rest + 1 < n"
  shows "step tv (handleReadyRead E n X b) (k, cur, []) () (k', None, [])"
proof -
  have add: "step tv (modify (\<lambda>c. c\<lparr>fc_reader := x_addData X b (fc_reader c)\<rparr>)) (k, cur, []) () (k, cur, ts)"
    using reads_tokensD(9) [OF R _ b(1)] by (fastforce simp: step_def sees_def modify_def)
  have err: "step tv (bindM (gets (\<lambda>c. x_error X (fc_reader c)))
      (\<lambda>e. case e of OtherXmlError t \<Rightarrow> emit (\<lambda>i. connectionError i (ErrText t)) | _ \<Rightarrow> ret ()))
      (k', None, []) () (k', None, [])"
    using reads_tokensD(8) [OF R] by (fastforce simp: step_def sees_def monad_defs)
  have "step tv (parseXml E n X) (k, cur, ts) () (k', None, [])"
    unfolding parseXml_def by (rule step_then [OF main step_then [OF drain_step [OF R rest] err]])
  then have "step tv (catchM (parseXml E n X) h) (k, cur, ts) () (k', None, [])" for h
    unfolding step_def catchM_def by fastforce
  then show ?thesis
    using b(2) by (simp add: handleReadyRead_def step_then [OF add])
qed

section \<open>The packets of the handshake\<close>

definition hello_packet :: "(string \<times> string) list \<Rightarrow> string list \<Rightarrow> xml_token list" where
  "hello_packet as ms = stream_start as # sasl_features ms"

definition stream_packet :: "(string \<times> string) list \<Rightarrow> xml_token list" where
  "stream_packet as = stream_start as # bind_features"

lemma stream_stanza:
  assumes R: "reads_tokens X tv toks"
  shows "step tv (handleStartElement E n X) (k, Some (stream_start as), rest) () (k, Some (stream_start as), rest)"
  unfolding handleStartElement_def stream_start_def
  by (rule step_dispatch [OF R]) (simp add: handleStartStream_def step_ret)

lemma features_stanza:
  assumes R: "reads_tokens X tv toks"
    and "step tv (handleFeatures n X) (k, Some (XStart ''features'' STREAM_NSPACE_URI as), rest) () s'"
  shows "step tv (handleStartElement E n X) (k, Some (XStart ''features'' STREAM_NSPACE_URI as), rest) () s'"
  unfolding handleStartElement_def by (rule step_dispatch [OF R]) (use assms(2) in simp)

lemma features_packet:
  assumes R: "reads_tokens X tv toks" and n: "2 < n"
    and fs: "fs = XStart ''features'' STREAM_NSPACE_URI [] # ts"
    and s: "\<And>cur. step tv (handleFeatures n X) (k, cur, ts) () (k', Some XEnd, [])"
  shows "step tv (start_loop n X (handleStartElement E n X)) (k, cur, stream_start as # fs) () (k', None, [])"
proof -
  obtain m where m: "n = Suc (Suc m)" "0 < m" using n by (cases n; cases "n - 1") auto
  show ?thesis
    unfolding fs
    apply (subst m(1))
    apply (rule loop_go [OF R, where v = "(Some (stream_start as), XStart ''features'' STREAM_NSPACE_URI [] # ts)"])
      apply (simp add: stream_start_def)
     apply (rule stream_stanza [OF R])
    apply (rule loop_go [OF R])
      apply simp
     apply (rule features_stanza [OF R s])
    apply (rule loop_stop [OF R])
     apply (simp_all add: m)
    done
qed

lemma hello_stanzas:
  assumes R: "reads_tokens X tv toks" and n: "length ms + 2 < n"
  shows "step tv (start_loop n X (handleStartElement E n X)) (k, cur, hello_packet as ms) ()
     (adds [SingleShot 10 TSendAuthenticationInfo] (k \<lparr> fc_authMethodVect := fc_authMethodVect k @ ms \<rparr>), None, [])"
  unfolding hello_packet_def
  using features_step [OF R, of ms n, where rest = "[]"] n
  by (intro features_packet [OF R, where ts = "tl (sasl_features ms)"]) (simp_all add: sasl_features_def)

lemma success_stanzas:
  assumes R: "reads_tokens X tv toks" and n: "1 < n"
  shows "step tv (start_loop n X (handleStartElement E n X)) (k, cur, sasl_success) ()
     (adds [Emit (saslSucess (fc_id k)), SingleShot 10 TStartNewStream] k, None, [])"
proof -
  obtain m where m: "n = Suc m" "0 < m" using n by (cases n) auto
  show ?thesis
    unfolding sasl_success_def
    apply (subst m(1))
    apply (rule loop_go [OF R])
      apply simp
     apply (subst handleStartElement_def)
     apply (rule step_dispatch [OF R])
     apply (simp add: uri_defs)
     apply (rule success_step [OF R])
    apply (rule loop_stop [OF R])
     apply (simp_all add: m)
    done
qed

lemma stream_stanzas:
  assumes R: "reads_tokens X tv toks" and n: "2 < n"
  shows "step tv (start_loop n X (handleStartElement E n X)) (k, cur, stream_packet as) ()
     (adds [SingleShot 10 TSendIQBind] k, None, [])"
  unfolding stream_packet_def
  using bind_features_step [OF R n, where rest = "[]"]
  by (intro features_packet [OF R n, where ts = "tl bind_features"]) (simp_all add: bind_features_def)

lemma bind_stanzas:
  assumes R: "reads_tokens X tv toks" and n: "1 < n"
  shows "step tv (start_loop n X (handleStartElement E n X)) (k, cur, bind_result jid @ rest) () (bound k, Some XEnd, rest)"
proof -
  obtain m where m: "n = Suc m" "0 < m" using n by (cases n) auto
  show ?thesis
    apply (subst m(1))
    apply (rule loop_go [OF R, where v = "(Some (hd (bind_result jid)), tl (bind_result jid) @ rest)"])
      apply (simp add: bind_result_def)
     apply (simp add: handleStartElement_def bind_result_def)
     apply (rule step_dispatch [OF R])
     apply (simp add: uri_defs attribute_def)
     apply (rule bind_result_step [OF R n, unfolded bind_result_def, simplified, unfolded uri_defs])
    apply (rule loop_stop [OF R])
     apply (simp_all add: m)
    done
qed

section \<open>Message stanzas\<close>

definition message_tokens :: "string \<Rightarrow> xml_token list" where
  "message_tokens t =
     [XStart ''message'' DEFAULT_NSPACE_URI [(''id'', [])], XStart ''gcm'' GCM_NSPACE_URI [], XText t, XEnd, XEnd]"

definition signalled :: "fcm_signal list \<Rightarrow> fcmconn \<Rightarrow> fcmconn" where
  "signalled ss k = adds (map Emit ss)
     (k \<lparr> fc_connectionDrainingInProgress :=
           (fc_connectionDrainingInProgress k \<or> (\<exists>i. connectionDrainingStarted i \<in> set ss)) \<rparr>)"

lemma signalled_append: "signalled ss (signalled ss' k) = signalled (ss' @ ss) k"
  by (simp add: signalled_def ex_disj_distrib disj_assoc)

lemma message_step:
  assumes R: "reads_tokens X tv toks" and n: "1 < n"
    and j: "qt_fromJson E (c_str t) \<noteq> JNull" "message_signal (qt_fromJson E (c_str t)) (fc_id k) = Inr s"
  shows "step tv (handleStartElement E n X) (k, Some (hd (message_tokens t)), tl (message_tokens t) @ rest) ()
     (signalled [s] k, Some XEnd, rest)"
proof -
  obtain m where m: "n = Suc m" "0 < m" using n by (cases n) auto
  have sig: "step tv (handleFcmMessage E t) (k, v) () (signalled [s] k, v)" for v
    using j by (cases s) (auto simp: step_def sees_def handleFcmMessage_signals signalled_def)
  have "step tv (handleMessage E n X) (k, cur, tl (message_tokens t) @ rest) () (signalled [s] k, Some XEnd, rest)" for cur
    unfolding handleMessage_def message_tokens_def
    apply (subst m(1))
    apply (rule loop_go [OF R])
      apply simp
     apply (rule step_bind [where x = True, OF step_gets])
      apply (simp add: at_start [OF R])
     apply simp
     apply (rule step_bind [OF step_text [OF R]])
      apply simp
     apply (rule sig)
    apply (rule loop_stop [OF R])
     apply (simp_all add: m)
    done
  then show ?thesis
    unfolding handleStartElement_def message_tokens_def
    by (simp, intro step_dispatch [OF R]) (simp add: uri_defs)
qed

lemma message_stanzas:
  assumes R: "reads_tokens X tv toks" and n: "1 < n"
    and "\<forall>t \<in> set ts. qt_fromJson E (c_str t) \<noteq> JNull \<and> message_signal (qt_fromJson E (c_str t)) (fc_id k) = Inr (sg t)"
    and "length ts < m"
  shows "step tv (start_loop m X (handleStartElement E n X)) (k, cur, concat (map message_tokens ts)) ()
     (signalled (map sg ts) k, None, [])"
  using assms(3-4)
proof (induction ts arbitrary: m k cur)
  case Nil
  then show ?case by (auto simp: signalled_def intro!: loop_stop [OF R])
next
  case (Cons t ts)
  then obtain m' where m: "m = Suc m'" "length ts < m'" by (cases m) auto
  have "step tv (start_loop m' X (handleStartElement E n X)) (signalled [sg t] k, Some XEnd, concat (map message_tokens ts)) ()
     (signalled (map sg (t # ts)) k, None, [])"
    using Cons.IH [of "signalled [sg t] k" m'] Cons.prems(1) m(2)
    by (simp add: signalled_append) (simp add: signalled_def)
  moreover have "step tv (handleStartElement E n X)
      (k, Some (hd (message_tokens t)), tl (message_tokens t) @ concat (map message_tokens ts)) ()
      (signalled [sg t] k, Some XEnd, concat (map message_tokens ts))"
    using Cons.prems by (intro message_step [OF R n]) auto
  ultimately show ?case
    unfolding m(1) by (intro loop_go [OF R]) (simp_all add: message_tokens_def [of t])
qed

section \<open>A concrete reader\<close>

text \<open>The state of \<open>token_reader\<close> is the number of a view.\<close>

instance xml_token :: countable by countable_datatype

definition token_view :: "nat \<Rightarrow> view" where
  "token_view = from_nat"

lemma token_view_to_nat [simp]: "token_view (to_nat v) = v"
  by (simp add: token_view_def)

definition token_reader :: "(string \<Rightarrow> xml_token list option) \<Rightarrow> xml_api" where
  "token_reader toks =
     \<lparr> x_addData = (\<lambda>b r. to_nat (fst (token_view r), snd (token_view r) @ (case toks b of None \<Rightarrow> [] | Some ts \<Rightarrow> ts))),
       x_readNextStartElement = (\<lambda>r. map_prod id to_nat (next_start (snd (token_view r)))),
       x_name = (\<lambda>r. case fst (token_view r) of Some (XStart n _ _) \<Rightarrow> n | _ \<Rightarrow> []),
       x_namespaceUri = (\<lambda>r. case fst (token_view r) of Some (XStart _ ns _) \<Rightarrow> ns | _ \<Rightarrow> []),
       x_attribute = (\<lambda>r. case fst (token_view r) of Some (XStart _ _ as) \<Rightarrow> attribute as | _ \<Rightarrow> (\<lambda>_. [])),
       x_readElementText = (\<lambda>r. case element_text (snd (token_view r)) of Some (t, v) \<Rightarrow> (t, to_nat v) | None \<Rightarrow> ([], r)),
       x_skipCurrentElement = (\<lambda>r. r),
       x_atEnd = (\<lambda>r. snd (token_view r) = [] \<and> (fst (token_view r) = None \<or> fst (token_view r) = Some XEndDocument)),
       x_readNext = (\<lambda>r. to_nat (read_token (snd (token_view r)))),
       x_isEndDocument = (\<lambda>r. fst (token_view r) = Some XEndDocument),
       x_error = (\<lambda>_. NoXmlError) \<rparr>"

lemma token_reader_reads: "reads_tokens (token_reader toks) (Some \<circ> token_view) toks"
  by (auto simp: reads_tokens_def token_reader_def)

section \<open>The client's side\<close>

lemma connect_step:
  "step tv (connectToFcm server_id server_key host port) (k, v) ()
     (adds [Emit (connectionStarted (fc_id k)), ConnectToHostEncrypted host port]
       (k \<lparr> fc_serverId := server_id, fc_serverKey := server_key, fc_hostAddress := host, fc_portNo := port \<rparr>), v)"
  by (auto simp: step_def sees_def connectToFcm_def connectToFirebase_def emit_def act_def monad_defs)

lemma encrypted_step:
  "step tv socketEncrypted (k, v) ()
     (adds ([Emit (connectionEstablished (fc_id k)), Emit (xmppHandshakeStarted (fc_id k)), Xml StartDocument] @ stream_header)
       (k \<lparr> fc_readyReadSlots := Suc (fc_readyReadSlots k) \<rparr>), v)"
  by (auto simp: step_def sees_def socketEncrypted_def stream_header_def acts_def emit_def act_def monad_defs)

definition credentials :: "env \<Rightarrow> string \<Rightarrow> string \<Rightarrow> string" where
  "credentials E server_id server_key =
     qt_toBase64 E ([CHR 0x00] @ c_str server_id @ ''@gcm.googleapis.com'' @ [CHR 0x00] @ c_str server_key)"

lemma auth_step:
  "step tv (sendAuthenticationInfo E) (k, v) ()
     (adds [Xml (StartElement ''auth''), Xml (Attribute ''mechanism'' ''PLAIN''), Xml (Attribute ''xmlns'' SASL_NSPACE_URI),
            Xml (Characters (credentials E (fc_serverId k) (fc_serverKey k))), Xml EndElement] k, v)"
  by (auto simp: step_def sees_def sendAuthenticationInfo_def credentials_def SASL_NSPACE_URI_def acts_def act_def
      monad_defs Let_def)

lemma new_stream_step:
  "step tv startNewStream (k, v) () (adds (stream_header @ [Emit (streamOpened (fc_id k))]) k, v)"
  by (auto simp: step_def sees_def startNewStream_def stream_header_def acts_def emit_def act_def monad_defs)

lemma bind_request_step:
  "step tv sendIQBind (k, v) ()
     (adds [Xml (StartElement ''iq''), Xml (Attribute ''type'' ''set''), Xml (StartElement ''bind''),
            Xml (Attribute ''xmlns'' BIND_NSPACE_URI), Xml EndElement, Xml EndElement] k, v)"
  unfolding sendIQBind_def BIND_NSPACE_URI_def by (rule step_acts)

lemmas client_steps = connect_step encrypted_step auth_step new_stream_step bind_request_step

text \<open>What the event loop delivers in a handshake whose answers come in the packets \<open>b1\<close> to \<open>b4\<close>.\<close>

definition handshake_events ::
  "string \<Rightarrow> string \<Rightarrow> string \<Rightarrow> 16 word \<Rightarrow> string \<Rightarrow> string \<Rightarrow> string \<Rightarrow> string \<Rightarrow> fcm_event list" where
  "handshake_events server_id server_key host port b1 b2 b3 b4 =
     [EvConnectToFcm server_id server_key host port, EvEncrypted,
      EvReadyRead b1, EvTimer TSendAuthenticationInfo, EvReadyRead b2, EvTimer TStartNewStream,
      EvReadyRead b3, EvTimer TSendIQBind, EvReadyRead b4]"

section \<open>Properties\<close>

text \<open>C34. The handshake with the FCM server completes, and it is the exchange that
  \<^verbatim>\<open>xmpp_handshake.xml\<close> documents: when the server answers with its features, the SASL success, the
  features of the new stream and the result of the bind, each in a packet, and each timer the connection
  starts fires, the connection is authenticated, has stored the offered mechanisms, has written exactly
  the stream header, the credentials, the header of the new stream and the bind request, in that order,
  and has signalled each stage once.  It sends \<^verbatim>\<open>PLAIN\<close> credentials whatever mechanisms are offered.\<close>

theorem handshake_completes:
  assumes "reads_tokens X tv toks" and "tv r = Some (Some XOther, [])"
    and "toks b1 = Some (hello_packet as ms)" and "toks b2 = Some sasl_success"
    and "toks b3 = Some (stream_packet as')" and "toks b4 = Some (bind_result jid)"
    and "\<forall>b \<in> {b1, b2, b3, b4}. length b \<noteq> 1" and "length ms + 2 < n"
  shows "\<exists>r'. forM (handshake_events server_id server_key host port b1 b2 b3 b4) (fcm_handle E n X) (FcmConnection seed r i) =
     (Inr (), (FcmConnection seed r' i)
        \<lparr> fc_serverId := server_id, fc_serverKey := server_key, fc_hostAddress := host, fc_portNo := port,
          fc_authMethodVect := ms, fc_state := FS_AUTHENTICATED,
          fc_expBoff := backoff_reset (ExponentialBackoff seed NO_MAX_RETRY), fc_readyReadSlots := 1,
          fc_acts :=
            [Emit (connectionStarted i), ConnectToHostEncrypted host port, Emit (connectionEstablished i),
             Emit (xmppHandshakeStarted i), Xml StartDocument] @ stream_header @
            [SingleShot 10 TSendAuthenticationInfo,
             Xml (StartElement ''auth''), Xml (Attribute ''mechanism'' ''PLAIN''),
             Xml (Attribute ''xmlns'' SASL_NSPACE_URI),
             Xml (Characters (credentials E server_id server_key)), Xml EndElement,
             Emit (saslSucess i), SingleShot 10 TStartNewStream] @ stream_header @
            [Emit (streamOpened i), SingleShot 10 TSendIQBind,
             Xml (StartElement ''iq''), Xml (Attribute ''type'' ''set''), Xml (StartElement ''bind''),
             Xml (Attribute ''xmlns'' BIND_NSPACE_URI), Xml EndElement, Xml EndElement,
             Emit (sessionEstablished i)] \<rparr>) \<and> tv r' = Some (None, [])"
    (is "\<exists>r'. _ = (_, ?final r') \<and> _")
proof -
  note R = assms(1)
  let ?run = "forM (handshake_events server_id server_key host port b1 b2 b3 b4) (fcm_handle E n X)"
  have p1: "step tv (handleReadyRead E n X b1) (k, cur, []) ()
      (adds [SingleShot 10 TSendAuthenticationInfo] (k \<lparr> fc_authMethodVect := fc_authMethodVect k @ ms \<rparr>), None, [])" for k cur
    using assms by (intro packet_step [OF R assms(3) _ hello_stanzas [OF R]]) auto
  have p2: "step tv (handleReadyRead E n X b2) (k, cur, []) ()
      (adds [Emit (saslSucess (fc_id k)), SingleShot 10 TStartNewStream] k, None, [])" for k cur
    using assms by (intro packet_step [OF R assms(4) _ success_stanzas [OF R]]) auto
  have p3: "step tv (handleReadyRead E n X b3) (k, cur, []) () (adds [SingleShot 10 TSendIQBind] k, None, [])" for k cur
    using assms by (intro packet_step [OF R assms(5) _ stream_stanzas [OF R]]) auto
  have p4: "step tv (handleReadyRead E n X b4) (k, cur, []) () (bound k, None, [])" for k cur
    using assms bind_stanzas [OF R, of n E k cur jid "[]"]
    by (intro packet_step [OF R assms(6), where cur' = "Some XEnd"]) auto
  have "\<exists>k. step tv ?run (FcmConnection seed 0 i, Some XOther, []) () (k, None, []) \<and> k = ?final 0"
    apply (simp only: handshake_events_def forM.simps fcm_handle.simps fcm_timer_fires.simps)
    apply (intro exI conjI)
     apply (rule step_then, rule client_steps p1 p2 p3 p4)+
     apply (rule step_ret)
    apply (simp add: FcmConnection_def bound_def)
    done
  then have "step tv ?run (FcmConnection seed 0 i, Some XOther, []) () (?final 0, None, [])" by blast
  then have "step tv ?run ((FcmConnection seed r i)\<lparr>fc_reader := 0\<rparr>, Some XOther, []) () (?final 0, None, [])"
    by (simp add: FcmConnection_def)
  from step_run [OF this] assms(2) show ?thesis by (simp add: FcmConnection_def)
qed

theorem handshake_completes_witness:
  "\<exists>c'. forM (handshake_events ''1'' ''k'' ''fcm'' 5235 ''hello'' ''success'' ''stream'' ''bind'')
     (fcm_handle (env0 JNull) 9 (token_reader (map_of
       [(''hello'', hello_packet [] [''X-OAUTH2'', ''PLAIN'']), (''success'', sasl_success), (''stream'', stream_packet []),
        (''bind'', bind_result ''1@gcm'')])))
     (FcmConnection 0 (to_nat (Some XOther, [] :: xml_token list)) 1) = (Inr (), c') \<and>
     fc_state c' = FS_AUTHENTICATED \<and> fc_authMethodVect c' = [''X-OAUTH2'', ''PLAIN''] \<and>
     last (fc_acts c') = Emit (sessionEstablished 1)"
proof -
  let ?toks = "map_of [(''hello'', hello_packet [] [''X-OAUTH2'', ''PLAIN'']), (''success'', sasl_success),
    (''stream'', stream_packet []), (''bind'', bind_result ''1@gcm'')]"
  show ?thesis
    using handshake_completes [OF token_reader_reads, where toks = ?toks and r = "to_nat (Some XOther, [] :: xml_token list)" and
        ?b1.0 = "''hello''" and as = "[]" and ms = "[''X-OAUTH2'', ''PLAIN'']" and ?b2.0 = "''success''" and ?b3.0 = "''stream''" and
        as' = "[]" and ?b4.0 = "''bind''" and jid = "''1@gcm''" and n = 9 and server_id = "''1''" and server_key = "''k''" and
        host = "''fcm''" and port = 5235 and E = "env0 JNull" and seed = 0 and i = 1]
    by auto
qed

text \<open>C35. \<^verbatim>\<open>readJid\<close> loses the rest of its packet: its \<^verbatim>\<open>readElementText\<close> is commented out, so the loops of
  its callers end one end tag early, the main loop stops at the end of the \<^verbatim>\<open>iq\<close> element and
  \<^verbatim>\<open>handleOtherElement\<close> reads and drops whatever follows.  The session is established, but none of the
  stanzas that arrive in one packet with the result of the bind (the messages FCM had stored for the
  server, say) is signalled.\<close>

theorem stanzas_after_bind_are_lost:
  assumes "reads_tokens X tv toks" and "tv (fc_reader c) = Some (cur, [])"
    and "toks bytes = Some (bind_result jid @ stanzas)" and "XEndDocument \<notin> set stanzas"
    and "length bytes \<noteq> 1" and "length stanzas + 1 < n"
  shows "\<exists>r'. handleReadyRead E n X bytes c =
     (Inr (), c \<lparr> fc_reader := r', fc_state := FS_AUTHENTICATED, fc_expBoff := backoff_reset (fc_expBoff c),
                   fc_acts := fc_acts c @ [Emit (sessionEstablished (fc_id c))] \<rparr>) \<and> tv r' = Some (None, [])"
proof -
  have "step tv (handleReadyRead E n X bytes) (c\<lparr>fc_reader := 0\<rparr>, cur, []) () (bound (c\<lparr>fc_reader := 0\<rparr>), None, [])"
    using assms by (intro packet_step [OF assms(1,3,5) bind_stanzas [OF assms(1)]]) auto
  from step_run [OF this assms(2)] obtain r' where "handleReadyRead E n X bytes c = (Inr (), bound c \<lparr>fc_reader := r'\<rparr>)" "tv r' = Some (None, [])"
    by (auto simp: bound_def)
  then show ?thesis by (intro exI [of _ r']) (simp add: bound_def)
qed

theorem stanzas_after_bind_are_lost_witness:
  "\<exists>r'. handleReadyRead (env0 (JObject [])) 9 (token_reader [''b1'' \<mapsto> bind_result ''1@gcm'' @ message_tokens ''{}'']) ''b1''
     (FcmConnection 0 (to_nat (None :: xml_token option, [] :: xml_token list)) 7) =
     (Inr (), (FcmConnection 0 r' 7) \<lparr> fc_state := FS_AUTHENTICATED,
        fc_expBoff := backoff_reset (ExponentialBackoff 0 NO_MAX_RETRY), fc_acts := [Emit (sessionEstablished 7)] \<rparr>)"
  using stanzas_after_bind_are_lost [OF token_reader_reads, where bytes = "''b1''" and jid = "''1@gcm''" and
      toks = "[''b1'' \<mapsto> bind_result ''1@gcm'' @ message_tokens ''{}'']" and cur = None and n = 9 and stanzas = "message_tokens ''{}''" and
      c = "FcmConnection 0 (to_nat (None :: xml_token option, [] :: xml_token list)) 7"]
  by (auto simp: FcmConnection_def message_tokens_def)

text \<open>C36. Every message of a packet of messages is signalled, once and in the order of the stanzas: when each
  of the texts is a document of a known type, \<^verbatim>\<open>handleReadyRead\<close> emits exactly their signals, and
  notes that the connection is draining when one of them announces it.\<close>

theorem packet_of_messages_is_signalled:
  assumes "reads_tokens X tv toks" and "tv (fc_reader c) = Some (cur, [])"
    and "toks bytes = Some (concat (map message_tokens ts))" and "length bytes \<noteq> 1" and "length ts + 1 < n"
    and "\<forall>t \<in> set ts. qt_fromJson E (c_str t) \<noteq> JNull \<and> message_signal (qt_fromJson E (c_str t)) (fc_id c) = Inr (sg t)"
  shows "\<exists>r'. handleReadyRead E n X bytes c =
     (Inr (), c \<lparr> fc_reader := r',
        fc_connectionDrainingInProgress :=
          (fc_connectionDrainingInProgress c \<or> (\<exists>i. connectionDrainingStarted i \<in> sg ` set ts)),
        fc_acts := fc_acts c @ map (\<lambda>t. Emit (sg t)) ts \<rparr>) \<and> tv r' = Some (None, [])"
proof -
  have "step tv (handleReadyRead E n X bytes) (c\<lparr>fc_reader := 0\<rparr>, cur, []) () (signalled (map sg ts) (c\<lparr>fc_reader := 0\<rparr>), None, [])"
    using assms by (intro packet_step [OF assms(1,3,4) message_stanzas [OF assms(1)]]) auto
  from step_run [OF this assms(2)] obtain r' where "handleReadyRead E n X bytes c = (Inr (), signalled (map sg ts) c \<lparr>fc_reader := r'\<rparr>)" "tv r' = Some (None, [])"
    by (auto simp: signalled_def)
  then show ?thesis by (intro exI [of _ r']) (simp add: signalled_def comp_def)
qed

theorem packet_of_messages_is_signalled_witness:
  "\<exists>r'. handleReadyRead (env0 (JObject [])) 9 (token_reader [''b1'' \<mapsto> message_tokens ''{}'' @ message_tokens ''{ }'']) ''b1''
     (FcmConnection 0 (to_nat (None :: xml_token option, [] :: xml_token list)) 7) =
     (Inr (), (FcmConnection 0 r' 7) \<lparr> fc_acts := [Emit (newMessage 7 (JObject [])), Emit (newMessage 7 (JObject []))] \<rparr>)"
proof -
  have "message_signal (JObject []) 7 = Inr (newMessage 7 (JObject []))"
    by (simp add: message_signal_def j_contains_def)
  then show ?thesis
    using packet_of_messages_is_signalled [OF token_reader_reads, where bytes = "''b1''" and
      toks = "[''b1'' \<mapsto> message_tokens ''{}'' @ message_tokens ''{ }'']" and cur = None and n = 9 and ts = "[''{}'', ''{ }'']" and
      c = "FcmConnection 0 (to_nat (None :: xml_token option, [] :: xml_token list)) 7" and E = "env0 (JObject [])" and
      sg = "\<lambda>_. newMessage 7 (JObject [])"]
    by (auto simp: FcmConnection_def env0_def)
qed

end
