(* ===== verification/Spec2Isabelle.thy ===== *)
theory Spec2Isabelle
  imports App_Resend Main_Program Tests Handshake
begin

text \<open>
  GIMMM is a server between Firebase Cloud Messaging (FCM) and business application layers (BAL).  It
  keeps one XMPP stream to FCM and one socket per BAL session, stores every message in a sqlite
  table before it confirms it, queues it in memory for its receiver and sends it under a flow
  control.  This development models the C++ program under \<^verbatim>\<open>src/\<close>, its own code, and its unit tests.

  \<^bold>\<open>The model.\<close>  A class is a record, a pointer to a message an address of a heap, a \<^verbatim>\<open>std::map\<close> a
  list sorted by key, an \<^verbatim>\<open>int64_t\<close> or \<^verbatim>\<open>int\<close> an integer whose overflow is a fault, the unsigned
  counters of a manager words of 64 bits.  A method is a function of the state monad of \<open>Prelude\<close>: it
  returns or fails, and what it changed before it failed stays changed.  A failure is a thrown
  exception, an undefined behaviour of C++, a call of \<^verbatim>\<open>exit\<close> or the end of the fuel of a loop.

  \<^bold>\<open>The theories.\<close>
  \<^item> \<open>Prelude\<close>: faults, the monad and its Hoare rules (\<open>hoare_intros\<close>).
  \<^item> \<open>Ordered_Map\<close>: \<^verbatim>\<open>std::map\<close>; the locale \<open>std_map\<close> is its contract.
  \<^item> \<open>Environment\<close>: what is outside the repository.  JSON accessors of Qt are definitions; the codecs, the
    framing of \<^verbatim>\<open>QDataStream\<close>, the random engine, uninitialised memory, the clock and the failures of
    the engine and of a socket are fields of \<open>env\<close>, an argument of what uses them.
  \<^item> \<open>Backoff\<close> (\<^verbatim>\<open>exponentialbackoff.*\<close>), \<open>Message\<close> (\<^verbatim>\<open>message.*\<close>), \<open>Manager\<close> (\<^verbatim>\<open>messagemanager.*\<close>: \<^verbatim>\<open>Group\<close>
    and \<^verbatim>\<open>MessageManager\<close>), \<open>Db\<close> (\<^verbatim>\<open>dbconnection.*\<close>), \<open>Bal_Session\<close> (\<^verbatim>\<open>balsession.*\<close>), \<open>Fcm\<close>
    (\<^verbatim>\<open>fcmconnection.*\<close>), \<open>App\<close> (\<^verbatim>\<open>application.*\<close>): one definition per method, under its name.
  \<^item> \<open>Db_Handle\<close>: how \<^verbatim>\<open>sqlite3.c\<close> keeps and closes a connection with its statements, and the destructor of \<^verbatim>\<open>DbConnection\<close>.
  \<^item> \<open>Main_Program\<close> (\<^verbatim>\<open>main.cpp\<close>): the process around the application, from the installation of the handlers
    of POSIX signals to the destructors after \<^verbatim>\<open>exec\<close>.
  \<^item> \<open>Tests\<close>: the slots of \<^verbatim>\<open>unittests/gimmmtest.cpp\<close>, statement by statement.
  \<^item> \<open>Handshake\<close>: the methods of \<open>Fcm\<close> run against a reader of whole tokens: the exchange of
    \<^verbatim>\<open>xmpp_handshake.xml\<close> and the message stanzas.
  \<^item> \<open>Ledger\<close>: the abstract specification of the stored messages, and that \<open>saveMsg\<close> and \<open>updateMsgState\<close> are steps of it.
  \<^item> \<open>App_Inv\<close>, \<open>App_Slots\<close>, \<open>App_Events\<close>: the invariant of the running program and the proof that each
    slot, timer and event keeps it.
  \<^item> \<open>App_Start\<close>: the constructor establishes the invariant or exits.
  \<^item> \<open>App_Run\<close>: the program as an event loop that can be stopped and started again.
  \<^item> \<open>App_Effects\<close>: what single slots do in a reachable state; \<open>App_Resend\<close>: what the two resend loops do.

  \<^bold>\<open>How the parts interact.\<close>  \<open>FcmConnection\<close> does not call the application: its methods return the list
  of what they do (\<open>fcm_act\<close>: XML written, signals emitted, timers started), and \<open>fcm_slot\<close> of \<open>App\<close> runs
  the slot \<^verbatim>\<open>setupFcmHandle\<close> connects to each signal, in order, inside the emission as Qt does for
  direct connections.  The signal \<^verbatim>\<open>sendMessage\<close> of the application reaches the connections listed in
  \<open>ap_sendSlots\<close>.  A manager is shared by the FCM side (\<open>ap_fcmMsgManager\<close>) or owned by a session; both hold
  addresses of \<open>ap_heap\<close>.  The database is the only thing a restart keeps.

  \<^bold>\<open>The running program.\<close>  An \<open>app_event\<close> is what Qt's event loop delivers: a connection, bytes or a
  disconnection of a socket, an event of the TLS socket of a connection to FCM, a timer, a signal of
  the operating system.  The process of \<open>Main_Program\<close> adds what the kernel does with a signal before it is such
  an event, and the end.  \<open>app_handle\<close> runs the slots connected to it.  \<open>app_reaches w a\<close>: the constructor returned in the world \<open>w\<close> and a
  sequence of events that no uncaught exception ended led to \<open>a\<close>.  \<open>life w0 w\<close>: \<open>w\<close> is the world of a
  later start, after stops between two events or by an uncaught exception, on the file
  each left.  A statement over \<open>life\<close> and \<open>app_reaches\<close> is about every state of every run.

  \<^bold>\<open>The interfaces.\<close>  \<open>std_map\<close> (interpreted in \<open>Ordered_Map\<close>), \<open>message_store\<close> (a queue with
  a limit, in \<open>Manager\<close>), \<open>durable_log\<close> (a table with fresh ids, in \<open>Db\<close>), \<open>event_loop\<close>,
  \<open>restartable_loop\<close> (an invariant that a boot establishes and events keep, across restarts) and its extension
  \<open>refined_loop\<close> (an abstraction of every reaction, across restarts), in \<open>App_Run\<close>.  Each is interpreted on the definitions of the code.

  \<^bold>\<open>The specification.\<close>  \<open>ledger_step\<close> of \<open>Ledger\<close> is what the server promises about messages: one is accepted under
  an id greater than all before, an open one may be sent, and is settled once, when it is answered, by its own FCM id
  or sequence id;
  nothing else changes and nothing is removed.  \<open>ledger\<close> reads the state of the program as a ledger, through
  its table, and \<open>answered\<close> are the settlements an event answers.

  \<^bold>\<open>What the lemmas show.\<close>  Here: the invariant of the system (C1, C2, C6 to C8), the refinement of the
  ledger and what it gives (C3 to C5), restarts, reconnections and logons (C9 to C11, C17), what each message slot
  promises (C12 to C16), the framing, the logon and the ids of a business socket (C20 to C22) and what the code leaves
  undone (C23 to C26).  In the components: what a signal comes to (C18, C19), the queue a manager refines and its send
  rule (C27, C28, C30), the unit tests (C29), what a load brings back (C31, C33), the connection to the file that is
  never closed (C32), the XMPP handshake and the stanzas of a packet (C34 to C36), the stanzas and signals of a
  connection (C37 to C39) and the delays (C40).

  \<^bold>\<open>Hypotheses.\<close>  \<open>world_ok\<close> is \<open>platform_ok\<close>, \<open>config_ok\<close> and \<open>file_ok\<close>.  \<open>platform_ok\<close>: a draw lies
  in the distribution; the uninitialised retry limit of a loaded message is no limit; a complete frame has at
  least one byte; an XML reader advances over its finite input (\<open>xml_progress\<close>).  \<open>config_ok\<close>: the configured session id is not
  \<^verbatim>\<open>fcm\<close> and has no quote and no NUL.  \<open>file_ok\<close>: the file is empty or written by the program; each start has
  it of the one before, which is proved.  The codec laws
  (\<open>json_text_ok\<close>, \<open>json_binary_ok\<close>, \<open>frames_ok\<close>) are assumed only where a round trip is stated.  \<open>env0\<close>, \<open>host0\<close> and
  \<open>world0\<close> satisfy all of them.  \<open>reads_tokens\<close>, in \<open>Handshake\<close> only: what \<^verbatim>\<open>QXmlStreamReader\<close> returns on well-formed input
  that arrives in whole tokens; \<open>token_reader\<close> satisfies it.

  \<^bold>\<open>Fuel.\<close>  The loops of \<^verbatim>\<open>handleReadyRead\<close> take a fuel above the rest of the reader's input, which
  \<open>handleReadyRead_returns\<close> proves enough; the loop of \<^verbatim>\<open>handleBALSocketReadyRead\<close> takes one more than the bytes
  in its buffer and \<open>only_benign_faults\<close> includes that it never runs out.

  \<^bold>\<open>Not modelled.\<close>  The sqlite amalgamation beyond \<open>Db_Handle\<close> (vendored; statements act on the table as their SQL says, and
  any call may fail by \<open>sq_fails\<close>), Qt, the kernel beyond the delivery of a signal, \<^verbatim>\<open>printProperties\<close> and \<^verbatim>\<open>getPeerDetail\<close> and the
  other output on the terminal, the reference counts of payloads, and the text of error messages.  A crash in the
  middle of a slot that is not an exception is not a step of \<open>life\<close>.
\<close>

section \<open>The running program\<close>

text \<open>C1. Flow control: whatever happens, crashes and restarts included, the count that decides whether a message
  may be sent, of a session or of the FCM side, is at most 100 and never wraps around.\<close>

theorem flow_control:
  assumes "world_ok w0" and "life w0 w" and "app_reaches w a" and "sid \<in> sessions w"
  shows "unat (mm_pendingAckCount (mgr_of sid a)) \<le> 100"
  using sys_mgr [OF assms] by (simp add: mgr_ok_def)

theorem flow_control_witness:
  "\<exists>a. app_runs (world0 JNull) [AFcmEncrypted 1] = Some a \<and> unat (mm_pendingAckCount (mgr_of ''fcm'' a)) \<le> 100"
proof -
  have "app_runs (world0 JNull) [AFcmEncrypted 1] \<noteq> None" by code_simp
  then obtain a where a: "app_runs (world0 JNull) [AFcmEncrypted 1] = Some a" by blast
  with flow_control [OF world0_ok life.first app_runs_reach [OF a], of "''fcm''"] show ?thesis by (simp add: sessions_def)
qed

text \<open>C2. No queued message is only in memory: in every state of every life, a queued message has a row in the
  file that a restart would load into the same queue, with the FCM id of the message.\<close>

theorem queued_messages_are_on_disk:
  assumes "world_ok w0" and "life w0 w" and "app_reaches w a" and "sid \<in> sessions w"
    and "om_find (mm_messages (mgr_of sid a)) k = Some p"
  shows "\<exists>r. om_find (db_rows (ap_dbConn a)) k = Some r \<and> r_state r \<in> {1, 2} \<and> r_target_session r = sid \<and>
    names_fcm (msg_fcmMessageId (ap_heap a p)) (r_fcm_message_id r)"
  using sys_mgr [OF assms(1-4)] om_find_in_set [OF assms(5)] by (auto simp: mgr_ok_def pending_row_def)

theorem queued_messages_are_on_disk_witness:
  "\<exists>a p r. app_runs (world0 JNull) [] = Some a \<and> om_find (mm_messages (mgr_of ''fcm'' a)) 7 = Some p \<and>
     om_find (db_rows (ap_dbConn a)) 7 = Some r \<and> r_state r \<in> {1, 2}"
proof -
  have "case app_runs (world0 JNull) [] of None \<Rightarrow> False | Some a \<Rightarrow> om_find (mm_messages (mgr_of ''fcm'' a)) 7 = Some 0" by code_simp
  then obtain a where a: "app_runs (world0 JNull) [] = Some a" "om_find (mm_messages (mgr_of ''fcm'' a)) 7 = Some 0"
    by (auto split: option.splits)
  from queued_messages_are_on_disk [OF world0_ok life.first app_runs_reach [OF a(1)] _ a(2)] a show ?thesis
    by (auto simp: sessions_def)
qed

text \<open>C3. The program implements the ledger of messages: from the file it was first started on, through every
  restart and crash, its table is a state the specification can reach, and every reaction, even one that
  an exception ends, is a sequence of acceptances under increasing ids, sendings of open messages and
  single settlements that the event answers.  Nothing is claimed of a reaction that C++ leaves undefined (C7).\<close>

theorem program_refines_ledger:
  assumes "world_ok w0" and "life w0 w" and "app_reaches w a"
  shows "evolves UNIV (ledger_of (db_rows (wo_file w0))) (ledger a) \<and>
    (\<forall>ev r a'. app_reacts w ev a = (r, a') \<and> (r = Inr () \<or> (\<exists>e. r = Inl (Throw e))) \<longrightarrow>
      evolves (answered w ev a) (ledger a) (ledger a'))"
  using spec.run_refines [OF assms] life_react_evolves [OF assms] by blast

theorem program_refines_ledger_witness:
  "\<exists>a a'. app_runs (world_with logon_doc 7 msg_up) logon_events = Some a \<and>
     app_reacts (world_with logon_doc 7 msg_up) (ATimer 1) a = (Inr (), a') \<and> evolves {} (ledger a) (ledger a') \<and>
     map_option en_phase (ledger a 7) = Some Waiting \<and> map_option en_phase (ledger a' 7) = Some InFlight"
proof -
  let ?w = "world_with logon_doc 7 msg_up"
  have "(case app_runs ?w logon_events of None \<Rightarrow> False
      | Some a \<Rightarrow> map_option en_phase (ledger a 7) = Some Waiting \<and> (case app_reacts ?w (ATimer 1) a of (Inl _, _) \<Rightarrow> False
          | (Inr _, a') \<Rightarrow> map_option en_phase (ledger a' 7) = Some InFlight))" by code_simp
  then obtain a a' where a: "app_runs ?w logon_events = Some a" "app_reacts ?w (ATimer 1) a = (Inr (), a')"
    "map_option en_phase (ledger a 7) = Some Waiting" "map_option en_phase (ledger a' 7) = Some InFlight"
    by (auto split: option.splits prod.splits sum.splits)
  have ok: "world_ok ?w" by (rule world_with_ok) (simp_all add: int_lims)
  have "answered ?w (ATimer 1) a = {}" by (simp add: answered_def)
  with program_refines_ledger [OF ok life.first app_runs_reach [OF a(1)]] a show ?thesis by metis
qed

text \<open>C4. No message is ever lost or altered: a row of the file the program was started on is there in every later
  state, with its sessions, type, ids and payload, a settled one with its state; and what was accepted
  since has greater ids.\<close>

theorem stored_messages_are_kept:
  assumes "world_ok w0" and "life w0 w" and "app_reaches w a" and "om_find (db_rows (wo_file w0)) k = Some r"
  shows "\<exists>r'. om_find (db_rows (ap_dbConn a)) k = Some r' \<and>
    r_source_session r' = r_source_session r \<and> r_target_session r' = r_target_session r \<and> r_type r' = r_type r \<and>
    r_fcm_message_id r' = r_fcm_message_id r \<and> r_group_id r' = r_group_id r \<and> r_payload r' = r_payload r \<and>
    (r_state r \<notin> {1, 2} \<longrightarrow> r_state r' = r_state r) \<and>
    (\<forall>j. om_find (db_rows (ap_dbConn a)) j \<noteq> None \<and> om_find (db_rows (wo_file w0)) j = None \<longrightarrow> k < j)"
proof -
  note ev = spec.run_refines [OF assms(1-3)]
  have "ledger_of (db_rows (wo_file w0)) k = Some (entry_of r)" using assms(4) by (simp add: ledger_of_def)
  from evolves_continues [OF ev this] obtain r' where r': "om_find (db_rows (ap_dbConn a)) k = Some r'" "continues (entry_of r) (entry_of r')"
    by (auto simp: ledger_def ledger_of_def)
  have "k < j" if "om_find (db_rows (ap_dbConn a)) j \<noteq> None" "om_find (db_rows (wo_file w0)) j = None" for j
    using evolves_new [OF ev, of j k] that assms(4) by (simp add: ledger_def ledger_of_def)
  with r'(1) continues_rows [OF r'(2)] show ?thesis by blast
qed

theorem stored_messages_are_kept_witness:
  "\<exists>a r r'. app_runs (world0 JNull) [AFcmEncrypted 1] = Some a \<and> om_find (db_rows db1) 7 = Some r \<and>
     om_find (db_rows (ap_dbConn a)) 7 = Some r' \<and> r_payload r' = r_payload r"
proof -
  have "app_runs (world0 JNull) [AFcmEncrypted 1] \<noteq> None" "om_find (db_rows (wo_file (world0 JNull))) 7 \<noteq> None" by code_simp+
  then obtain a r where a: "app_runs (world0 JNull) [AFcmEncrypted 1] = Some a" "om_find (db_rows (wo_file (world0 JNull))) 7 = Some r" by blast
  have "wo_file (world0 JNull) = db1" by (simp add: world0_def)
  with stored_messages_are_kept [OF world0_ok life.first app_runs_reach [OF a(1)] a(2)] a show ?thesis by metis
qed

text \<open>C5. No message is settled unanswered, or by an answer for another.  A reaction settles an open row for FCM
  only when its packet made a connection signal an acknowledgement, or a rejection for good, that names the
  FCM id of the row, and the row becomes DELIVERED or DELIVERY_FAILED accordingly.  It settles a row for a
  session only, as DELIVERED, when a document that is complete in the buffer of a business socket
  acknowledges its sequence id.  Nothing else settles a message, as long as C++ defines what the reaction
  does: the retry of a message that was loaded from the file, after a temporary rejection, reads an
  uninitialised limit (C14), and is no such reaction.\<close>

theorem settled_only_when_answered:
  assumes "world_ok w0" and "life w0 w" and "app_reaches w a"
    and "app_reacts w ev a = (r, a')" and "r = Inr () \<or> (\<exists>e. r = Inl (Throw e))"
    and "om_find (db_rows (ap_dbConn a)) k = Some x" and "r_state x \<in> {1, 2}"
    and "om_find (db_rows (ap_dbConn a')) k = Some x'" and "r_state x' \<notin> {1, 2}"
  shows "if r_target_session x = ''fcm''
    then r_state x' = MessageState_code DELIVERED \<and> acked_by_fcm w ev a (r_fcm_message_id x) \<or>
      r_state x' = MessageState_code DELIVERY_FAILED \<and> nacked_by_fcm w ev a (r_fcm_message_id x)
    else r_state x' = MessageState_code DELIVERED \<and> acked_by_bal w ev a k"
  using life_react_settles [OF assms] answered_cases by (metis (no_types, lifting))

definition ack_doc :: json where
  "ack_doc = JObject [(''message_type'', JString ''ack''), (''message_id'', JString ''m'')]"

theorem settled_only_when_answered_witness:
  "\<exists>a a' x x' j. app_runs (world_with ack_doc 7 msg_down) [AFcmEncrypted 1] = Some a \<and>
     app_reacts (world_with ack_doc 7 msg_down) (AFcmReadyRead 1 ''<message>'') a = (Inr (), a') \<and>
     om_find (db_rows (ap_dbConn a)) 7 = Some x \<and> r_state x = 1 \<and>
     om_find (db_rows (ap_dbConn a')) 7 = Some x' \<and> r_state x' = 3 \<and>
     (\<exists>i'. newAckMessage i' j \<in> fcm_signals 1 (fcm_readyRead (env0 ack_doc) (\<lambda>_. 8) xml0 ''<message>'') a) \<and>
     names_fcm (j_string (doc_object j) F_MESSAGE_ID) (r_fcm_message_id x)"
proof -
  let ?w = "world_with ack_doc 7 msg_down" and ?ev = "AFcmReadyRead 1 ''<message>''"
  have "(case app_runs ?w [AFcmEncrypted 1] of None \<Rightarrow> False
      | Some a \<Rightarrow> map_option (\<lambda>x. (r_state x, r_target_session x)) (om_find (db_rows (ap_dbConn a)) 7) = Some (1, ''fcm'') \<and>
          (case app_reacts ?w ?ev a of (Inl _, _) \<Rightarrow> False
          | (Inr _, a') \<Rightarrow> map_option r_state (om_find (db_rows (ap_dbConn a')) 7) = Some 3))" by code_simp
  then obtain a a' x x' where a: "app_runs ?w [AFcmEncrypted 1] = Some a" "app_reacts ?w ?ev a = (Inr (), a')"
    "om_find (db_rows (ap_dbConn a)) 7 = Some x" "r_state x = 1" "om_find (db_rows (ap_dbConn a')) 7 = Some x'" "r_state x' = 3"
    "r_target_session x = ''fcm''"
    by (auto split: option.splits prod.splits sum.splits)
  have ok: "world_ok ?w" by (rule world_with_ok) (simp_all add: int_lims)
  have w: "wo_env ?w = env0 ack_doc" "wo_fuel ?w = (\<lambda>_. 8)" "wo_xml ?w = xml0" by (simp_all add: world_with_def world0_def)
  have "r_state x \<in> {1, 2}" "r_state x' \<notin> {1, 2}" using a(4,6) by simp_all
  from settled_only_when_answered [OF ok life.first app_runs_reach [OF a(1)] a(2) _ a(3) this(1) a(5) this(2)] a(6,7)
  obtain i' j where "newAckMessage i' j \<in> fcm_signals 1 (fcm_readyRead (env0 ack_doc) (\<lambda>_. 8) xml0 ''<message>'') a"
    "names_fcm (j_string (doc_object j) F_MESSAGE_ID) (r_fcm_message_id x)"
    unfolding acked_by_fcm_def w by auto
  with a show ?thesis by blast
qed

text \<open>C6. The queues are well formed in every state: the manager's maps agree with each other, and a queued
  message lies in allocated memory under its own sequence id, is new or unacknowledged, is
  addressed to the queue's session and has a payload.\<close>

theorem queues_are_well_formed:
  assumes "world_ok w0" and "life w0 w" and "app_reaches w a" and "sid \<in> sessions w"
  shows "mm_ok (ap_heap a) (mgr_of sid a) \<and> mm_sessionId (mgr_of sid a) = sid \<and>
    (\<forall>(k, p)\<in>set (mm_messages (mgr_of sid a)). p < ap_next a \<and> msg_sequenceId (ap_heap a p) = k \<and>
       msg_state (ap_heap a p) \<in> {NEW, PENDING_ACK} \<and> msg_targetSessionId (ap_heap a p) = sid \<and>
       msg_payload (ap_heap a p) \<noteq> None)"
proof -
  obtain G q where q: "app_ok G {} 0 {the_client (wo_host w)} q a" using sys_invE [OF assms(1-3)] .
  have sid: "sid \<in> insert ''fcm'' {the_client (wo_host w)}" using assms(4) by (simp add: sessions_def)
  have "msg_payload (ap_heap a p) \<noteq> None" if "p < ap_next a" for p
    using core_okD(8) [OF app_ok_core [OF q] that] by (simp add: msg_good_def)
  with app_ok_mgr [OF q sid] show ?thesis by (auto simp: mgr_ok_def)
qed

theorem queues_are_well_formed_witness:
  "\<exists>a. app_runs (world0 JNull) [] = Some a \<and> mm_ok (ap_heap a) (mgr_of ''fcm'' a)"
proof -
  have "app_runs (world0 JNull) [] \<noteq> None" by code_simp
  then obtain a where a: "app_runs (world0 JNull) [] = Some a" by blast
  with queues_are_well_formed [OF world0_ok life.first app_runs_reach [OF a], of "''fcm''"] show ?thesis by (simp add: sessions_def)
qed



text \<open>C8. The program always has an FCM connection, exactly one, the newest, is attached to the signal
  \<^verbatim>\<open>sendMessage\<close>, and sending a document writes its stanza once, there.\<close>

theorem one_fcm_connection_sends:
  assumes "world_ok w0" and "life w0 w" and "app_reaches w a"
  shows "ap_fcmConnectionsMap a \<noteq> [] \<and> ap_sendSlots a = [newest a] \<and> (\<forall>i\<in>fst ` set (ap_fcmConnectionsMap a). i \<le> newest a) \<and>
    (\<exists>a'. sendMessage (wo_env w) j a = (Inr (), a') \<and>
       ap_log a' = ap_log a @ map (Pair (newest a)) (message_stanza (wo_env w) j))"
proof -
  obtain G q where q: "app_ok G {} 0 {the_client (wo_host w)} q a" using sys_invE [OF assms] .
  have "ap_fcmConnectionsMap a \<noteq> []" "om_wf (ap_fcmConnectionsMap a)" using q by (simp_all add: app_ok_def slots_ok_def)
  moreover from this have "\<forall>i\<in>fst ` set (ap_fcmConnectionsMap a). i \<le> newest a"
    using om_last_greatest unfolding newest_def by blast
  ultimately show ?thesis
    using newest_slot(1) [OF q] sendMessage_run [OF q, of "wo_env w" j] by auto
qed

theorem one_fcm_connection_sends_witness:
  "\<exists>a. app_runs (world0 JNull) [] = Some a \<and> ap_sendSlots a = [newest a]"
proof -
  have "app_runs (world0 JNull) [] \<noteq> None" by code_simp
  then obtain a where a: "app_runs (world0 JNull) [] = Some a" by blast
  with one_fcm_connection_sends [OF world0_ok life.first app_runs_reach [OF a], of JNull] show ?thesis by blast
qed

text \<open>C9. Crash recovery: stop the program in any state and start it again on its file with the same
  configuration.  If it starts and the engine answers, the queue of every session is exactly the
  undelivered rows of that session, and every message that was queued before is queued again.\<close>

theorem restart_resumes_queues:
  assumes "world_ok w0" and "life w0 w" and "app_reaches w a" and "app_boots (crashed h a w) a'"
    and "\<forall>n. \<not> sq_fails (wo_env w) n" and "sid \<in> sessions w"
  shows "fst ` set (mm_messages (mgr_of sid a')) = fst ` set (pending_rows sid (db_rows (ap_dbConn a))) \<and>
    fst ` set (mm_messages (mgr_of sid a)) \<subseteq> fst ` set (mm_messages (mgr_of sid a'))"
proof -
  have ok: "world_ok (crashed h a w)" using gimmm.life_ok [OF assms(1) life.crash [OF assms(2,3)]] .
  have res: "resumed (db_rows (ap_dbConn a)) sid a'"
    using start_cases [of "wo_host w" "ap_dbConn a" "wo_env w" h "Inr ()" a'] ok assms(4-6)
    by (auto simp: world_ok_def platform_ok_def app_boots_def crashed_def sessions_def)
  have "fst ` set (mm_messages (mgr_of sid a)) \<subseteq> fst ` set (pending_rows sid (db_rows (ap_dbConn a)))"
  proof
    fix k
    assume "k \<in> fst ` set (mm_messages (mgr_of sid a))"
    then obtain p where "(k, p) \<in> set (mm_messages (mgr_of sid a))" by auto
    then have "pending_row (db_rows (ap_dbConn a)) sid k (msg_fcmMessageId (ap_heap a p))"
      using sys_mgr [OF assms(1-3,6)] by (simp add: mgr_ok_def)
    then show "k \<in> fst ` set (pending_rows sid (db_rows (ap_dbConn a)))"
      using om_find_in_set by (force simp: pending_row_def pending_rows_def)
  qed
  with res show ?thesis by (simp add: resumed_def)
qed

theorem restart_resumes_queues_witness:
  "\<exists>a a'. app_runs (world0 JNull) [] = Some a \<and> app_boots (crashed heap0 a (world0 JNull)) a' \<and>
     fst ` set (mm_messages (mgr_of ''fcm'' a)) \<subseteq> fst ` set (mm_messages (mgr_of ''fcm'' a'))"
proof -
  have "case app_runs (world0 JNull) [] of None \<Rightarrow> False
      | Some a \<Rightarrow> app_runs (crashed heap0 a (world0 JNull)) [] \<noteq> None" by code_simp
  then obtain a a' where a: "app_runs (world0 JNull) [] = Some a" "app_runs (crashed heap0 a (world0 JNull)) [] = Some a'"
    by (auto split: option.splits)
  then have b: "app_boots (crashed heap0 a (world0 JNull)) a'"
    by (auto simp: app_boots_def app_runs_def split: prod.splits sum.splits)
  have e: "\<forall>n. \<not> sq_fails (wo_env (world0 JNull)) n" by (simp add: world0_def)
  from restart_resumes_queues [OF world0_ok life.first app_runs_reach [OF a(1)] b e, of "''fcm''"] a b show ?thesis
    by (auto simp: sessions_def)
qed

text \<open>C17. The start: on a file the program wrote and a usable configuration, the constructor exits or
  returns with the invariant established, leaving the rows as they were.  It neither throws nor is
  undefined.\<close>

theorem start_exits_or_runs:
  assumes "world_ok w"
  shows "case Application (wo_env w) (wo_host w) (app_members (wo_memory w) (wo_file w)) of
     (Inl f, a) \<Rightarrow> f = Exit
   | (Inr _, a) \<Rightarrow> sys_inv w a \<and> db_rows (ap_dbConn a) = db_rows (wo_file w)"
proof -
  obtain r a where r: "Application (wo_env w) (wo_host w) (app_members (wo_memory w) (wo_file w)) = (r, a)" by fastforce
  have "r = Inl Exit \<or> (r = Inr () \<and> db_rows (ap_dbConn a) = db_rows (wo_file w))"
    using start_cases [OF _ _ r] assms by (auto simp: world_ok_def platform_ok_def)
  moreover have "sys_inv w a" if "r = Inr ()" using gimmm.boot_law [OF assms, of a] r that by (simp add: app_boots_def)
  ultimately show ?thesis using r by auto
qed

theorem start_exits_or_runs_witness:
  "case Application (env0 JNull) host0 (app_members heap0 db1) of (Inl f, a) \<Rightarrow> f = Exit
   | (Inr _, a) \<Rightarrow> sys_inv (world0 JNull) a \<and> db_rows (ap_dbConn a) = db_rows db1"
proof -
  have "wo_env (world0 JNull) = env0 JNull" "wo_host (world0 JNull) = host0" "wo_memory (world0 JNull) = heap0" "wo_file (world0 JNull) = db1"
    by (simp_all add: world0_def)
  from start_exits_or_runs [OF world0_ok, of JNull, unfolded this] show ?thesis .
qed

section \<open>The slots for FCM\<close>

text \<open>C12. FCM never gets an acknowledgement for an upstream message that is not on disk: after the slot ran,
  either nothing was written to FCM and the table is as it was, or exactly the acknowledgement was
  written, on the newest connection, and the message is an undelivered row under a fresh id.\<close>

theorem upstream_acked_only_when_saved:
  assumes "world_ok w0" and "life w0 w" and "app_reaches w a" and "handleFcmNewUpstreamMessage (wo_env w) i j a = (r, a')"
  shows "(ap_log a' = ap_log a \<and> db_rows (ap_dbConn a') = db_rows (ap_dbConn a)) \<or>
    (ap_log a' = ap_log a @ map (Pair (newest a)) (message_stanza (wo_env w) (fcm_ack j)) \<and>
     (\<exists>row. om_find (db_rows (ap_dbConn a')) (db_sequenceId (ap_dbConn a) + 1) = Some row \<and>
        upstream_row (wo_env w) j (db_sequenceId (ap_dbConn a) + 1) row))"
proof -
  obtain G q where q: "app_ok G {} 0 {the_client (wo_host w)} q a" using sys_invE [OF assms(1-3)] .
  from upstream_outcome [OF q, of "wo_env w" i j] assms(4) show ?thesis by (simp add: has_row_def)
qed

theorem upstream_acked_only_when_saved_witness:
  "\<exists>a. app_runs (world0 JNull) [] = Some a \<and>
     (let a' = snd (handleFcmNewUpstreamMessage (env0 JNull) 1 (doc1 ''message_id'' ''u'') a) in
        (ap_log a' = ap_log a \<and> db_rows (ap_dbConn a') = db_rows (ap_dbConn a)) \<or>
        ap_log a' = ap_log a @ map (Pair (newest a)) (message_stanza (env0 JNull) (fcm_ack (doc1 ''message_id'' ''u''))))"
proof -
  have e: "wo_env (world0 JNull) = env0 JNull" by (simp add: world0_def)
  have "app_runs (world0 JNull) [] \<noteq> None" by code_simp
  then obtain a where a: "app_runs (world0 JNull) [] = Some a" by blast
  from upstream_acked_only_when_saved [OF world0_ok life.first app_runs_reach [OF a], unfolded e, OF surjective_pairing] a
  show ?thesis unfolding Let_def by blast
qed

text \<open>C13. An acknowledgement of FCM settles its message: the row becomes DELIVERED and the message leaves the
  queue for good, whatever the notice to the business application runs into.  When the engine
  refuses the change, queue and table stay as they are.\<close>

theorem fcm_ack_settles_message:
  assumes "world_ok w0" and "life w0 w" and "app_reaches w a"
    and "findMessageWithFcmMsgId (ap_fcmMsgManager a) (j_string (doc_object j) F_MESSAGE_ID) = Inr p"
    and "handleFcmAckMessage (wo_env w) i j a = (r, a')"
  shows "if sq_fails (wo_env w) (db_steps (ap_dbConn a))
    then ap_fcmMsgManager a' = ap_fcmMsgManager a \<and> db_rows (ap_dbConn a') = db_rows (ap_dbConn a)
    else om_find (mm_messages (ap_fcmMsgManager a')) (msg_sequenceId (ap_heap a p)) = None \<and>
      (\<exists>row. om_find (db_rows (ap_dbConn a')) (msg_sequenceId (ap_heap a p)) = Some row \<and> r_state row = MessageState_code DELIVERED)"
proof -
  obtain G q where q: "app_ok G {} 0 {the_client (wo_host w)} q a" using sys_invE [OF assms(1-3)] .
  from ack_settles [OF q assms(4), of "wo_env w" i] assms(5) show ?thesis by (auto simp: settled_def mgr_of_def)
qed

theorem fcm_ack_settles_message_witness:
  "\<exists>a. app_runs (world0 JNull) [] = Some a \<and>
     om_find (mm_messages (ap_fcmMsgManager (snd (handleFcmAckMessage (env0 JNull) 1 (doc1 ''message_id'' ''m'') a)))) (msg_sequenceId (ap_heap a 0)) = None"
proof -
  have e: "wo_env (world0 JNull) = env0 JNull" by (simp add: world0_def)
  have "(case app_runs (world0 JNull) [] of None \<Rightarrow> False
      | Some a \<Rightarrow> findMessageWithFcmMsgId (ap_fcmMsgManager a) (j_string (doc_object (doc1 ''message_id'' ''m'')) F_MESSAGE_ID) = Inr 0)"
    by code_simp
  then obtain a where a: "app_runs (world0 JNull) [] = Some a"
    "findMessageWithFcmMsgId (ap_fcmMsgManager a) (j_string (doc_object (doc1 ''message_id'' ''m'')) F_MESSAGE_ID) = Inr 0"
    by (cases "app_runs (world0 JNull) []") simp_all
  from fcm_ack_settles_message [OF world0_ok life.first app_runs_reach [OF a(1)] a(2), unfolded e, OF surjective_pairing] a(1)
  show ?thesis by simp
qed



text \<open>C23. An upstream message whose category names no session is lost although FCM is told it was taken:
  the slot saves its row and acknowledges it before it looks the session up.  The lookup throws, the
  slot swallows the exception and returns normally; the row stays NEW, no queue and no socket has seen
  the message, and it is among the pending rows of no session but the one it names, so the load of a
  restart brings it back only if that session is then the configured one.\<close>

theorem unroutable_upstream_is_stranded:
  assumes "world_ok w0" and "life w0 w" and "app_reaches w a"
    and "om_find (ap_balSessionMap a) (j_string (doc_object j) F_CATEGORY) = None"
    and "db_sequenceId (ap_dbConn a) < int64_max" and "\<not> sq_fails (wo_env w) (db_steps (ap_dbConn a))"
    and "handleFcmNewUpstreamMessage (wo_env w) i j a = (r, a')"
  shows "r = Inr () \<and> ap_log a' = ap_log a @ map (Pair (newest a)) (message_stanza (wo_env w) (fcm_ack j)) \<and>
    (\<exists>row. om_find (db_rows (ap_dbConn a')) (db_sequenceId (ap_dbConn a) + 1) = Some row \<and>
       r_state row = MessageState_code NEW \<and> r_target_session row = c_str (j_string (doc_object j) F_CATEGORY)) \<and>
    ap_fcmMsgManager a' = ap_fcmMsgManager a \<and> ap_balSessionMap a' = ap_balSessionMap a \<and> ap_wire a' = ap_wire a \<and>
    (\<forall>sid. sid \<noteq> c_str (j_string (doc_object j) F_CATEGORY) \<longrightarrow>
       db_sequenceId (ap_dbConn a) + 1 \<notin> fst ` set (pending_rows sid (db_rows (ap_dbConn a'))))"
proof -
  obtain G q where q: "app_ok G {} 0 {the_client (wo_host w)} q a" using sys_invE [OF assms(1-3)] .
  note stranded = upstream_stranded [OF q assms(4-7)]
  from stranded(3) obtain row where "om_find (db_rows (ap_dbConn a')) (db_sequenceId (ap_dbConn a) + 1) = Some row"
    "upstream_row (wo_env w) j (db_sequenceId (ap_dbConn a) + 1) row" "r_state row = MessageState_code NEW" by blast
  moreover have "\<forall>sid. sid \<noteq> c_str (j_string (doc_object j) F_CATEGORY) \<longrightarrow>
      db_sequenceId (ap_dbConn a) + 1 \<notin> fst ` set (pending_rows sid (db_rows (ap_dbConn a')))"
    using stranded(7) by blast
  ultimately show ?thesis using stranded(1,2,4-6) by (auto simp: upstream_row_def)
qed

theorem unroutable_upstream_is_stranded_witness:
  "\<exists>a. app_runs (world0 JNull) [] = Some a \<and>
     ap_log (snd (handleFcmNewUpstreamMessage (env0 JNull) 1 (doc1 ''category'' ''nobody'') a)) =
       ap_log a @ map (Pair (newest a)) (message_stanza (env0 JNull) (fcm_ack (doc1 ''category'' ''nobody'')))"
proof -
  have e: "wo_env (world0 JNull) = env0 JNull" by (simp add: world0_def)
  have "(case app_runs (world0 JNull) [] of None \<Rightarrow> False
      | Some a \<Rightarrow> om_find (ap_balSessionMap a) (j_string (doc_object (doc1 ''category'' ''nobody'')) F_CATEGORY) = None \<and>
          db_sequenceId (ap_dbConn a) < int64_max \<and> \<not> sq_fails (env0 JNull) (db_steps (ap_dbConn a)))"
    by code_simp
  then obtain a where a: "app_runs (world0 JNull) [] = Some a"
    "om_find (ap_balSessionMap a) (j_string (doc_object (doc1 ''category'' ''nobody'')) F_CATEGORY) = None"
    "db_sequenceId (ap_dbConn a) < int64_max" "\<not> sq_fails (env0 JNull) (db_steps (ap_dbConn a))"
    by (cases "app_runs (world0 JNull) []") simp_all
  from unroutable_upstream_is_stranded [OF world0_ok life.first app_runs_reach [OF a(1)] a(2,3), unfolded e, OF a(4) surjective_pairing] a(1)
  show ?thesis by simp
qed

text \<open>C24. When a slot makes room it sends the next message but does not mark it: the message, its row and the
  count stay as they were, so the next call sends the same message again.\<close>

theorem next_pending_is_sent_again:
  assumes "world_ok w0" and "life w0 w" and "app_reaches w a"
    and "getNext (ap_heap a) (ap_fcmMsgManager a) = Inr (Some p)" and "msg_payload (ap_heap a p) = Some j"
  shows "\<exists>a1 a2. sendNextPendingDownstreamMessage (wo_env w) a = (Inr (), a1) \<and>
    getNext (ap_heap a1) (ap_fcmMsgManager a1) = Inr (Some p) \<and> ap_dbConn a1 = ap_dbConn a \<and>
    sendNextPendingDownstreamMessage (wo_env w) a1 = (Inr (), a2) \<and>
    ap_log a2 = ap_log a @ map (Pair (newest a)) (message_stanza (wo_env w) j) @ map (Pair (newest a)) (message_stanza (wo_env w) j)"
proof -
  obtain G q where q: "app_ok G {} 0 {the_client (wo_host w)} q a" using sys_invE [OF assms(1-3)] .
  from sendNext_run [OF q assms(4,5), of "wo_env w"] obtain c where
    c: "sendNextPendingDownstreamMessage (wo_env w) a = (Inr (), a \<lparr> ap_fcmConnectionsMap := c, ap_log := ap_log a @ map (Pair (newest a)) (message_stanza (wo_env w) j) \<rparr>)"
      "app_ok G {} 0 {the_client (wo_host w)} q (a \<lparr> ap_fcmConnectionsMap := c, ap_log := ap_log a @ map (Pair (newest a)) (message_stanza (wo_env w) j) \<rparr>)"
      "fst (last c) = newest a" by blast
  from sendNext_run [OF c(2), of p j "wo_env w"] assms(4,5) c(1,3) show ?thesis by (auto simp: newest_def)
qed

theorem next_pending_is_sent_again_witness:
  "\<exists>a a1. app_runs (world_with JNull 7 msg_down) [] = Some a \<and> sendNextPendingDownstreamMessage (env0 JNull) a = (Inr (), a1) \<and>
     getNext (ap_heap a1) (ap_fcmMsgManager a1) = Inr (Some 0)"
proof -
  let ?w = "world_with JNull 7 msg_down"
  have e: "wo_env ?w = env0 JNull" by (simp add: world_with_def world0_def)
  have "(case app_runs ?w [] of None \<Rightarrow> False
      | Some a \<Rightarrow> getNext (ap_heap a) (ap_fcmMsgManager a) = Inr (Some 0) \<and> msg_payload (ap_heap a 0) = Some JNull)" by code_simp
  then obtain a where a: "app_runs ?w [] = Some a" "getNext (ap_heap a) (ap_fcmMsgManager a) = Inr (Some 0)" "msg_payload (ap_heap a 0) = Some JNull"
    by (cases "app_runs ?w []") simp_all
  have "world_ok ?w" by (rule world_with_ok) (simp_all add: int_lims)
  from next_pending_is_sent_again [OF this life.first app_runs_reach [OF a(1)] a(2,3), unfolded e] a(1) show ?thesis by blast
qed

section \<open>The slots for the business applications\<close>

text \<open>C16. What an upload request does while the engine answers, whoever sends it: the message is on disk, in the
  queue of FCM and, when fewer than 100 messages are unacknowledged and none of its group is queued,
  written to FCM once and marked in the table, in memory and in the count; otherwise it waits as new.
  The session id is not checked: a connection that never logged on uploads under the empty id.\<close>

theorem upload_request_outcome:
  assumes "world_ok w0" and "life w0 w" and "app_reaches w a" and "db_sequenceId (ap_dbConn a) < int64_max"
    and "\<forall>n. \<not> sq_fails (wo_env w) n"
  shows "let s = db_sequenceId (ap_dbConn a) + 1; p = ap_next a; data = j_object (doc_object j) G_FCM_DATA;
       go = upload_at_once (j_string (doc_object j) G_GROUP_ID) a in
     \<exists>a' row. handleBalDownstreamUploadRequest (wo_env w) sid j a = (Inr (), a') \<and>
       mm_messages (ap_fcmMsgManager a') = om_emplace s p (mm_messages (ap_fcmMsgManager a)) \<and>
       om_find (db_rows (ap_dbConn a')) s = Some row \<and> r_source_session row = c_str sid \<and> r_target_session row = ''fcm'' \<and>
       r_type row = MessageType_code DOWNSTREAM \<and> r_payload row = c_str (qt_toJson (wo_env w) (JObject data)) \<and>
       r_state row = MessageState_code (if go then PENDING_ACK else NEW) \<and>
       msg_state (ap_heap a' p) = (if go then PENDING_ACK else NEW) \<and>
       mm_pendingAckCount (ap_fcmMsgManager a') = mm_pendingAckCount (ap_fcmMsgManager a) + (if go then 1 else 0) \<and>
       ap_log a' = ap_log a @ (if go then map (Pair (newest a)) (message_stanza (wo_env w) (JObject data)) else [])"
proof -
  obtain G q where q: "app_ok G {} 0 {the_client (wo_host w)} q a" using sys_invE [OF assms(1-3)] .
  have up: "\<not> sq_fails (wo_env w) n" for n using assms(5) by blast
  have code: "MessageState_code (if go then PENDING_ACK else NEW) = (if go then 2 else 1)" for go by simp
  from upload_outcome [OF q assms(4) up, of sid j] show ?thesis unfolding Let_def code by simp
qed

theorem upload_request_outcome_witness:
  "\<exists>a a'. app_runs (world0 JNull) [] = Some a \<and> handleBalDownstreamUploadRequest (env0 JNull) [] JNull a = (Inr (), a') \<and>
     mm_messages (ap_fcmMsgManager a') = om_emplace (db_sequenceId (ap_dbConn a) + 1) (ap_next a) (mm_messages (ap_fcmMsgManager a))"
proof -
  have e: "wo_env (world0 JNull) = env0 JNull" by (simp add: world0_def)
  have "(case app_runs (world0 JNull) [] of None \<Rightarrow> False | Some a \<Rightarrow> db_sequenceId (ap_dbConn a) = 7)" by code_simp
  then obtain a where a: "app_runs (world0 JNull) [] = Some a" "db_sequenceId (ap_dbConn a) = 7"
    by (cases "app_runs (world0 JNull) []") simp_all
  have lt: "db_sequenceId (ap_dbConn a) < int64_max" using a(2) by (simp add: int_lims)
  have up: "\<forall>n. \<not> sq_fails (wo_env (world0 JNull)) n" by (simp add: world0_def)
  from upload_request_outcome [OF world0_ok life.first app_runs_reach [OF a(1)] lt up, unfolded e Let_def, of "[]" JNull] a(1)
  show ?thesis by blast
qed

text \<open>C15. An acknowledgement of a business application settles its message: the row becomes DELIVERED and the
  message leaves the session's queue; a refused change leaves queue and table as they are.\<close>

theorem bal_ack_settles_message:
  assumes "world_ok w0" and "life w0 w" and "app_reaches w a" and "sid = the_client (wo_host w)"
    and "findMessage (bs_msgManager (the_session sid a)) k = Inr p" and "handleBalAckMsg (wo_env w) sid k a = (r, a')"
  shows "if sq_fails (wo_env w) (db_steps (ap_dbConn a))
    then ap_balSessionMap a' = ap_balSessionMap a \<and> db_rows (ap_dbConn a') = db_rows (ap_dbConn a)
    else om_find (mm_messages (bs_msgManager (the_session sid a'))) k = None \<and>
      (\<exists>row. om_find (db_rows (ap_dbConn a')) k = Some row \<and> r_state row = MessageState_code DELIVERED)"
proof -
  obtain G q where q: "app_ok G {} 0 {the_client (wo_host w)} q a" using sys_invE [OF assms(1-3)] .
  have "sid \<noteq> ''fcm''" using core_okD(5) [OF app_ok_core [OF q]] assms(4) by auto
  then show ?thesis
    using bal_ack_settles [OF q _ assms(5), of "wo_env w"] assms(4,6) by (auto simp: settled_def mgr_of_def)
qed

theorem bal_ack_settles_message_witness:
  "\<exists>a. app_runs (world_with JNull 7 msg_up) [] = Some a \<and>
     om_find (mm_messages (bs_msgManager (the_session ''bal'' (snd (handleBalAckMsg (env0 JNull) ''bal'' 7 a))))) 7 = None"
proof -
  let ?w = "world_with JNull 7 msg_up"
  have e: "wo_env ?w = env0 JNull" by (simp add: world_with_def world0_def)
  have "(case app_runs ?w [] of None \<Rightarrow> False | Some a \<Rightarrow> findMessage (bs_msgManager (the_session ''bal'' a)) 7 = Inr 0)" by code_simp
  then obtain a where a: "app_runs ?w [] = Some a" "findMessage (bs_msgManager (the_session ''bal'' a)) 7 = Inr 0"
    by (cases "app_runs ?w []") simp_all
  have ok: "world_ok ?w" by (rule world_with_ok) (simp_all add: int_lims)
  from bal_ack_settles_message [OF ok life.first app_runs_reach [OF a(1)] client_with [symmetric] a(2), unfolded e, OF surjective_pairing] a(1)
  show ?thesis by simp
qed



text \<open>C20. However TCP cuts the byte stream, the reader is equivalent to handling the documents one by one, in
  order and once each: from a socket with the frames of \<open>js\<close> and an incomplete rest, it handles \<open>js\<close> and
  leaves the rest for the next packet.\<close>

theorem bal_stream_is_framed:
  assumes "frames_ok E" and "unframe_consumes E" and "\<forall>j\<in>set js. json_binary_ok E j" and "rest = [] \<or> qt_unframe E rest = None"
    and "ap_inbuf a s = stream_of E js @ rest"
  shows "handleBALSocketReadyRead E s a = handle_documents E s rest js a"
proof -
  have "length js < Suc (length (ap_inbuf a s))" using stream_length [OF assms(1,2), of js] assms(5) by simp
  from read_loop_documents [OF assms this] show ?thesis
    by (simp add: handleBALSocketReadyRead_def bindM_def gets_def)
qed

theorem bal_stream_is_framed_witness:
  "handleBALSocketReadyRead (env0 JNull) 0 ((app_members heap0 db0) \<lparr> ap_inbuf := (\<lambda>_. ''110{}110{}11'') \<rparr>) =
   handle_documents (env0 JNull) 0 ''11'' [JNull, JNull] ((app_members heap0 db0) \<lparr> ap_inbuf := (\<lambda>_. ''110{}110{}11'') \<rparr>)"
proof (rule bal_stream_is_framed [OF env0_frames env0_consumes])
  show "\<forall>j\<in>set [JNull, JNull]. json_binary_ok (env0 JNull) j" using env0_binary by simp
  show "''11'' = [] \<or> qt_unframe (env0 JNull) ''11'' = None" by code_simp
  have "stream_of (env0 JNull) [JNull, JNull] @ ''11'' = ''110{}110{}11''" by code_simp
  then show "ap_inbuf ((app_members heap0 db0) \<lparr> ap_inbuf := (\<lambda>_. ''110{}110{}11'') \<rparr>) 0 = stream_of (env0 JNull) [JNull, JNull] @ ''11''" by simp
qed

text \<open>C21. A logon on a connection that waits for one, under a configured id, while the socket takes the reply: the
  session gets the connection and is authenticated, the socket carries the session id, the reply is
  written on it, the connection's deadline is off and the resending of the queue is scheduled.\<close>

theorem logon_opens_session:
  assumes "om_find (ap_balSessionMapU a) (ap_descriptor a s) = Some conn" and "om_find (ap_balSessionMap a) sid = Some ses"
    and "\<not> qt_writeFails E (w_count (ap_wire a))"
  shows "\<exists>a'. handleBalLogonRequest E s sid a = (Inr (), a') \<and>
    the_session sid a' = ses \<lparr> bs_balConn := Some conn, bs_state := AUTHENTICATED \<rparr> \<and> ap_sessionProp a' conn = c_str sid \<and>
    w_out (ap_wire a') = w_out (ap_wire a) @ [(conn, qt_frame E (qt_toBinaryData E (logon_reply sid)))] \<and>
    \<not> bc_timerContext (ap_conns a' conn) \<and> ap_timers a' = ap_timers a @ [(1000, TResendUpstream sid)]"
proof -
  let ?m1 = "om_store sid (ses \<lparr> bs_balConn := Some conn \<rparr>) (ap_balSessionMap a)"
  let ?a1 = "a \<lparr> ap_conns := (ap_conns a)(conn := deleteTimerContext (ap_conns a conn)),
      ap_balSessionMapU := om_erase (ap_descriptor a s) (ap_balSessionMapU a), ap_balSessionMap := ?m1 \<rparr>"
  let ?s = "ses \<lparr> bs_balConn := Some conn, bs_state := AUTHENTICATED \<rparr>"
  obtain b where rel: "release_opt (bs_balConn ses) ?a1 = (Inr (), b)"
    and b: "ap_balSessionMap b = ?m1" "ap_sessionProp b = ap_sessionProp a" "ap_wire b = ap_wire a" "ap_timers b = ap_timers a"
      "\<not> bc_timerContext (ap_conns b conn)"
    by (cases "bs_balConn ses")
      (auto simp: release_opt_def release_conn_def modify_def ret_def deleteTimerContext_def BALConn_destroy_def)
  let ?a3 = "b \<lparr> ap_sessionProp := (ap_sessionProp a)(conn := c_str sid), ap_balSessionMap := om_store sid ?s ?m1 \<rparr>"
  have f1: "om_find ?m1 sid = Some (ses \<lparr> bs_balConn := Some conn \<rparr>)" "om_find (om_store sid ?s ?m1) sid = Some ?s"
    by (simp_all add: om_find_store)
  have "handleBalLogonRequest E s sid a =
      thenM (bindM (findBalSession sid) (\<lambda>sess. write_session E sess (logon_reply sid))) (start_timer 1000 (TResendUpstream sid)) ?a3"
    using assms(1,2) f1(1) rel b(1,2)
    by (simp add: handleBalLogonRequest_def bindM_def [of "gets _"] gets_def thenM_def [of "modify _"] bindM_def [of "modify _"] modify_def
        put_session_def the_session_def thenM_ok)
  then show ?thesis
    using assms(3) f1(2) b
    by (auto simp: thenM_def bindM_def findBalSession_def getsE_def write_session_def writeMessage_def zoom_def start_timer_def
        modify_def the_session_def sock_write_def ret_def)
qed

theorem logon_opens_session_witness:
  "\<exists>a a'. app_runs (world0 JNull) [ANewBALConnection 5] = Some a \<and> handleBalLogonRequest (env0 JNull) 0 ''bal'' a = (Inr (), a') \<and>
     bs_state (the_session ''bal'' a') = AUTHENTICATED"
proof -
  have "(case app_runs (world0 JNull) [ANewBALConnection 5] of None \<Rightarrow> False
      | Some a \<Rightarrow> om_find (ap_balSessionMapU a) (ap_descriptor a 0) = Some 0 \<and> om_find (ap_balSessionMap a) ''bal'' \<noteq> None)" by code_simp
  then obtain a ses where a: "app_runs (world0 JNull) [ANewBALConnection 5] = Some a"
    "om_find (ap_balSessionMapU a) (ap_descriptor a 0) = Some 0" "om_find (ap_balSessionMap a) ''bal'' = Some ses"
    by (cases "app_runs (world0 JNull) [ANewBALConnection 5]") auto
  have "\<not> qt_writeFails (env0 JNull) (w_count (ap_wire a))" by (simp add: env0_def)
  from logon_opens_session [OF a(2,3) this] a(1) show ?thesis by fastforce
qed

text \<open>C26. When the peer of a session logs on again over a new socket and the old socket closes after that, the
  slot marks the session unauthenticated although its connection is the new one: nothing more is
  written to the peer until it logs on once more.\<close>

theorem stale_disconnect_downs_session:
  assumes "om_find (ap_balSessionMapU a) (ap_descriptor a old) = None" and "ap_sessionProp a old = sid"
    and "om_find (ap_balSessionMap a) sid = Some ses" and "om_wf (ap_balSessionMap a)"
    and "bs_state ses = AUTHENTICATED" and "bs_balConn ses = Some new" and "new \<noteq> old"
  shows "\<exists>a'. handleBALSocketDisconnected old a = (Inr (), a') \<and> bs_balConn (the_session sid a') = Some new \<and>
    bs_state (the_session sid a') = UNAUTHENTICATED \<and> forwardMsg E sid p a' = (Inr (), a')"
proof -
  let ?a = "put_session sid (ses \<lparr> bs_state := UNAUTHENTICATED \<rparr>) a"
  have the: "the_session sid a = ses" "the_session sid ?a = ses \<lparr> bs_state := UNAUTHENTICATED \<rparr>"
    using assms(3,4) the_session_put [of a] by (simp_all add: the_session_def)
  have "handleBALSocketDisconnected old a = (Inr (), ?a)"
    using assms(1-3) the(1) by (simp add: handleBALSocketDisconnected_def bindM_def gets_def modify_def)
  moreover have "forwardMsg E sid p ?a = (Inr (), ?a)"
    by (simp add: forwardMsg_def findBalSession_def bindM_def getsE_def put_session_def om_find_store ret_def)
  ultimately show ?thesis using the(2) assms(6) by simp
qed

theorem stale_disconnect_downs_session_witness:
  "let ses = (BALSession ''bal'' AUTHENTICATED) \<lparr> bs_balConn := Some 1 \<rparr>;
       a = (app_members heap0 db0) \<lparr> ap_balSessionMap := [(''bal'', ses)], ap_sessionProp := (\<lambda>_. ''bal'') \<rparr> in
     \<exists>a'. handleBALSocketDisconnected 0 a = (Inr (), a') \<and> bs_balConn (the_session ''bal'' a') = Some 1 \<and>
       bs_state (the_session ''bal'' a') = UNAUTHENTICATED \<and> forwardMsg (env0 JNull) ''bal'' 0 a' = (Inr (), a')"
  unfolding Let_def
  by (rule stale_disconnect_downs_session [where new = 1 and old = 0 and ses = "(BALSession ''bal'' AUTHENTICATED) \<lparr> bs_balConn := Some 1 \<rparr>"]) (simp_all add: app_members_def BALSession_def om_wf_def)



text \<open>C11. What the logon schedules: while the engine and the socket answer and the flow control has room for the
  queue, every queued message for the application with no older message of its group is written to the connection of the
  session, in the order of the ids.  The rows of those never sent are put in flight first, and all stay queued until
  they are acknowledged.\<close>

theorem logon_resends_pending:
  assumes "world_ok w0" and "life w0 w" and "app_reaches w a" and "sid = the_client (wo_host w)"
    and "bs_state (the_session sid a) = AUTHENTICATED" and "bs_balConn (the_session sid a) = Some c"
    and "queue = mm_messages (bs_msgManager (the_session sid a))"
    and "unat (mm_pendingAckCount (bs_msgManager (the_session sid a))) + length queue \<le> 100"
    and "\<forall>n. \<not> sq_fails (wo_env w) n" and "\<forall>n. \<not> qt_writeFails (wo_env w) n"
  shows "\<exists>a'. timer_fires (wo_env w) (wo_what w) (TResendUpstream sid) a = (Inr (), a') \<and>
    w_out (ap_wire a') = w_out (ap_wire a) @ resent_frames (wo_env w) c (ap_heap a) queue queue \<and>
    mm_messages (bs_msgManager (the_session sid a')) = queue \<and>
    (\<forall>(k, p)\<in>set queue. may_resend_up (ap_heap a) queue p \<and> msg_state (ap_heap a p) = NEW \<longrightarrow>
      (\<exists>r. om_find (db_rows (ap_dbConn a')) k = Some r \<and> r_state r = MessageState_code PENDING_ACK))"
proof -
  obtain G q where q: "app_ok G {} 0 {the_client (wo_host w)} q a" and w: "world_ok w" using sys_invE [OF assms(1-3)] .
  have ne: "sid \<noteq> ''fcm''" using core_okD(5) [OF app_ok_core [OF q]] assms(4) by auto
  then have "queue = q sid" using app_ok_mgr(3) [OF q, of sid] assms(4,7) by (simp add: mgr_of_def)
  moreover have "draws_in_range (wo_env w)" using w by (simp add: world_ok_def platform_ok_def)
  ultimately show ?thesis
    using resend_up_run [OF q, of sid "wo_env w" c] assms(4-6,8-10) by (auto simp: resent_def)
qed

theorem logon_resends_pending_witness:
  "\<exists>a a' fs. app_runs (world_with logon_doc 7 msg_up) logon_events = Some a \<and>
     timer_fires (env0 logon_doc) (\<lambda>_. []) (TResendUpstream ''bal'') a = (Inr (), a') \<and>
     fs \<noteq> [] \<and> w_out (ap_wire a') = w_out (ap_wire a) @ fs"
proof -
  let ?w = "world_with logon_doc 7 msg_up" and ?ses = "\<lambda>a. the_session ''bal'' a"
  have e: "wo_env ?w = env0 logon_doc" "wo_what ?w = (\<lambda>_. [])" by (simp_all add: world_with_def world0_def)
  have "(case app_runs ?w logon_events of None \<Rightarrow> False
      | Some a \<Rightarrow> bs_state (?ses a) = AUTHENTICATED \<and> bs_balConn (?ses a) = Some 0 \<and> mm_pendingAckCount (bs_msgManager (?ses a)) = 0 \<and>
          length (mm_messages (bs_msgManager (?ses a))) = 1 \<and>
          (let q = mm_messages (bs_msgManager (?ses a)) in resent_frames (env0 logon_doc) 0 (ap_heap a) q q \<noteq> []))" by code_simp
  then obtain a where a: "app_runs ?w logon_events = Some a" "bs_state (?ses a) = AUTHENTICATED" "bs_balConn (?ses a) = Some 0"
    "mm_pendingAckCount (bs_msgManager (?ses a)) = 0" "length (mm_messages (bs_msgManager (?ses a))) = 1"
    "resent_frames (env0 logon_doc) 0 (ap_heap a) (mm_messages (bs_msgManager (?ses a))) (mm_messages (bs_msgManager (?ses a))) \<noteq> []"
    by (cases "app_runs ?w logon_events") (simp_all add: Let_def)
  have ok: "world_ok ?w" by (rule world_with_ok) (simp_all add: int_lims)
  have up: "\<forall>n. \<not> sq_fails (wo_env ?w) n" "\<forall>n. \<not> qt_writeFails (wo_env ?w) n" by (simp_all add: e env0_def)
  have room: "unat (mm_pendingAckCount (bs_msgManager (?ses a))) + length (mm_messages (bs_msgManager (?ses a))) \<le> 100" using a(4,5) by simp
  from logon_resends_pending [OF ok life.first app_runs_reach [OF a(1)] client_with [symmetric] a(2,3) refl room up] a(1,6)
  show ?thesis unfolding e by blast
qed

text \<open>C25. The resend after a logon counts a message that was never sent as unacknowledged and leaves it new in
  memory, so every logon before its acknowledgement counts it once more and the count, which limits
  what may be sent, drifts above the number of unacknowledged messages.\<close>

theorem resend_charges_again:
  assumes "world_ok w0" and "life w0 w" and "app_reaches w a" and "sid = the_client (wo_host w)"
    and "om_find (mm_messages (bs_msgManager (the_session sid a))) k = Some p"
    and "msg_type (ap_heap a p) = UPSTREAM" and "msg_state (ap_heap a p) = NEW"
    and "canSendMessageOnReconnect (ap_heap a) (bs_msgManager (the_session sid a)) p = Inr 0"
    and "\<forall>n. \<not> sq_fails (wo_env w) n" and "resend_upstream (wo_env w) sid p a = (r, a')"
  shows "msg_state (ap_heap a' p) = NEW \<and> om_find (mm_messages (bs_msgManager (the_session sid a'))) k = Some p \<and>
    mm_pendingAckCount (bs_msgManager (the_session sid a')) = mm_pendingAckCount (bs_msgManager (the_session sid a)) + 1"
proof -
  obtain G q where q: "app_ok G {} 0 {the_client (wo_host w)} q a" using sys_invE [OF assms(1-3)] .
  have ne: "sid \<noteq> ''fcm''" using core_okD(5) [OF app_ok_core [OF q]] assms(4) by auto
  then have key: "om_find (q sid) k = Some p" using app_ok_mgr(3) [OF q, of sid] assms(4,5) by (simp add: mgr_of_def)
  have up: "\<not> sq_fails (wo_env w) n" for n using assms(9) by blast
  from resend_counts [OF q _ key assms(6-8) up] assms(4,5,7,10) show ?thesis by simp
qed

theorem resend_charges_again_witness:
  "\<exists>a. app_runs (world_with logon_doc 7 msg_up) logon_events = Some a \<and>
     mm_pendingAckCount (bs_msgManager (the_session ''bal'' (snd (resend_upstream (env0 logon_doc) ''bal'' 0 a)))) =
     mm_pendingAckCount (bs_msgManager (the_session ''bal'' a)) + 1"
proof -
  let ?w = "world_with logon_doc 7 msg_up"
  have e: "wo_env ?w = env0 logon_doc" by (simp add: world_with_def world0_def)
  have "(case app_runs ?w logon_events of None \<Rightarrow> False
      | Some a \<Rightarrow> om_find (mm_messages (bs_msgManager (the_session ''bal'' a))) 7 = Some 0 \<and> msg_type (ap_heap a 0) = UPSTREAM \<and>
          msg_state (ap_heap a 0) = NEW \<and> canSendMessageOnReconnect (ap_heap a) (bs_msgManager (the_session ''bal'' a)) 0 = Inr 0)" by code_simp
  then obtain a where a: "app_runs ?w logon_events = Some a" "om_find (mm_messages (bs_msgManager (the_session ''bal'' a))) 7 = Some 0"
    "msg_type (ap_heap a 0) = UPSTREAM" "msg_state (ap_heap a 0) = NEW"
    "canSendMessageOnReconnect (ap_heap a) (bs_msgManager (the_session ''bal'' a)) 0 = Inr 0"
    by (cases "app_runs ?w logon_events") simp_all
  have ok: "world_ok ?w" by (rule world_with_ok) (simp_all add: int_lims)
  have up: "\<forall>n. \<not> sq_fails (wo_env ?w) n" by (simp add: e)
  from resend_charges_again [OF ok life.first app_runs_reach [OF a(1)] client_with [symmetric] a(2-5) up, unfolded e, OF surjective_pairing] a(1)
  show ?thesis by blast
qed

end
